(* ===== verification/Go_Prelude.thy ===== *)
theory Go_Prelude
  imports Main "HOL-Library.Word"
begin

unbundle bit_operations_syntax

section \<open>Prelude: Go data, errors, and shared automation\<close>

text \<open>
  What every component of the driver model shares: Go's fixed-width integers, byte slices and
  strings; the values a Go \<^verbatim>\<open>any\<close> can hold in this program; error values with the wrapping done
  by \<^verbatim>\<open>fmt.Errorf\<close> and \<^verbatim>\<open>errors.Join\<close>; the early-return sequencing \<open>bindE\<close>; slice and index
  operations whose run-time panic is a value; and the big-endian integer layouts of Go's
  \<^verbatim>\<open>encoding/binary\<close>.
\<close>

subsection \<open>Collections of facts\<close>

named_theorems wire_simps \<open>equations that evaluate encoders and parsers\<close>
named_theorems parser_safe \<open>introduction rules for panic-free parsers\<close>
named_theorems parse_intros \<open>introduction rules for parsing an encoded value\<close>
named_theorems conn_rules \<open>introduction rules for operations that respect a poisoned connection\<close>

subsection \<open>Integers, byte slices, strings\<close>

type_synonym byte = "8 word"
type_synonym bytes = "byte list"
type_synonym int16 = "16 word"
type_synonym int32 = "32 word"
type_synonym int64 = "64 word"

text \<open>
  A signed Go integer is a word read with \<^const>\<open>sint\<close>. Go's \<^verbatim>\<open>int\<close> (64 bits on the supported
  platforms) is \<^typ>\<open>int\<close> where it holds lengths and offsets, which stay far below the width.
  A Go string is a sequence of bytes, modelled by \<^typ>\<open>string\<close> (HOL characters are bytes); the
  conversions to and from \<^verbatim>\<open>[]byte\<close> are written out.
\<close>

definition byte_of_char :: "char \<Rightarrow> byte" where
  "byte_of_char c = of_nat (of_char c)"

definition char_of_byte :: "byte \<Rightarrow> char" where
  "char_of_byte b = char_of (unat b)"

definition string_bytes :: "string \<Rightarrow> bytes" where
  "string_bytes s = map byte_of_char s"

definition bytes_string :: "bytes \<Rightarrow> string" where
  "bytes_string b = map char_of_byte b"

lemma of_char_less_256: "of_char c < (256 :: nat)"
  by (metis nat_of_char_less_256)

lemma char_of_byte_of_char [simp]: "char_of_byte (byte_of_char c) = c"
  by (simp add: char_of_byte_def byte_of_char_def unsigned_of_nat take_bit_eq_mod of_char_less_256)

lemma byte_of_char_of_byte [simp]: "byte_of_char (char_of_byte b) = b"
proof -
  have "unat b < 256" using unsigned_less [of b] by simp
  then show ?thesis by (simp add: char_of_byte_def byte_of_char_def)
qed

lemma bytes_string_of_string_bytes [simp]: "bytes_string (string_bytes s) = s"
  by (simp add: bytes_string_def string_bytes_def comp_def)

lemma string_bytes_of_bytes_string [simp]: "string_bytes (bytes_string b) = b"
  by (simp add: bytes_string_def string_bytes_def comp_def)

lemma length_string_bytes [simp]: "length (string_bytes s) = length s"
  by (simp add: string_bytes_def)

lemma length_bytes_string [simp]: "length (bytes_string b) = length b"
  by (simp add: bytes_string_def)

lemma string_bytes_Nil [simp]: "string_bytes [] = []"
  by (simp add: string_bytes_def)

lemma string_bytes_append: "string_bytes (s @ t) = string_bytes s @ string_bytes t"
  by (simp add: string_bytes_def)

lemma bytes_string_Nil [simp]: "bytes_string [] = []"
  by (simp add: bytes_string_def)

lemma inj_bytes_string [simp]: "bytes_string a = bytes_string b \<longleftrightarrow> a = b"
  by (metis string_bytes_of_bytes_string)

subsection \<open>Values\<close>

text \<open>
  A \<^verbatim>\<open>time.Time\<close> is its wall clock, in seconds from 1970-01-01 00:00:00 of its own location,
  with the nanoseconds within the second, and the location. Floating-point values are their
  IEEE 754 bit patterns: the code only moves them through \<^verbatim>\<open>math.Float32bits\<close> and its kin.
\<close>

datatype location = UTC | FixedZone int | Zone string

record time =
  wall_sec :: int
  wall_nsec :: int
  time_loc :: location

record lob_handle =
  lh_DBType :: int32
  lh_Size :: int64
  lh_Locator :: string
  lh_raw :: bytes

record lob =
  lob_handle :: lob_handle
  lob_isClob :: bool
  lob_writable :: bool

text \<open>
  The dynamic types a Go \<^verbatim>\<open>any\<close> holds in this program. \<^verbatim>\<open>VLob None\<close> is a nil \<^verbatim>\<open>*Lob\<close>;
  \<^verbatim>\<open>VOther\<close> is a value of any type the driver does not know, by its type name.
\<close>

datatype "value" =
    VNil
  | VBool bool
  | VInt int64
  | VInt16 int16
  | VInt32 int32
  | VInt64 int64
  | VFloat32 "32 word"
  | VFloat64 "64 word"
  | VString string
  | VBytes bytes
  | VTime time
  | VLob "lob option"
  | VNumeric string
  | VSlice "value list"
  | VOther string

subsection \<open>Errors\<close>

text \<open>
  \<^verbatim>\<open>Errorf\<close> is an error made by \<^verbatim>\<open>fmt.Errorf\<close> or \<^verbatim>\<open>errors.New\<close> with its format and arguments;
  \<^verbatim>\<open>Wrapf\<close> one whose format ends in \<^verbatim>\<open>%w\<close>, with the wrapped error; \<^verbatim>\<open>Joined\<close> is
  \<^verbatim>\<open>errors.Join\<close>. \<^verbatim>\<open>ServerError\<close> is \<^verbatim>\<open>*protocol.Error\<close>. \<^verbatim>\<open>NetError\<close> is an error of the
  network library. \<^verbatim>\<open>Panic\<close> is a Go run-time panic: not an error value of the program, but the
  outcome that the parsers must never have; it travels up unwrapped.
\<close>

datatype errarg = EInt int | EStr string | EVal "value"

datatype error =
    ErrShortBuffer
  | ErrBadConn
  | EOF
  | ErrUnexpectedEOF
  | ContextCanceled
  | DeadlineExceeded
  | ServerError (Code: int32) (Message: string)
  | NetError string
  | Errorf string "errarg list"
  | Wrapf string "errarg list" error
  | Joined "error list"
  | Panic string

fun is_panic :: "error \<Rightarrow> bool" where
  "is_panic (Panic s) = True"
| "is_panic (Wrapf f a e) = is_panic e"
| "is_panic (Joined es) = list_ex is_panic es"
| "is_panic e = False"

text \<open>\<^verbatim>\<open>errors.Is\<close>: the error itself or one it wraps is the target sentinel.\<close>

fun errors_Is :: "error \<Rightarrow> error \<Rightarrow> bool" where
  "errors_Is (Wrapf f a e) t = (Wrapf f a e = t \<or> errors_Is e t)"
| "errors_Is (Joined es) t = (Joined es = t \<or> list_ex (\<lambda>e. errors_Is e t) es)"
| "errors_Is e t = (e = t)"

subsection \<open>Early return\<close>

text \<open>\<open>bindE m f\<close> is Go's \<^verbatim>\<open>x, err := m; if err != nil { return err }; f(x)\<close>.\<close>

fun bindE :: "'e + 'a \<Rightarrow> ('a \<Rightarrow> 'e + 'b) \<Rightarrow> 'e + 'b" where
  "bindE (Inl e) f = Inl e"
| "bindE (Inr x) f = f x"

lemma bindE_cong [fundef_cong]:
  assumes "m = m'" and "\<And>x. m' = Inr x \<Longrightarrow> f x = g x"
  shows "bindE m f = bindE m' g"
  using assms by (cases m') auto

lemma bindE_Inr_iff: "bindE m f = Inr y \<longleftrightarrow> (\<exists>x. m = Inr x \<and> f x = Inr y)"
  by (cases m) auto

lemma bindE_Inl_iff: "bindE m f = Inl e \<longleftrightarrow> m = Inl e \<or> (\<exists>x. m = Inr x \<and> f x = Inl e)"
  by (cases m) auto

lemma bindE_InrE:
  assumes "bindE m f = Inr y"
  obtains x where "m = Inr x" and "f x = Inr y"
  using assms by (cases m) auto

lemma bindE_assoc: "bindE (bindE m f) g = bindE m (\<lambda>x. bindE (f x) g)"
  by (cases m) auto

text \<open>\<open>wrapE\<close> is the \<^verbatim>\<open>return fmt.Errorf("...: %w", ..., err)\<close> of an error branch.\<close>

fun wrapE :: "string \<Rightarrow> errarg list \<Rightarrow> error + 'a \<Rightarrow> error + 'a" where
  "wrapE f a (Inl e) = Inl (if is_panic e then e else Wrapf f a e)"
| "wrapE f a (Inr x) = Inr x"

lemma wrapE_Inr_iff [simp]: "wrapE f a m = Inr x \<longleftrightarrow> m = Inr x"
  by (cases m) auto

lemma wrapE_no_panic:
  assumes "wrapE f a m = Inl e" and "\<And>e'. m = Inl e' \<Longrightarrow> \<not> is_panic e'"
  shows "\<not> is_panic e"
  using assms by (cases m) auto

subsection \<open>Slices and indexing, with Go's panics\<close>

definition go_slice :: "'a list \<Rightarrow> int \<Rightarrow> int \<Rightarrow> error + 'a list" where
  "go_slice b lo hi =
     (if 0 \<le> lo \<and> lo \<le> hi \<and> hi \<le> int (length b)
      then Inr (take (nat hi - nat lo) (drop (nat lo) b))
      else Inl (Panic ''slice bounds out of range''))"

definition go_index :: "'a list \<Rightarrow> int \<Rightarrow> error + 'a" where
  "go_index b i =
     (if 0 \<le> i \<and> i < int (length b) then Inr (b ! nat i)
      else Inl (Panic ''index out of range''))"

subsection \<open>Big-endian integers\<close>

text \<open>
  \<^verbatim>\<open>binary.BigEndian.AppendUint16/32/64\<close> put the most significant byte first; \<^verbatim>\<open>Uint16/32/64\<close>
  read it back. Both are instances of one width-generic pair.
\<close>

fun be_put :: "nat \<Rightarrow> 'a::len word \<Rightarrow> bytes" where
  "be_put 0 v = []"
| "be_put (Suc n) v = be_put n (drop_bit 8 v) @ [ucast v]"

definition be_get :: "bytes \<Rightarrow> 'a::len word" where
  "be_get bs = foldl (\<lambda>acc b. push_bit 8 acc OR ucast b) 0 bs"

lemma length_be_put [simp]: "length (be_put n v) = n"
  by (induction n arbitrary: v) auto

lemma be_get_Nil [simp]: "be_get [] = 0"
  by (simp add: be_get_def)

lemma be_get_snoc: "be_get (bs @ [b]) = push_bit 8 (be_get bs) OR ucast b"
  by (simp add: be_get_def)

lemma be_get_put: "be_get (be_put n v) = take_bit (8 * n) v"
proof (induction n arbitrary: v)
  case 0
  then show ?case by simp
next
  case (Suc n)
  have "be_get (be_put (Suc n) v) = push_bit 8 (take_bit (8 * n) (drop_bit 8 v)) OR ucast (ucast v :: byte)"
    by (simp add: be_get_snoc Suc.IH)
  also have "\<dots> = take_bit (8 * Suc n) v"
    by (rule bit_word_eqI) (auto simp: bit_simps)
  finally show ?case .
qed

lemma be_put_get:
  assumes "8 * length bs \<le> LENGTH('a::len)"
  shows "be_put (length bs) (be_get bs :: 'a word) = bs"
  using assms
proof (induction bs rule: rev_induct)
  case Nil
  then show ?case by simp
next
  case (snoc b bs)
  let ?g = "be_get bs :: 'a word"
  from snoc.prems have len: "8 * length bs + 8 \<le> LENGTH('a)" by simp
  from len snoc.IH have eq: "be_put (length bs) ?g = bs" by simp
  have tb: "take_bit (8 * length bs) ?g = ?g"
    using be_get_put [of "length bs" ?g] eq by simp
  have high: "\<not> bit ?g n" if "8 * length bs \<le> n" for n
    using that by (subst tb [symmetric]) (simp add: bit_take_bit_iff)
  have low: "n < 8 * length bs" if "bit ?g n" for n
    using that high [of n] by (meson not_le)
  have d: "drop_bit 8 (push_bit 8 ?g OR ucast b) = ?g"
    using len by (intro bit_word_eqI) (auto simp: bit_simps dest: bit_imp_le_length low)
  have u: "ucast (push_bit 8 ?g OR ucast b) = b"
    using len by (intro bit_word_eqI) (auto simp: bit_simps)
  show ?case by (simp only: be_get_snoc length_append_singleton be_put.simps d u eq)
qed

text \<open>
  The contract of a fixed-width layout: what a writer puts, a reader of exactly that many bytes
  gets back, and conversely.
\<close>

locale fixed_width =
  fixes put :: "'a \<Rightarrow> bytes" and get :: "bytes \<Rightarrow> 'a" and width :: nat
  assumes length_put [simp]: "length (put x) = width"
    and get_put [simp]: "get (put x) = x"
    and put_get: "length bs = width \<Longrightarrow> put (get bs) = bs"
begin

lemma put_inject: "put x = put y \<longleftrightarrow> x = y"
  by (metis get_put)

lemma get_take_put [simp]: "get (take width (put x @ rest)) = x"
  by simp

lemma get_inject: "length a = width \<Longrightarrow> length b = width \<Longrightarrow> get a = get b \<longleftrightarrow> a = b"
  by (metis put_get)

lemma put_append_inject: "put x @ a = put y @ b \<longleftrightarrow> x = y \<and> a = b"
  by (metis append_eq_append_conv length_put get_put)

end

definition put_u16 :: "int16 \<Rightarrow> bytes" where "put_u16 v = be_put 2 v"
definition put_u32 :: "int32 \<Rightarrow> bytes" where "put_u32 v = be_put 4 v"
definition put_u64 :: "int64 \<Rightarrow> bytes" where "put_u64 v = be_put 8 v"

definition get_u16 :: "bytes \<Rightarrow> int16" where "get_u16 b = be_get b"
definition get_u32 :: "bytes \<Rightarrow> int32" where "get_u32 b = be_get b"
definition get_u64 :: "bytes \<Rightarrow> int64" where "get_u64 b = be_get b"

lemma take_bit_full_word [simp]: "take_bit LENGTH('a) (v :: 'a::len word) = v"
  by (rule bit_word_eqI) (simp add: bit_take_bit_iff bit_imp_le_length)

interpretation be16: fixed_width put_u16 get_u16 2
proof
  show "get_u16 (put_u16 x) = x" for x
    using take_bit_full_word [of x] by (simp add: get_u16_def put_u16_def be_get_put)
  show "put_u16 (get_u16 bs) = bs" if "length bs = 2" for bs
    using be_put_get [of bs, where 'a = 16] that by (simp add: get_u16_def put_u16_def)
qed (simp add: put_u16_def)

interpretation be32: fixed_width put_u32 get_u32 4
proof
  show "get_u32 (put_u32 x) = x" for x
    using take_bit_full_word [of x] by (simp add: get_u32_def put_u32_def be_get_put)
  show "put_u32 (get_u32 bs) = bs" if "length bs = 4" for bs
    using be_put_get [of bs, where 'a = 32] that by (simp add: get_u32_def put_u32_def)
qed (simp add: put_u32_def)

interpretation be64: fixed_width put_u64 get_u64 8
proof
  show "get_u64 (put_u64 x) = x" for x
    using take_bit_full_word [of x] by (simp add: get_u64_def put_u64_def be_get_put)
  show "put_u64 (get_u64 bs) = bs" if "length bs = 8" for bs
    using be_put_get [of bs, where 'a = 64] that by (simp add: get_u64_def put_u64_def)
qed (simp add: put_u64_def)

lemma put_u32_not_Nil [simp]: "put_u32 v \<noteq> []"
  using be32.length_put [of v] by (metis list.size(3) zero_neq_numeral)

text \<open>Go's \<^verbatim>\<open>Uint16/32/64\<close> read a prefix and panic on a shorter slice.\<close>

definition BE_Uint16 :: "bytes \<Rightarrow> error + int16" where
  "BE_Uint16 b = (if length b < 2 then Inl (Panic ''index out of range'') else Inr (get_u16 (take 2 b)))"

definition BE_Uint32 :: "bytes \<Rightarrow> error + int32" where
  "BE_Uint32 b = (if length b < 4 then Inl (Panic ''index out of range'') else Inr (get_u32 (take 4 b)))"

definition BE_Uint64 :: "bytes \<Rightarrow> error + int64" where
  "BE_Uint64 b = (if length b < 8 then Inl (Panic ''index out of range'') else Inr (get_u64 (take 8 b)))"

subsection \<open>Words and lengths\<close>

lemma sint32_of_nat [simp]: "n < 2147483648 \<Longrightarrow> sint (of_nat n :: int32) = int n"
  by (simp add: signed_of_nat signed_take_bit_int_eq_self_iff)

lemma unat32_of_nat [simp]: "n < 4294967296 \<Longrightarrow> unat (of_nat n :: int32) = n"
  by (simp add: unsigned_of_nat take_bit_nat_eq_self_iff)

lemma take_0_prefix: "take (length a) (a @ b) = a"
  by simp

end
