(* ===== verification/Wire_Binary.thy ===== *)
theory Wire_Binary
  imports Go_Prelude
begin

section \<open>Request writer and response reader (protocol/binary.go)\<close>

text \<open>
  \<^verbatim>\<open>Writer\<close> accumulates a request payload: one raw function byte, then arguments, each prefixed by
  its 32-bit length. \<^verbatim>\<open>Reader\<close> walks a response payload. The locale \<open>arg_writer\<close> states what every
  \<^verbatim>\<open>Arg*\<close> method promises, \<open>split_args\<close> is the receiver's view of a payload, and the locales
  \<open>wire_parser\<close> and \<open>counted_parser\<close> state what every parser built on \<^verbatim>\<open>Reader\<close> promises: no
  panic, no read past the payload, and (for bodies of counted loops) a least number of bytes
  consumed.
\<close>

subsection \<open>Writer\<close>

record writer =
  w_buf :: bytes

definition NewWriter :: writer where
  "NewWriter = \<lparr>w_buf = []\<rparr>"

definition Writer_Bytes :: "writer \<Rightarrow> bytes" where
  "Writer_Bytes w = w_buf w"

definition RawByte :: "writer \<Rightarrow> byte \<Rightarrow> writer" where
  "RawByte w b = w\<lparr>w_buf := w_buf w @ [b]\<rparr>"

definition be32 :: "writer \<Rightarrow> 32 word \<Rightarrow> writer" where
  "be32 w v = w\<lparr>w_buf := w_buf w @ put_u32 v\<rparr>"

definition ArgInt :: "writer \<Rightarrow> int32 \<Rightarrow> writer" where
  "ArgInt w v = be32 (be32 w 4) v"

definition ArgByte :: "writer \<Rightarrow> byte \<Rightarrow> writer" where
  "ArgByte w b = (let w = be32 w 1 in w\<lparr>w_buf := w_buf w @ [b]\<rparr>)"

definition ArgShort :: "writer \<Rightarrow> int16 \<Rightarrow> writer" where
  "ArgShort w v = (let w = be32 w 2 in w\<lparr>w_buf := w_buf w @ put_u16 v\<rparr>)"

definition ArgLong :: "writer \<Rightarrow> int64 \<Rightarrow> writer" where
  "ArgLong w v = (let w = be32 w 8 in w\<lparr>w_buf := w_buf w @ put_u64 v\<rparr>)"

text \<open>Floats are given by their bit patterns (\<^verbatim>\<open>math.Float32bits\<close>, \<^verbatim>\<open>math.Float64bits\<close>).\<close>

definition ArgFloat :: "writer \<Rightarrow> 32 word \<Rightarrow> writer" where
  "ArgFloat w v = be32 (be32 w 4) v"

definition ArgDouble :: "writer \<Rightarrow> 64 word \<Rightarrow> writer" where
  "ArgDouble w v = (let w = be32 w 8 in w\<lparr>w_buf := w_buf w @ put_u64 v\<rparr>)"

definition ArgString :: "writer \<Rightarrow> string \<Rightarrow> writer" where
  "ArgString w s =
     (let w = be32 w (of_nat (length s + 1));
          w = w\<lparr>w_buf := w_buf w @ string_bytes s\<rparr>
      in w\<lparr>w_buf := w_buf w @ [0]\<rparr>)"

definition ArgBytes :: "writer \<Rightarrow> bytes \<Rightarrow> writer" where
  "ArgBytes w p = (let w = be32 w (of_nat (length p)) in w\<lparr>w_buf := w_buf w @ p\<rparr>)"

definition ArgNull :: "writer \<Rightarrow> writer" where
  "ArgNull w = be32 w 0"

subsection \<open>What an argument looks like to the receiver\<close>

definition arg_bytes :: "bytes \<Rightarrow> bytes" where
  "arg_bytes a = put_u32 (of_nat (length a)) @ a"

definition encode_args :: "bytes list \<Rightarrow> bytes" where
  "encode_args as = concat (map arg_bytes as)"

text \<open>The receiver splits a payload back into arguments; \<open>None\<close> when it is not a whole number of them.\<close>

function split_args :: "bytes \<Rightarrow> bytes list option" where
  "split_args b =
     (if b = [] then Some []
      else if length b < 4 then None
      else let n = unat (get_u32 (take 4 b)); rest = drop 4 b
           in if length rest < n then None
              else map_option (Cons (take n rest)) (split_args (drop n rest)))"
  by pat_completeness auto
termination
  by (relation "measure length") (auto simp: Let_def)

declare split_args.simps [simp del]

lemma split_args_Nil [simp]: "split_args [] = Some []"
  by (simp add: split_args.simps)

lemma split_args_arg:
  "length a < 2 ^ 32 \<Longrightarrow> split_args (arg_bytes a @ rest) = map_option (Cons a) (split_args rest)"
  by (subst split_args.simps) (simp add: arg_bytes_def Let_def)

lemma split_args_encode:
  "(\<And>a. a \<in> set as \<Longrightarrow> length a < 2 ^ 32) \<Longrightarrow> split_args (encode_args as) = Some as"
  by (induction as) (simp_all add: encode_args_def split_args_arg)

lemma encode_args_Cons [simp]: "encode_args (a # as) = arg_bytes a @ encode_args as"
  by (simp add: encode_args_def)

lemma encode_args_Nil [simp]: "encode_args [] = []"
  by (simp add: encode_args_def)

lemma encode_args_append [simp]: "encode_args (as @ bs) = encode_args as @ encode_args bs"
  by (simp add: encode_args_def)

text \<open>The contract of an \<^verbatim>\<open>Arg*\<close> method: it appends exactly one length-prefixed argument.\<close>

locale arg_writer =
  fixes wr :: "writer \<Rightarrow> 'a \<Rightarrow> writer" and content :: "'a \<Rightarrow> bytes"
  assumes write_buf: "w_buf (wr w x) = w_buf w @ arg_bytes (content x)"
begin

lemma write_args: "w_buf w = h @ encode_args as \<Longrightarrow> w_buf (wr w x) = h @ encode_args (as @ [content x])"
  by (simp add: write_buf)

lemma write_prefix: "take (length (w_buf w)) (w_buf (wr w x)) = w_buf w"
  by (simp add: write_buf)

end

interpretation ArgInt: arg_writer ArgInt put_u32
  by unfold_locales (simp add: ArgInt_def be32_def arg_bytes_def)

interpretation ArgByte: arg_writer ArgByte "\<lambda>b. [b]"
  by unfold_locales (simp add: ArgByte_def be32_def arg_bytes_def)

interpretation ArgShort: arg_writer ArgShort put_u16
  by unfold_locales (simp add: ArgShort_def be32_def arg_bytes_def)

interpretation ArgLong: arg_writer ArgLong put_u64
  by unfold_locales (simp add: ArgLong_def be32_def arg_bytes_def)

interpretation ArgFloat: arg_writer ArgFloat put_u32
  by unfold_locales (simp add: ArgFloat_def be32_def arg_bytes_def)

interpretation ArgDouble: arg_writer ArgDouble put_u64
  by unfold_locales (simp add: ArgDouble_def be32_def arg_bytes_def)

interpretation ArgString: arg_writer ArgString "\<lambda>s. string_bytes s @ [0]"
  by unfold_locales (simp add: ArgString_def be32_def arg_bytes_def)

interpretation ArgBytes: arg_writer ArgBytes "\<lambda>p. p"
  by unfold_locales (simp add: ArgBytes_def be32_def arg_bytes_def)

interpretation ArgNull: arg_writer "\<lambda>w (_ :: unit). ArgNull w" "\<lambda>_. []"
  by unfold_locales (simp add: ArgNull_def be32_def arg_bytes_def)

lemma w_buf_RawByte: "w_buf (RawByte w b) = w_buf w @ [b]"
  by (simp add: RawByte_def)

lemma w_buf_NewWriter: "w_buf NewWriter = []"
  by (simp add: NewWriter_def)

lemmas arg_buf [wire_simps] =
  ArgInt.write_buf ArgByte.write_buf ArgShort.write_buf ArgLong.write_buf ArgFloat.write_buf
  ArgDouble.write_buf ArgString.write_buf ArgBytes.write_buf ArgNull.write_buf
  w_buf_RawByte w_buf_NewWriter Writer_Bytes_def

subsection \<open>Reader\<close>

record reader =
  r_buf :: bytes
  r_off :: nat

definition NewReader :: "bytes \<Rightarrow> reader" where
  "NewReader p = \<lparr>r_buf = p, r_off = 0\<rparr>"

definition Remaining :: "reader \<Rightarrow> int" where
  "Remaining r = int (length (r_buf r)) - int (r_off r)"

definition Reader_take :: "reader \<Rightarrow> int \<Rightarrow> error + bytes \<times> reader" where
  "Reader_take r n =
     (if n < 0 \<or> int (r_off r) + n > int (length (r_buf r)) then Inl ErrShortBuffer
      else bindE (go_slice (r_buf r) (int (r_off r)) (int (r_off r) + n))
             (\<lambda>b. Inr (b, r\<lparr>r_off := r_off r + nat n\<rparr>)))"

definition Reader_Byte :: "reader \<Rightarrow> error + byte \<times> reader" where
  "Reader_Byte r = bindE (Reader_take r 1) (\<lambda>(b, r). bindE (go_index b 0) (\<lambda>x. Inr (x, r)))"

definition Int16 :: "reader \<Rightarrow> error + int16 \<times> reader" where
  "Int16 r = bindE (Reader_take r 2) (\<lambda>(b, r). bindE (BE_Uint16 b) (\<lambda>x. Inr (x, r)))"

definition Int32 :: "reader \<Rightarrow> error + int32 \<times> reader" where
  "Int32 r = bindE (Reader_take r 4) (\<lambda>(b, r). bindE (BE_Uint32 b) (\<lambda>x. Inr (x, r)))"

definition Int64 :: "reader \<Rightarrow> error + int64 \<times> reader" where
  "Int64 r = bindE (Reader_take r 8) (\<lambda>(b, r). bindE (BE_Uint64 b) (\<lambda>x. Inr (x, r)))"

definition Reader_Bytes :: "reader \<Rightarrow> int \<Rightarrow> error + bytes \<times> reader" where
  "Reader_Bytes r n = Reader_take r n"

definition Reader_String :: "reader \<Rightarrow> error + string \<times> reader" where
  "Reader_String r =
     bindE (Int32 r) (\<lambda>(n, r).
       if sint n \<le> 0 then Inr ([], r)
       else bindE (Reader_take r (sint n)) (\<lambda>(b, r).
         bindE (go_index b (int (length b) - 1)) (\<lambda>last.
         bindE (if last = 0 then go_slice b 0 (int (length b) - 1) else Inr b) (\<lambda>b.
           Inr (bytes_string b, r)))))"

subsection \<open>Reading as list operations\<close>

text \<open>
  A reader stands for the bytes it has not read yet. Every method is determined by them: this is
  the abstraction under which the parsers are verified.
\<close>

definition reader_ok :: "reader \<Rightarrow> bool" where
  "reader_ok r \<longleftrightarrow> r_off r \<le> length (r_buf r)"

definition rem_bytes :: "reader \<Rightarrow> bytes" where
  "rem_bytes r = drop (r_off r) (r_buf r)"

definition advance :: "nat \<Rightarrow> reader \<Rightarrow> reader" where
  "advance n r = r\<lparr>r_off := r_off r + n\<rparr>"

lemma reader_ok_NewReader [simp]: "reader_ok (NewReader p)"
  by (simp add: reader_ok_def NewReader_def)

lemma rem_bytes_NewReader [simp]: "rem_bytes (NewReader p) = p"
  by (simp add: rem_bytes_def NewReader_def)

lemma Remaining_eq: "reader_ok r \<Longrightarrow> Remaining r = int (length (rem_bytes r))"
  by (simp add: Remaining_def rem_bytes_def reader_ok_def)

lemma rem_bytes_advance [simp]: "rem_bytes (advance n r) = drop n (rem_bytes r)"
  by (simp add: rem_bytes_def advance_def add.commute)

lemma reader_ok_advance [simp]: "reader_ok r \<Longrightarrow> n \<le> length (rem_bytes r) \<Longrightarrow> reader_ok (advance n r)"
  by (simp add: reader_ok_def rem_bytes_def advance_def)

lemma advance_advance [simp]: "advance n (advance m r) = advance (m + n) r"
  by (simp add: advance_def add.assoc)

lemma advance_0 [simp]: "advance 0 r = r"
  by (simp add: advance_def)

lemma r_buf_advance [simp]: "r_buf (advance n r) = r_buf r"
  by (simp add: advance_def)

lemma r_off_advance [simp]: "r_off (advance n r) = r_off r + n"
  by (simp add: advance_def)

lemma Reader_take_eq:
  assumes "reader_ok r"
  shows "Reader_take r n =
    (if n < 0 \<or> int (length (rem_bytes r)) < n then Inl ErrShortBuffer
     else Inr (take (nat n) (rem_bytes r), advance (nat n) r))"
  using assms
  by (auto simp: Reader_take_def go_slice_def reader_ok_def rem_bytes_def advance_def nat_add_distrib)

lemma Reader_Byte_eq:
  "reader_ok r \<Longrightarrow> Reader_Byte r =
    (if rem_bytes r = [] then Inl ErrShortBuffer else Inr (hd (rem_bytes r), advance 1 r))"
  by (auto simp: Reader_Byte_def Reader_take_eq go_index_def neq_Nil_conv)

lemma Int16_eq:
  "reader_ok r \<Longrightarrow> Int16 r =
    (if length (rem_bytes r) < 2 then Inl ErrShortBuffer
     else Inr (get_u16 (take 2 (rem_bytes r)), advance 2 r))"
  by (auto simp: Int16_def Reader_take_eq BE_Uint16_def)

lemma Int32_eq:
  "reader_ok r \<Longrightarrow> Int32 r =
    (if length (rem_bytes r) < 4 then Inl ErrShortBuffer
     else Inr (get_u32 (take 4 (rem_bytes r)), advance 4 r))"
  by (auto simp: Int32_def Reader_take_eq BE_Uint32_def)

lemma Int64_eq:
  "reader_ok r \<Longrightarrow> Int64 r =
    (if length (rem_bytes r) < 8 then Inl ErrShortBuffer
     else Inr (get_u64 (take 8 (rem_bytes r)), advance 8 r))"
  by (auto simp: Int64_def Reader_take_eq BE_Uint64_def)

text \<open>\<open>chop_nul\<close> is what \<^verbatim>\<open>Reader.String\<close> strips: one trailing NUL, if present.\<close>

definition chop_nul :: "bytes \<Rightarrow> bytes" where
  "chop_nul b = (if b \<noteq> [] \<and> last b = 0 then butlast b else b)"

lemma chop_nul_snoc [simp]: "chop_nul (b @ [0]) = b"
  by (simp add: chop_nul_def)

lemma Reader_String_eq:
  assumes "reader_ok r"
  shows "Reader_String r =
    (if length (rem_bytes r) < 4 then Inl ErrShortBuffer
     else let n = sint (get_u32 (take 4 (rem_bytes r)))
          in if n \<le> 0 then Inr ([], advance 4 r)
             else if int (length (rem_bytes r)) - 4 < n then Inl ErrShortBuffer
             else Inr (bytes_string (chop_nul (take (nat n) (drop 4 (rem_bytes r)))), advance (4 + nat n) r))"
proof -
  have idx: "go_index b (int (length b) - 1) = Inr (last b)" if "b \<noteq> []" for b :: bytes
    using that by (simp add: go_index_def last_conv_nth nat_diff_distrib Suc_leI)
  have sl: "go_slice b 0 (int (length b) - 1) = Inr (butlast b)" if "b \<noteq> []" for b :: bytes
    using that by (simp add: go_slice_def butlast_conv_take nat_diff_distrib Suc_leI)
  have *: "bindE (go_index b (int (length b) - 1)) (\<lambda>last.
         bindE (if last = 0 then go_slice b 0 (int (length b) - 1) else Inr b) (\<lambda>b.
           Inr (bytes_string b, r'))) = Inr (bytes_string (chop_nul b), r')"
    if "b \<noteq> []" for b :: bytes and r' :: reader
    using that by (simp add: idx sl chop_nul_def)
  define n where "n = sint (get_u32 (take 4 (rem_bytes r)))"
  show ?thesis
  proof (cases "4 \<le> length (rem_bytes r) \<and> 0 < n \<and> n \<le> int (length (rem_bytes r)) - 4")
    case True
    define b where "b = take (nat n) (drop 4 (rem_bytes r))"
    have b: "b \<noteq> []" using True by (auto simp: b_def)
    have i: "Int32 r = Inr (get_u32 (take 4 (rem_bytes r)), advance 4 r)"
      using True assms by (simp add: Int32_eq)
    have t: "Reader_take (advance 4 r) n = Inr (b, advance (4 + nat n) r)"
      using True assms by (simp add: Reader_take_eq b_def)
    have "Reader_String r = Inr (bytes_string (chop_nul b), advance (4 + nat n) r)"
      using True by (simp add: Reader_String_def i t * [OF b] flip: n_def)
    with True show ?thesis by (simp add: Let_def flip: n_def b_def)
  next
    case False
    with assms show ?thesis
      by (auto simp: Reader_String_def Int32_eq Reader_take_eq Let_def n_def)
  qed
qed

subsection \<open>Parsers that cannot panic\<close>

type_synonym 'a parser = "reader \<Rightarrow> error + 'a \<times> reader"

locale wire_parser =
  fixes p :: "reader \<Rightarrow> error + 'a \<times> reader"
  assumes no_panic: "reader_ok r \<Longrightarrow> p r = Inl e \<Longrightarrow> \<not> is_panic e"
    and keeps_ok: "reader_ok r \<Longrightarrow> p r = Inr (x, r') \<Longrightarrow> reader_ok r'"
    and keeps_buf: "reader_ok r \<Longrightarrow> p r = Inr (x, r') \<Longrightarrow> r_buf r' = r_buf r"
    and monotone: "reader_ok r \<Longrightarrow> p r = Inr (x, r') \<Longrightarrow> r_off r \<le> r_off r'"
begin

lemma stays_in_payload:
  "reader_ok r \<Longrightarrow> p r = Inr (x, r') \<Longrightarrow> r_off r' \<le> length (r_buf r)"
  using keeps_ok keeps_buf by (metis reader_ok_def)

lemma whole_payload_no_panic: "p (NewReader b) = Inl e \<Longrightarrow> \<not> is_panic e"
  by (rule no_panic) simp_all

end

lemma wire_parserI:
  assumes "\<And>r. reader_ok r \<Longrightarrow> (case p r of Inl e \<Rightarrow> \<not> is_panic e
     | Inr (x, r') \<Rightarrow> reader_ok r' \<and> r_buf r' = r_buf r \<and> r_off r \<le> r_off r')"
  shows "wire_parser p"
proof
  fix r x r' e
  assume "reader_ok r"
  note A = assms [OF this]
  show "p r = Inl e \<Longrightarrow> \<not> is_panic e" using A by auto
  show "p r = Inr (x, r') \<Longrightarrow> reader_ok r'" using A by auto
  show "p r = Inr (x, r') \<Longrightarrow> r_buf r' = r_buf r" using A by auto
  show "p r = Inr (x, r') \<Longrightarrow> r_off r \<le> r_off r'" using A by auto
qed

lemma wire_parserD:
  assumes "wire_parser p" and "reader_ok r"
  shows "case p r of Inl e \<Rightarrow> \<not> is_panic e
     | Inr (x, r') \<Rightarrow> reader_ok r' \<and> r_buf r' = r_buf r \<and> r_off r \<le> r_off r'"
proof (cases "p r")
  case (Inl e)
  then show ?thesis using wire_parser.no_panic [OF assms] by simp
next
  case (Inr y)
  obtain x r' where y: "y = (x, r')" by (cases y)
  with Inr have eq: "p r = Inr (x, r')" by simp
  show ?thesis
    using wire_parser.keeps_ok [OF assms eq] wire_parser.keeps_buf [OF assms eq]
      wire_parser.monotone [OF assms eq] by (simp add: eq)
qed

lemma wire_parser_return [parser_safe]: "wire_parser (\<lambda>r. Inr (f r, r))"
  by (rule wire_parserI) simp

lemma wire_parser_fail [parser_safe]: "(\<And>r. \<not> is_panic (e r)) \<Longrightarrow> wire_parser (\<lambda>r. Inl (e r))"
  by (rule wire_parserI) simp

lemma wire_parser_bind [parser_safe]:
  assumes "wire_parser p" and "\<And>x. wire_parser (q x)"
  shows "wire_parser (\<lambda>r. bindE (p r) (\<lambda>(x, r). q x r))"
proof (rule wire_parserI)
  fix r assume ok: "reader_ok r"
  show "case bindE (p r) (\<lambda>(x, r). q x r) of Inl e \<Rightarrow> \<not> is_panic e
     | Inr (x, r') \<Rightarrow> reader_ok r' \<and> r_buf r' = r_buf r \<and> r_off r \<le> r_off r'"
  proof (cases "p r")
    case (Inl e)
    with wire_parserD [OF assms(1) ok] show ?thesis by simp
  next
    case (Inr y)
    obtain x s where y: "y = (x, s)" by (cases y)
    with Inr wire_parserD [OF assms(1) ok]
    have s: "reader_ok s" "r_buf s = r_buf r" "r_off r \<le> r_off s" by auto
    from wire_parserD [OF assms(2) [of x] s(1)] s show ?thesis
      by (auto simp: Inr y split: sum.splits)
  qed
qed

lemma wire_parser_if [parser_safe]:
  "wire_parser p \<Longrightarrow> wire_parser q \<Longrightarrow> wire_parser (\<lambda>r. if c r then p r else q r)"
  by (rule wire_parserI) (auto dest: wire_parserD)

lemma wire_parser_wrap [parser_safe]:
  assumes "wire_parser p"
  shows "wire_parser (\<lambda>r. wrapE f (a r) (p r))"
proof (rule wire_parserI)
  fix r assume "reader_ok r"
  from wire_parserD [OF assms this]
  show "case wrapE f (a r) (p r) of Inl e \<Rightarrow> \<not> is_panic e
     | Inr (x, r') \<Rightarrow> reader_ok r' \<and> r_buf r' = r_buf r \<and> r_off r \<le> r_off r'"
    by (cases "p r") auto
qed

interpretation Reader_Bytes: wire_parser "\<lambda>r. Reader_Bytes r n" for n
  by (rule wire_parserI) (auto simp: Reader_Bytes_def Reader_take_eq)

interpretation Reader_Byte: wire_parser Reader_Byte
  by (rule wire_parserI) (auto simp: Reader_Byte_eq Suc_leI)

interpretation Int16: wire_parser Int16
  by (rule wire_parserI) (auto simp: Int16_eq)

interpretation Int32: wire_parser Int32
  by (rule wire_parserI) (auto simp: Int32_eq)

interpretation Int64: wire_parser Int64
  by (rule wire_parserI) (auto simp: Int64_eq)

interpretation Reader_String: wire_parser Reader_String
  by (rule wire_parserI) (auto simp: Reader_String_eq Let_def)

lemmas reader_parsers [parser_safe] =
  Reader_Bytes.wire_parser_axioms Reader_Byte.wire_parser_axioms Int16.wire_parser_axioms
  Int32.wire_parser_axioms Int64.wire_parser_axioms Reader_String.wire_parser_axioms

end
