(* ===== verification/Wire_Parser.thy ===== *)
theory Wire_Parser
  imports Wire_Binary
begin

section \<open>Counted loops and parsing of encoded values\<close>

text \<open>
  The parsing library shared by the response parsers: the loop \<open>parse_loop\<close> that reads a counted
  sequence (the \<^verbatim>\<open>for i := 0; i < int(n); i++\<close> of the sources), the contract \<open>counted_parser\<close> of a
  loop body that consumes a least number of bytes, and the relation \<open>parses p bs x\<close>: parser \<open>p\<close>,
  in front of the bytes \<open>bs\<close>, reads exactly them and yields \<open>x\<close>.
\<close>

subsection \<open>Loops\<close>

fun parse_loop :: "(nat \<Rightarrow> 'a parser) \<Rightarrow> nat \<Rightarrow> nat \<Rightarrow> 'a list parser" where
  "parse_loop p i 0 r = Inr ([], r)"
| "parse_loop p i (Suc n) r =
     bindE (p i r) (\<lambda>(x, r). bindE (parse_loop p (Suc i) n r) (\<lambda>(xs, r). Inr (x # xs, r)))"

lemma wire_parser_loop [parser_safe]:
  "(\<And>i. wire_parser (p i)) \<Longrightarrow> wire_parser (\<lambda>r. parse_loop p i n r)"
proof (induction n arbitrary: i)
  case 0
  show ?case by (simp add: wire_parser_return)
next
  case (Suc n)
  then show ?case
    unfolding parse_loop.simps by (intro wire_parser_bind wire_parser_return) auto
qed

lemma parse_loop_length: "parse_loop p i n r = Inr (xs, r') \<Longrightarrow> length xs = n"
  by (induction n arbitrary: i r r' xs) (auto simp: bindE_Inr_iff)

text \<open>
  The body of a counted loop consumes at least \<open>k\<close> bytes. Then a count \<open>n\<close> with \<open>n * k\<close> above the
  bytes at hand can never be parsed, so the allocation guard \<^verbatim>\<open>int64(n)*k > int64(r.Remaining())\<close>
  of the sources rejects no well-formed response.
\<close>

locale counted_parser =
  fixes p :: "nat \<Rightarrow> reader \<Rightarrow> error + 'a \<times> reader" and k :: nat
  assumes body_parser: "wire_parser (p i)"
    and consumes: "reader_ok r \<Longrightarrow> p i r = Inr (x, r') \<Longrightarrow> r_off r + k \<le> r_off r'"
begin

lemma loop_parser: "wire_parser (\<lambda>r. parse_loop p i n r)"
  by (rule wire_parser_loop) (rule body_parser)

lemma loop_consumes:
  "reader_ok r \<Longrightarrow> parse_loop p i n r = Inr (xs, r') \<Longrightarrow> r_off r + n * k \<le> r_off r'"
proof (induction n arbitrary: i r xs)
  case 0
  then show ?case by simp
next
  case (Suc n)
  from Suc.prems(2) obtain x s ys where s: "p i r = Inr (x, s)"
    and ys: "parse_loop p (Suc i) n s = Inr (ys, r')"
    by (auto simp: bindE_Inr_iff)
  from s Suc.prems(1) have ok: "reader_ok s"
    using wire_parser.keeps_ok [OF body_parser] by blast
  have "r_off r + k \<le> r_off s" using consumes [OF Suc.prems(1) s] .
  moreover have "r_off s + n * k \<le> r_off r'" using Suc.IH [OF ok ys] .
  ultimately show ?case by simp
qed

theorem guard_complete:
  assumes "reader_ok r" and "parse_loop p i n r = Inr (xs, r')"
  shows "int n * int k \<le> Remaining r"
proof -
  have "r_off r + n * k \<le> r_off r'" by (rule loop_consumes [OF assms])
  moreover have "r_off r' \<le> length (r_buf r)"
    using wire_parser.stays_in_payload [OF loop_parser assms] .
  ultimately have "n * k \<le> length (r_buf r) - r_off r" by simp
  then have "int (n * k) \<le> int (length (r_buf r) - r_off r)" by (rule zle_int [THEN iffD2])
  with assms(1) show ?thesis by (simp add: Remaining_def reader_ok_def of_nat_diff)
qed

end

text \<open>Least consumption composes along a sequence of reads.\<close>

definition consumes_at_least :: "'a parser \<Rightarrow> nat \<Rightarrow> bool" where
  "consumes_at_least p k \<longleftrightarrow>
     (\<forall>r x r'. reader_ok r \<longrightarrow> p r = Inr (x, r') \<longrightarrow> reader_ok r' \<and> r_off r + k \<le> r_off r')"

lemma consumesI:
  "(\<And>r x r'. reader_ok r \<Longrightarrow> p r = Inr (x, r') \<Longrightarrow> reader_ok r' \<and> r_off r + k \<le> r_off r') \<Longrightarrow>
   consumes_at_least p k"
  by (auto simp only: consumes_at_least_def)

lemma consumesD:
  "consumes_at_least p k \<Longrightarrow> reader_ok r \<Longrightarrow> p r = Inr (x, r') \<Longrightarrow> reader_ok r' \<and> r_off r + k \<le> r_off r'"
  by (simp only: consumes_at_least_def)

lemma counted_parserI:
  assumes "\<And>i. wire_parser (p i)" and "\<And>i. consumes_at_least (p i) k"
  shows "counted_parser p k"
proof (rule counted_parser.intro)
  show "wire_parser (p i)" for i by (rule assms(1))
  fix i r x r'
  assume ok: "reader_ok r" and eq: "p i r = Inr (x, r')"
  show "r_off r + k \<le> r_off r'" using consumesD [OF assms(2) ok eq] by simp
qed

lemma consumes_bind:
  assumes "consumes_at_least p k" and "\<And>x. consumes_at_least (q x) m" and "n \<le> k + m"
  shows "consumes_at_least (\<lambda>r. bindE (p r) (\<lambda>(x, r). q x r)) n"
proof (rule consumesI)
  fix r y r'
  assume ok: "reader_ok r" and eq: "bindE (p r) (\<lambda>(x, r). q x r) = Inr (y, r')"
  from eq obtain x s where p: "p r = Inr (x, s)" and q: "q x s = Inr (y, r')"
    by (auto simp: bindE_Inr_iff)
  from consumesD [OF assms(1) ok p] have s: "reader_ok s" "r_off r + k \<le> r_off s" by simp_all
  from consumesD [OF assms(2) s(1) q] s(2) assms(3)
  show "reader_ok r' \<and> r_off r + n \<le> r_off r'" by simp
qed

lemma consumes_return: "consumes_at_least (\<lambda>r. Inr (f r, r)) 0"
  by (rule consumesI) simp

lemma consumes_fail: "consumes_at_least (\<lambda>r. Inl (e r)) k"
  by (rule consumesI) simp

lemma consumes_if:
  assumes "consumes_at_least p k" and "consumes_at_least q k"
  shows "consumes_at_least (\<lambda>r. if c r then p r else q r) k"
proof (rule consumesI)
  fix r x r'
  assume ok: "reader_ok r" and eq: "(if c r then p r else q r) = Inr (x, r')"
  then have "p r = Inr (x, r') \<or> q r = Inr (x, r')" by (metis (full_types))
  then show "reader_ok r' \<and> r_off r + k \<le> r_off r'"
    using consumesD [OF assms(1) ok] consumesD [OF assms(2) ok] by blast
qed

lemma consumes_mono: "consumes_at_least p k \<Longrightarrow> m \<le> k \<Longrightarrow> consumes_at_least p m"
  by (rule consumesI) (meson consumesD add_left_mono le_trans)

lemma consumes_wire: "wire_parser p \<Longrightarrow> consumes_at_least p 0"
  by (rule consumesI) (simp add: wire_parser.keeps_ok wire_parser.monotone)

lemma consumes_wrap: "consumes_at_least p k \<Longrightarrow> consumes_at_least (\<lambda>r. wrapE f (a r) (p r)) k"
  by (rule consumesI) (simp only: wrapE_Inr_iff consumesD)

lemma consumes_Byte: "consumes_at_least Reader_Byte 1"
  by (rule consumesI) (auto simp: Reader_Byte_eq Suc_leI split: if_splits)

lemma consumes_Int16: "consumes_at_least Int16 2"
  by (rule consumesI) (auto simp: Int16_eq split: if_splits)

lemma consumes_Int32: "consumes_at_least Int32 4"
  by (rule consumesI) (auto simp: Int32_eq split: if_splits)

lemma consumes_String: "consumes_at_least Reader_String 4"
  by (rule consumesI) (auto simp: Reader_String_eq Let_def split: if_splits)

text \<open>One read followed by the rest, as introduction rules that count down the bytes still owed.\<close>

lemma consumes_then:
  assumes "consumes_at_least p k" and "\<And>x. consumes_at_least (q x) (n - k)"
  shows "consumes_at_least (\<lambda>r. bindE (p r) (\<lambda>(x, r). q x r)) n"
  by (rule consumes_bind [OF assms]) simp

lemmas consumes_reads =
  consumes_then [OF consumes_Byte] consumes_then [OF consumes_Int16] consumes_then [OF consumes_Int32]
  consumes_then [OF consumes_String]

lemma consumes_done: "n = 0 \<Longrightarrow> consumes_at_least (\<lambda>r. Inr (f r, r)) n"
  by (simp add: consumes_return)

lemma consumes_skip:
  assumes "wire_parser p" and "\<And>x. consumes_at_least (q x) n"
  shows "consumes_at_least (\<lambda>r. bindE (p r) (\<lambda>(x, r). q x r)) n"
  by (rule consumes_bind [OF consumes_wire [OF assms(1)] assms(2)]) simp

subsection \<open>Parsing what was encoded\<close>

definition parses :: "'a parser \<Rightarrow> bytes \<Rightarrow> 'a \<Rightarrow> bool" where
  "parses p bs x \<longleftrightarrow>
     (\<forall>r tail. reader_ok r \<longrightarrow> rem_bytes r = bs @ tail \<longrightarrow> p r = Inr (x, advance (length bs) r))"

lemma parsesD:
  "parses p bs x \<Longrightarrow> reader_ok r \<Longrightarrow> rem_bytes r = bs @ tail \<Longrightarrow> p r = Inr (x, advance (length bs) r)"
  by (simp add: parses_def)

lemma parses_payload:
  "parses p bs x \<Longrightarrow> p (NewReader (bs @ tail)) = Inr (x, advance (length bs) (NewReader (bs @ tail)))"
  by (rule parsesD) simp_all

lemma parses_return [parse_intros]: "parses (\<lambda>r. Inr (x, r)) [] x"
  by (simp add: parses_def)

lemma parses_bind [parse_intros]:
  assumes "parses p b1 x" and "parses (q x) b2 y"
  shows "parses (\<lambda>r. bindE (p r) (\<lambda>(x, r). q x r)) (b1 @ b2) y"
  unfolding parses_def
proof (intro allI impI)
  fix r tail
  assume ok: "reader_ok r" and rem: "rem_bytes r = (b1 @ b2) @ tail"
  have p: "p r = Inr (x, advance (length b1) r)"
    using parsesD [OF assms(1) ok] rem by simp
  have "q x (advance (length b1) r) = Inr (y, advance (length b2) (advance (length b1) r))"
    using ok rem by (intro parsesD [OF assms(2), of _ tail]) simp_all
  then show "bindE (p r) (\<lambda>(x, r). q x r) = Inr (y, advance (length (b1 @ b2)) r)"
    by (simp add: p)
qed

lemma parses_guard:
  assumes "\<And>r tail. reader_ok r \<Longrightarrow> rem_bytes r = bs @ tail \<Longrightarrow> \<not> c r" and "parses q bs x"
  shows "parses (\<lambda>r. if c r then p r else q r) bs x"
  using assms by (simp add: parses_def)

lemma parses_if_True: "c \<Longrightarrow> parses p bs x \<Longrightarrow> parses (\<lambda>r. if c then p r else q r) bs x"
  by simp

lemma parses_if_False: "\<not> c \<Longrightarrow> parses q bs x \<Longrightarrow> parses (\<lambda>r. if c then p r else q r) bs x"
  by simp

lemma parses_wrap: "parses p bs x \<Longrightarrow> parses (\<lambda>r. wrapE f (a r) (p r)) bs x"
  by (simp add: parses_def)

lemma parses_loop:
  assumes "length bss = length xs"
    and "\<And>j. j < length xs \<Longrightarrow> parses (p (i + j)) (bss ! j) (xs ! j)"
  shows "parses (\<lambda>r. parse_loop p i (length xs) r) (concat bss) xs"
  using assms
proof (induction bss xs arbitrary: i rule: list_induct2)
  case Nil
  show ?case by (simp add: parses_return)
next
  case (Cons b bs x xs)
  have body: "parses (p i) b x" using Cons.prems [of 0] by simp
  have rest: "parses (\<lambda>r. parse_loop p (Suc i) (length xs) r) (concat bs) xs"
    using Cons.prems [of "Suc _"] by (intro Cons.IH) simp
  have "parses (\<lambda>r. bindE (p i r) (\<lambda>(x, r). bindE (parse_loop p (Suc i) (length xs) r)
      (\<lambda>(xs, r). Inr (x # xs, r)))) (b @ concat bs @ []) (x # xs)"
    by (rule parses_bind [OF body parses_bind [OF rest parses_return]])
  then show ?case by simp
qed

lemma parses_Byte [parse_intros]: "parses Reader_Byte [b] b"
  by (simp add: parses_def Reader_Byte_eq)

lemma parses_Int16 [parse_intros]: "parses Int16 (put_u16 v) v"
  by (simp add: parses_def Int16_eq)

lemma parses_Int32 [parse_intros]: "parses Int32 (put_u32 v) v"
  by (simp add: parses_def Int32_eq)

lemma parses_Int64 [parse_intros]: "parses Int64 (put_u64 v) v"
  by (simp add: parses_def Int64_eq)

lemma parses_Bytes [parse_intros]: "n = int (length b) \<Longrightarrow> parses (\<lambda>r. Reader_Bytes r n) b b"
  by (simp add: parses_def Reader_Bytes_def Reader_take_eq)

text \<open>A response string is \<^verbatim>\<open>[int32 length with NUL][bytes][NUL]\<close>.\<close>

definition put_string :: "string \<Rightarrow> bytes" where
  "put_string s = put_u32 (of_nat (length s + 1)) @ string_bytes s @ [0]"

lemma parses_String:
  assumes "length s < 2147483647"
  shows "parses Reader_String (put_string s) s"
  unfolding parses_def
proof (intro allI impI)
  fix r tail
  assume ok: "reader_ok r" and rem: "rem_bytes r = put_string s @ tail"
  have "of_nat (length s + 1) = (1 + of_nat (length s) :: int32)" by simp
  have n: "sint (of_nat (length s + 1) :: int32) = int (length s) + 1"
    using assms by (subst sint32_of_nat) simp_all
  show "Reader_String r = Inr (s, advance (length (put_string s)) r)"
    using ok rem n
    by (simp add: Reader_String_eq put_string_def Let_def nat_add_distrib del: of_nat_add of_nat_Suc)
qed

end
