(* ===== verification/Wire_Status.thy ===== *)
theory Wire_Status
  imports Wire_Parser
begin

section \<open>Status codes (protocol/errors.go) and NUL trimming\<close>

text \<open>
  \<^verbatim>\<open>ReadStatus\<close> consumes the leading result code of a response and turns a negative one into a
  server error. \<^verbatim>\<open>trimNul\<close> (declared in codec.go) is here because the status message uses it.
\<close>

subsection \<open>trimNul\<close>

function trimNul :: "bytes \<Rightarrow> bytes" where
  "trimNul b = (if b \<noteq> [] \<and> last b = 0 then trimNul (butlast b) else b)"
  by pat_completeness auto
termination
  by (relation "measure length") auto

declare trimNul.simps [simp del]

lemma trimNul_Nil [simp]: "trimNul [] = []"
  by (simp add: trimNul.simps)

lemma trimNul_snoc: "trimNul (b @ [x]) = (if x = 0 then trimNul b else b @ [x])"
  by (subst trimNul.simps) simp

text \<open>The loop drops the maximal run of NULs at the end.\<close>

lemma trimNul_eq: "trimNul b = rev (dropWhile (\<lambda>x. x = 0) (rev b))"
  by (induction b rule: rev_induct) (simp_all add: trimNul_snoc)

lemma trimNul_append_nuls [simp]: "trimNul (b @ replicate n 0) = trimNul b"
proof -
  have "dropWhile (\<lambda>x. x = 0) (replicate n 0 @ c) = dropWhile (\<lambda>x. x = 0) c" for c :: bytes
    by (rule dropWhile_append2) simp
  then show ?thesis by (simp add: trimNul_eq)
qed

lemma trimNul_id: "b = [] \<or> last b \<noteq> 0 \<Longrightarrow> trimNul b = b"
  by (subst trimNul.simps) auto

lemma trimNul_idem [simp]: "trimNul (trimNul b) = trimNul b"
  by (induction b rule: rev_induct) (simp_all add: trimNul_snoc)

lemma length_trimNul: "length (trimNul b) \<le> length b"
  by (induction b rule: rev_induct) (simp_all add: trimNul_snoc)

subsection \<open>ReadStatus\<close>

definition ReadStatus :: "reader \<Rightarrow> error + int32 \<times> reader" where
  "ReadStatus r =
     bindE (Int32 r) (\<lambda>(rc, r).
       if sint rc \<ge> 0 then Inr (rc, r)
       else let (code, msg) =
         (if Remaining r \<ge> 4 then
            let (code, r) = (case Int32 r of
                  Inr (c, r') \<Rightarrow> (if sint c < 0 then c else rc, r')
                | Inl _ \<Rightarrow> (rc, r));
                msg = (case Reader_Bytes r (Remaining r) of
                  Inr (rest, _) \<Rightarrow> bytes_string (trimNul rest)
                | Inl _ \<Rightarrow> [])
            in (code, msg)
          else (rc, []))
         in Inl (ServerError code msg))"

text \<open>The whole behaviour in terms of the bytes at hand.\<close>

lemma ReadStatus_eq:
  assumes "reader_ok r"
  shows "ReadStatus r =
    (let b = rem_bytes r; rc = get_u32 (take 4 b); c = get_u32 (take 4 (drop 4 b)) in
     if length b < 4 then Inl ErrShortBuffer
     else if sint rc \<ge> 0 then Inr (rc, advance 4 r)
     else if length b < 8 then Inl (ServerError rc [])
     else Inl (ServerError (if sint c < 0 then c else rc) (bytes_string (trimNul (drop 8 b)))))"
proof (cases "8 \<le> length (rem_bytes r)")
  case True
  with assms have ok: "reader_ok (advance 4 r)" "reader_ok (advance 8 r)"
    and l: "\<not> length (rem_bytes r) - 4 < 4" "\<not> length (rem_bytes r) < 8" by simp_all
  from True ok l assms show ?thesis
    by (simp add: ReadStatus_def Int32_eq Remaining_eq Reader_Bytes_def Reader_take_eq Let_def)
next
  case False
  with assms show ?thesis
    by (auto simp: ReadStatus_def Int32_eq Remaining_eq Let_def)
qed

interpretation ReadStatus: wire_parser ReadStatus
  by (rule wire_parserI) (auto simp: ReadStatus_eq Let_def)

lemmas [parser_safe] = ReadStatus.wire_parser_axioms

lemma parses_ReadStatus [parse_intros]: "0 \<le> sint rc \<Longrightarrow> parses ReadStatus (put_u32 rc) rc"
  by (simp add: parses_def ReadStatus_eq Let_def)

lemma consumes_ReadStatus: "consumes_at_least ReadStatus 4"
  by (rule consumesI) (auto simp: ReadStatus_eq Let_def split: if_splits)

text \<open>The renewed-error-code response: indicator, code, raw NUL-terminated message.\<close>

lemma ReadStatus_renewed:
  assumes "sint ind < 0" and "sint code < 0" and "s = [] \<or> last (string_bytes s) \<noteq> 0"
  shows "ReadStatus (NewReader (put_u32 ind @ put_u32 code @ string_bytes s @ replicate n 0)) =
    Inl (ServerError code s)"
  using assms trimNul_id [of "string_bytes s"]
  by (auto simp: ReadStatus_eq Let_def)

end
