(* ===== verification/Go_Time.thy ===== *)
theory Go_Time
  imports Go_Prelude
begin

section \<open>Calendar time (the part of Go's package time the driver uses)\<close>

text \<open>
  \<^verbatim>\<open>time.Date\<close> normalises out-of-range fields and builds a time from wall-clock fields in a
  location; \<^verbatim>\<open>Year\<close>, \<^verbatim>\<open>Month\<close>, \ldots read them back. A time is represented by its wall clock
  (see \<open>time\<close> in the prelude), in the proleptic Gregorian calendar that Go uses. The
  instant behind a wall clock in a zone with transitions is not represented: the driver never
  compares or subtracts times.
\<close>

definition leap_year :: "int \<Rightarrow> bool" where
  "leap_year y \<longleftrightarrow> y mod 4 = 0 \<and> (y mod 100 \<noteq> 0 \<or> y mod 400 = 0)"

text \<open>Days from 0001-01-01 to the first day of year \<open>y\<close>.\<close>

definition days_before_year :: "int \<Rightarrow> int" where
  "days_before_year y = (let k = y - 1 in 365 * k + k div 4 - k div 100 + k div 400)"

definition days_before_month :: "bool \<Rightarrow> int \<Rightarrow> int" where
  "days_before_month leap m =
     (if m \<le> 1 then 0 else if m = 2 then 31
      else (if leap then 1 else 0) +
        (if m = 3 then 59 else if m = 4 then 90 else if m = 5 then 120 else if m = 6 then 151
         else if m = 7 then 181 else if m = 8 then 212 else if m = 9 then 243 else if m = 10 then 273
         else if m = 11 then 304 else 334))"

definition epoch_days :: int where
  "epoch_days = 719162"

definition time_Date :: "int \<Rightarrow> int \<Rightarrow> int \<Rightarrow> int \<Rightarrow> int \<Rightarrow> int \<Rightarrow> int \<Rightarrow> location \<Rightarrow> time" where
  "time_Date year month day hour minute second nsec loc =
     (let y = year + (month - 1) div 12;
          m = (month - 1) mod 12 + 1;
          d = days_before_year y + days_before_month (leap_year y) m + (day - 1) - epoch_days
      in \<lparr>wall_sec = d * 86400 + hour * 3600 + minute * 60 + second + nsec div 1000000000,
          wall_nsec = nsec mod 1000000000, time_loc = loc\<rparr>)"

text \<open>Year and day of the year of a day number counted from 0001-01-01.\<close>

definition year_yday :: "int \<Rightarrow> int \<times> int" where
  "year_yday n =
     (let a = n div 146097; r = n mod 146097;
          b = min (r div 36524) 3; r = r - b * 36524;
          c = r div 1461; r = r mod 1461;
          d = min (r div 365) 3
      in (400 * a + 100 * b + 4 * c + d + 1, r - d * 365))"

definition month_of_yday :: "bool \<Rightarrow> int \<Rightarrow> int" where
  "month_of_yday leap yd =
     (let dbm = days_before_month leap in
      if yd < dbm 2 then 1 else if yd < dbm 3 then 2 else if yd < dbm 4 then 3
      else if yd < dbm 5 then 4 else if yd < dbm 6 then 5 else if yd < dbm 7 then 6
      else if yd < dbm 8 then 7 else if yd < dbm 9 then 8 else if yd < dbm 10 then 9
      else if yd < dbm 11 then 10 else if yd < dbm 12 then 11 else 12)"

definition time_days :: "time \<Rightarrow> int" where
  "time_days t = wall_sec t div 86400 + epoch_days"

definition Year :: "time \<Rightarrow> int" where
  "Year t = fst (year_yday (time_days t))"

definition Month :: "time \<Rightarrow> int" where
  "Month t = month_of_yday (leap_year (Year t)) (snd (year_yday (time_days t)))"

definition Day :: "time \<Rightarrow> int" where
  "Day t = snd (year_yday (time_days t)) - days_before_month (leap_year (Year t)) (Month t) + 1"

definition Hour :: "time \<Rightarrow> int" where
  "Hour t = wall_sec t mod 86400 div 3600"

definition Minute :: "time \<Rightarrow> int" where
  "Minute t = wall_sec t mod 3600 div 60"

definition Second :: "time \<Rightarrow> int" where
  "Second t = wall_sec t mod 60"

definition Nanosecond :: "time \<Rightarrow> int" where
  "Nanosecond t = wall_nsec t"

subsection \<open>Reading back what was built\<close>

lemma days_before_year_digits:
  assumes "0 \<le> b" "b \<le> 3" "0 \<le> c" "c \<le> 24" "0 \<le> d" "d \<le> 3"
  shows "days_before_year (400 * a + 100 * b + 4 * c + d + 1) = 146097 * a + 36524 * b + 1461 * c + 365 * d"
proof -
  have "(400 * a + 100 * b + 4 * c + d) div 4 = 100 * a + 25 * b + c" using assms by linarith
  moreover have "(400 * a + 100 * b + 4 * c + d) div 100 = 4 * a + b" using assms by linarith
  moreover have "(400 * a + 100 * b + 4 * c + d) div 400 = a" using assms by linarith
  ultimately show ?thesis by (simp add: days_before_year_def Let_def)
qed

text \<open>The digits of a day number in the mixed radix of the calendar.\<close>

lemma year_yday_digits:
  obtains a b c d r where
    "year_yday n = (400 * a + 100 * b + 4 * c + d + 1, r)"
    "n = 146097 * a + 36524 * b + 1461 * c + 365 * d + r"
    "0 \<le> b" "b \<le> 3" "0 \<le> c" "c \<le> 24" "0 \<le> d" "d \<le> 3" "0 \<le> r"
    "r < 365 \<or> r = 365 \<and> d = 3 \<and> (c < 24 \<or> b = 3)"
proof
  define a where "a = n div 146097"
  define r1 where "r1 = n mod 146097"
  define b where "b = min (r1 div 36524) 3"
  define r2 where "r2 = r1 - b * 36524"
  define c where "c = r2 div 1461"
  define r3 where "r3 = r2 mod 1461"
  define d where "d = min (r3 div 365) 3"
  have r1: "0 \<le> r1" "r1 < 146097" "n = 146097 * a + r1" by (simp_all add: r1_def a_def)
  have b: "0 \<le> b" "b \<le> 3" "0 \<le> r2" "r2 \<le> 36524" "b < 3 \<Longrightarrow> r2 < 36524"
    using r1(1,2) unfolding r2_def b_def by (auto simp: min_def)
  have c: "0 \<le> c" "c \<le> 24" "0 \<le> r3" "r3 < 1461" "r2 = 1461 * c + r3"
    using b(3,4) unfolding c_def r3_def by auto
  have d: "0 \<le> d" "d \<le> 3" "0 \<le> r3 - d * 365" "r3 - d * 365 \<le> 365" "d < 3 \<Longrightarrow> r3 - d * 365 < 365"
    using c(3,4) unfolding d_def by (auto simp: min_def)
  show "year_yday n = (400 * a + 100 * b + 4 * c + d + 1, r3 - d * 365)"
    by (simp add: year_yday_def Let_def a_def r1_def b_def r2_def c_def r3_def d_def)
  show "n = 146097 * a + 36524 * b + 1461 * c + 365 * d + (r3 - d * 365)"
    using r1(3) c(5) by (simp add: r2_def algebra_simps)
  show "0 \<le> b" "b \<le> 3" "0 \<le> c" "c \<le> 24" "0 \<le> d" "d \<le> 3" "0 \<le> r3 - d * 365"
    using b c d by simp_all
  show "r3 - d * 365 < 365 \<or> r3 - d * 365 = 365 \<and> d = 3 \<and> (c < 24 \<or> b = 3)"
    using b c d by linarith
qed

lemma leap_year_digits:
  assumes "0 \<le> b" "b \<le> 3" "0 \<le> c" "c < 24 \<or> c = 24 \<and> b = 3"
  shows "leap_year (400 * a + 100 * b + 4 * c + 3 + 1)"
proof (cases "c < 24")
  case True
  let ?y = "400 * a + 100 * b + 4 * c + 3 + 1"
  have "?y = 4 * (100 * a + 25 * b + c + 1)" by simp
  then have "?y mod 4 = 0" by (metis mod_mult_self1_is_0)
  moreover have "?y = (4 * c + 4) + 100 * (4 * a + b)" by simp
  then have "?y mod 100 = (4 * c + 4) mod 100" by (metis mod_mult_self2)
  then have "?y mod 100 \<noteq> 0" using True assms(3) by simp
  ultimately show ?thesis by (simp add: leap_year_def)
next
  case False
  with assms have "400 * a + 100 * b + 4 * c + 3 + 1 = 400 * (a + 1)" by simp
  moreover have "leap_year (400 * (a + 1))" by (simp add: leap_year_def)
  ultimately show ?thesis by metis
qed

lemma year_yday:
  assumes "year_yday n = (y, r)"
  shows "days_before_year y + r = n" and "0 \<le> r" and "r < 365 \<or> r = 365 \<and> leap_year y"
proof -
  obtain a b c d r' where
    yd: "year_yday n = (400 * a + 100 * b + 4 * c + d + 1, r')"
    and n: "n = 146097 * a + 36524 * b + 1461 * c + 365 * d + r'"
    and b: "0 \<le> b" "b \<le> 3" and c: "0 \<le> c" "c \<le> 24" and d: "0 \<le> d" "d \<le> 3" and r0: "0 \<le> r'"
    and r: "r' < 365 \<or> r' = 365 \<and> d = 3 \<and> (c < 24 \<or> b = 3)"
    by (rule year_yday_digits [of n])
  from assms yd have y: "y = 400 * a + 100 * b + 4 * c + d + 1" and rr: "r = r'" by simp_all
  show "days_before_year y + r = n"
    using days_before_year_digits [OF b c d] by (simp add: y rr n)
  show "0 \<le> r" using r0 by (simp add: rr)
  show "r < 365 \<or> r = 365 \<and> leap_year y"
  proof (cases "r' < 365")
    case False
    with r c(2) have "d = 3" and "c < 24 \<or> c = 24 \<and> b = 3" and "r' = 365" by auto
    then show ?thesis using leap_year_digits [OF b c(1), of a] by (simp add: y rr)
  qed (simp add: rr)
qed

text \<open>The table of month lengths, as values; the definition itself is not unfolded below.\<close>

lemma days_before_month_table [simp]:
  "days_before_month l 1 = 0" "days_before_month l 2 = 31"
  "days_before_month l 3 = (if l then 60 else 59)" "days_before_month l 4 = (if l then 91 else 90)"
  "days_before_month l 5 = (if l then 121 else 120)" "days_before_month l 6 = (if l then 152 else 151)"
  "days_before_month l 7 = (if l then 182 else 181)" "days_before_month l 8 = (if l then 213 else 212)"
  "days_before_month l 9 = (if l then 244 else 243)" "days_before_month l 10 = (if l then 274 else 273)"
  "days_before_month l 11 = (if l then 305 else 304)" "days_before_month l 12 = (if l then 335 else 334)"
  by (simp_all add: days_before_month_def)

lemma month_of_yday_range: "1 \<le> month_of_yday leap yd \<and> month_of_yday leap yd \<le> 12"
  by (simp add: month_of_yday_def Let_def)

lemma days_before_month_of_yday:
  "0 \<le> yd \<Longrightarrow> days_before_month leap (month_of_yday leap yd) \<le> yd"
  by (cases leap) (simp_all add: month_of_yday_def Let_def)

lemma yday_within_month:
  assumes "yd < 365 \<or> yd = 365 \<and> leap"
  shows "yd - days_before_month leap (month_of_yday leap yd) \<le> 30"
proof -
  from assms have "yd \<le> 365" and "leap \<or> yd < 365" by auto
  then show ?thesis by (cases leap) (simp_all add: month_of_yday_def Let_def)
qed

lemma clock_sum: "Hour t * 3600 + Minute t * 60 + Second t = wall_sec t mod 86400"
proof -
  let ?s = "wall_sec t mod 86400"
  have h: "wall_sec t mod 3600 = ?s mod 3600" and m: "wall_sec t mod 60 = wall_sec t mod 3600 mod 60"
    by (simp_all add: mod_mod_cancel)
  have "?s = ?s div 3600 * 3600 + ?s mod 3600" by simp
  moreover have "wall_sec t mod 3600 = wall_sec t mod 3600 div 60 * 60 + wall_sec t mod 3600 mod 60" by simp
  ultimately show ?thesis unfolding Hour_def Minute_def Second_def h m by linarith
qed

lemma time_Date_fields:
  assumes "0 \<le> wall_nsec t" and "wall_nsec t < 1000000000"
  shows "time_Date (Year t) (Month t) (Day t) (Hour t) (Minute t) (Second t) (Nanosecond t) loc =
    t\<lparr>time_loc := loc\<rparr>"
proof -
  obtain y r where yr: "year_yday (time_days t) = (y, r)" by (cases "year_yday (time_days t)")
  have Y: "Year t = y" by (simp add: Year_def yr)
  have M: "1 \<le> Month t" "Month t \<le> 12" using month_of_yday_range by (simp_all add: Month_def)
  then have m: "(Month t - 1) div 12 = 0" "(Month t - 1) mod 12 + 1 = Month t" by simp_all
  have D: "days_before_month (leap_year y) (Month t) + (Day t - 1) = r"
    by (simp add: Day_def yr Y)
  have "days_before_year y + r = wall_sec t div 86400 + epoch_days"
    using year_yday(1) [OF yr] by (simp add: time_days_def)
  then have days: "days_before_year y + days_before_month (leap_year y) (Month t) + (Day t - 1) -
      epoch_days = wall_sec t div 86400"
    using D by linarith
  have hms: "Hour t * 3600 + Minute t * 60 + Second t = wall_sec t mod 86400"
    by (rule clock_sum)
  have "wall_sec t div 86400 * 86400 + Hour t * 3600 + Minute t * 60 + Second t = wall_sec t"
    using hms div_mult_mod_eq [of "wall_sec t" 86400] by linarith
  then show ?thesis
    unfolding time_Date_def Let_def Y m add.right_neutral days Nanosecond_def
    using assms by simp
qed

text \<open>Bounds of the fields.\<close>

lemma Day_range: "1 \<le> Day t \<and> Day t \<le> 31"
proof -
  obtain y r where yr: "year_yday (time_days t) = (y, r)" by (cases "year_yday (time_days t)")
  have r: "0 \<le> r" "r < 365 \<or> r = 365 \<and> leap_year y" using year_yday [OF yr] by simp_all
  then show ?thesis
    using days_before_month_of_yday [of r "leap_year y"] yday_within_month [of r "leap_year y"]
    by (simp add: Day_def Month_def Year_def yr)
qed

lemma clock_range:
  "0 \<le> Hour t \<and> Hour t \<le> 23" "0 \<le> Minute t \<and> Minute t \<le> 59" "0 \<le> Second t \<and> Second t \<le> 59"
proof -
  have "0 \<le> wall_sec t mod 86400" "wall_sec t mod 86400 < 86400" by simp_all
  then show "0 \<le> Hour t \<and> Hour t \<le> 23" unfolding Hour_def by linarith
  have "0 \<le> wall_sec t mod 3600" "wall_sec t mod 3600 < 3600" by simp_all
  then show "0 \<le> Minute t \<and> Minute t \<le> 59" unfolding Minute_def by linarith
  have "0 \<le> wall_sec t mod 60" "wall_sec t mod 60 < 60" by simp_all
  then show "0 \<le> Second t \<and> Second t \<le> 59" unfolding Second_def by linarith
qed

lemma Month_range: "1 \<le> Month t \<and> Month t \<le> 12"
  by (simp add: Month_def month_of_yday_range)

end
