(* ===== verification/Codec.thy ===== *)
theory Codec
  imports Wire_Status Go_Time
begin

section \<open>Value codec (protocol/types.go, codec.go)\<close>

text \<open>
  Decoding of column values by wire type, including the recursive collections with their nesting
  cap, and encoding of bind parameters. \<open>tz\<close> stands for \<^verbatim>\<open>time.LoadLocation\<close>: the host's time zone
  database, a parameter of the model.
\<close>

subsection \<open>Wire type codes\<close>

definition TypeNull :: byte where "TypeNull = 0"
definition TypeChar :: byte where "TypeChar = 1"
definition TypeVarchar :: byte where "TypeVarchar = 2"
definition TypeNchar :: byte where "TypeNchar = 3"
definition TypeVarNchar :: byte where "TypeVarNchar = 4"
definition TypeBit :: byte where "TypeBit = 5"
definition TypeVarbit :: byte where "TypeVarbit = 6"
definition TypeNumeric :: byte where "TypeNumeric = 7"
definition TypeInt :: byte where "TypeInt = 8"
definition TypeShort :: byte where "TypeShort = 9"
definition TypeMonetary :: byte where "TypeMonetary = 10"
definition TypeFloat :: byte where "TypeFloat = 11"
definition TypeDouble :: byte where "TypeDouble = 12"
definition TypeDate :: byte where "TypeDate = 13"
definition TypeTime :: byte where "TypeTime = 14"
definition TypeTimestamp :: byte where "TypeTimestamp = 15"
definition TypeSet :: byte where "TypeSet = 16"
definition TypeMultiset :: byte where "TypeMultiset = 17"
definition TypeSequence :: byte where "TypeSequence = 18"
definition TypeObject :: byte where "TypeObject = 19"
definition TypeResultset :: byte where "TypeResultset = 20"
definition TypeBigint :: byte where "TypeBigint = 21"
definition TypeDatetime :: byte where "TypeDatetime = 22"
definition TypeBlob :: byte where "TypeBlob = 23"
definition TypeClob :: byte where "TypeClob = 24"
definition TypeEnum :: byte where "TypeEnum = 25"
definition TypeUShort :: byte where "TypeUShort = 26"
definition TypeUInt :: byte where "TypeUInt = 27"
definition TypeUBigint :: byte where "TypeUBigint = 28"
definition TypeTimestampTZ :: byte where "TypeTimestampTZ = 29"
definition TypeTimestampLTZ :: byte where "TypeTimestampLTZ = 30"
definition TypeDatetimeTZ :: byte where "TypeDatetimeTZ = 31"
definition TypeDatetimeLTZ :: byte where "TypeDatetimeLTZ = 32"
definition TypeJSON :: byte where "TypeJSON = 34"

lemmas type_codes =
  TypeNull_def TypeChar_def TypeVarchar_def TypeNchar_def TypeVarNchar_def TypeBit_def 
  TypeVarbit_def TypeNumeric_def TypeInt_def TypeShort_def TypeMonetary_def TypeFloat_def 
  TypeDouble_def TypeDate_def TypeTime_def TypeTimestamp_def TypeSet_def TypeMultiset_def 
  TypeSequence_def TypeObject_def TypeResultset_def TypeBigint_def TypeDatetime_def 
  TypeBlob_def TypeClob_def TypeEnum_def TypeUShort_def TypeUInt_def TypeUBigint_def 
  TypeTimestampTZ_def TypeTimestampLTZ_def TypeDatetimeTZ_def TypeDatetimeLTZ_def TypeJSON_def

type_synonym tzdb = "string \<Rightarrow> location option"

subsection \<open>Dates and times\<close>

text \<open>The closure \<^verbatim>\<open>f\<close> of \<^verbatim>\<open>decodeDateTime\<close>: the \<open>i\<close>-th big-endian int16.\<close>

definition dt_field :: "bytes \<Rightarrow> int \<Rightarrow> error + int" where
  "dt_field b i =
     bindE (go_slice b (2 * i) (int (length b))) (\<lambda>s. bindE (BE_Uint16 s) (\<lambda>v. Inr (sint v)))"

definition decodeDateTime :: "byte \<Rightarrow> bytes \<Rightarrow> error + time" where
  "decodeDateTime typ b =
     (let want = (if typ = TypeDate \<or> typ = TypeTime then 6 else if typ = TypeTimestamp then 12 else 14);
          f = dt_field b
      in if length b < want then Inl ErrShortBuffer
         else if typ = TypeDate then
           bindE (f 0) (\<lambda>y. bindE (f 1) (\<lambda>mo. bindE (f 2) (\<lambda>d.
             Inr (time_Date y mo d 0 0 0 0 UTC))))
         else if typ = TypeTime then
           bindE (f 0) (\<lambda>h. bindE (f 1) (\<lambda>mi. bindE (f 2) (\<lambda>s.
             Inr (time_Date 1 1 1 h mi s 0 UTC))))
         else if typ = TypeTimestamp then
           bindE (f 0) (\<lambda>y. bindE (f 1) (\<lambda>mo. bindE (f 2) (\<lambda>d.
           bindE (f 3) (\<lambda>h. bindE (f 4) (\<lambda>mi. bindE (f 5) (\<lambda>s.
             Inr (time_Date y mo d h mi s 0 UTC)))))))
         else
           bindE (f 0) (\<lambda>y. bindE (f 1) (\<lambda>mo. bindE (f 2) (\<lambda>d.
           bindE (f 3) (\<lambda>h. bindE (f 4) (\<lambda>mi. bindE (f 5) (\<lambda>s. bindE (f 6) (\<lambda>ms.
             Inr (time_Date y mo d h mi s (ms * 1000000) UTC)))))))))"

text \<open>
  \<^verbatim>\<open>time.Parse("-07:00", s)\<close>: a sign, two hour digits, a colon and two minute digits. The location of
  the parsed time is UTC for an offset of zero and a fixed zone otherwise.
\<close>

definition is_digit :: "char \<Rightarrow> bool" where
  "is_digit c \<longleftrightarrow> of_char c \<ge> (48 :: nat) \<and> of_char c \<le> (57 :: nat)"

definition digit_val :: "char \<Rightarrow> int" where
  "digit_val c = int (of_char c) - 48"

fun parse_offset :: "string \<Rightarrow> int option" where
  "parse_offset [sg, h1, h2, col, m1, m2] =
     (let hr = digit_val h1 * 10 + digit_val h2; mm = digit_val m1 * 10 + digit_val m2;
          secs = hr * 3600 + mm * 60
      in if (sg = CHR ''+'' \<or> sg = CHR ''-'') \<and> col = CHR '':'' \<and> is_digit h1 \<and> is_digit h2 \<and>
            is_digit m1 \<and> is_digit m2 \<and> hr \<le> 24 \<and> mm \<le> 60
         then Some (if sg = CHR ''-'' then - secs else secs) else None)"
| "parse_offset _ = None"

definition lookupZone :: "tzdb \<Rightarrow> string \<Rightarrow> location" where
  "lookupZone tz zone =
     (let zone = takeWhile (\<lambda>c. c \<noteq> CHR '' '') zone in
      if zone = [] then UTC
      else case tz zone of
        Some loc \<Rightarrow> loc
      | None \<Rightarrow> (case parse_offset zone of
                    Some off \<Rightarrow> if off = 0 then UTC else FixedZone off
                  | None \<Rightarrow> UTC))"

definition decodeTZ :: "tzdb \<Rightarrow> byte \<Rightarrow> bytes \<Rightarrow> error + time" where
  "decodeTZ tz typ b =
     (let (n, base) = (if typ = TypeTimestampTZ \<or> typ = TypeTimestampLTZ then (12, TypeTimestamp)
                       else (14, TypeDatetime))
      in if length b < n then Inl ErrShortBuffer
         else bindE (go_slice b 0 (int n)) (\<lambda>head.
              bindE (decodeDateTime base head) (\<lambda>t.
              bindE (go_slice b (int n) (int (length b))) (\<lambda>rest.
                let zone = bytes_string (trimNul rest)
                in Inr (time_Date (Year t) (Month t) (Day t) (Hour t) (Minute t) (Second t)
                          (Nanosecond t) (lookupZone tz zone))))))"

subsection \<open>Values and collections\<close>

definition maxCollectionDepth :: nat where
  "maxCollectionDepth = 32"

text \<open>What a successful \<^verbatim>\<open>take\<close> leaves, for the termination of the recursive decoder.\<close>

lemma Reader_take_Inr:
  assumes "Reader_take r n = Inr (b, r')"
  shows "reader_ok r \<and> 0 \<le> n \<and> n \<le> int (length (rem_bytes r)) \<and>
    b = take (nat n) (rem_bytes r) \<and> r' = advance (nat n) r"
proof -
  from assms have "0 \<le> n" "int (r_off r) + n \<le> int (length (r_buf r))"
    by (auto simp: Reader_take_def split: if_splits)
  then have ok: "reader_ok r" by (simp add: reader_ok_def)
  with assms show ?thesis by (auto simp: Reader_take_eq split: if_splits)
qed

lemma Int32_Inr: "Int32 r = Inr (v, r') \<Longrightarrow> r' = advance 4 r \<and> 4 \<le> length (rem_bytes r) \<and> reader_ok r"
  by (auto simp: Int32_def bindE_Inr_iff dest!: Reader_take_Inr)

lemma Reader_Byte_Inr:
  "Reader_Byte r = Inr (v, r') \<Longrightarrow> r' = advance 1 r \<and> 1 \<le> length (rem_bytes r) \<and> reader_ok r"
  by (auto simp: Reader_Byte_def bindE_Inr_iff dest!: Reader_take_Inr)

function (sequential)
  decodeValue :: "tzdb \<Rightarrow> byte \<Rightarrow> bytes \<Rightarrow> nat \<Rightarrow> error + value" and
  decodeCollection :: "tzdb \<Rightarrow> bytes \<Rightarrow> nat \<Rightarrow> error + value list" and
  decodeElems :: "tzdb \<Rightarrow> byte \<Rightarrow> nat \<Rightarrow> nat \<Rightarrow> reader \<Rightarrow> error + value list"
where
  "decodeValue tz typ data depth =
     (if typ \<in> {TypeChar, TypeVarchar, TypeNchar, TypeVarNchar, TypeEnum, TypeNumeric}
        then Inr (VString (bytes_string (trimNul data)))
      else if typ = TypeJSON then Inr (VBytes (trimNul data))
      else if typ \<in> {TypeInt, TypeUInt} then
        (if length data < 4 then Inl ErrShortBuffer
         else bindE (BE_Uint32 data) (\<lambda>v. Inr (VInt32 v)))
      else if typ \<in> {TypeShort, TypeUShort} then
        (if length data < 2 then Inl ErrShortBuffer
         else bindE (BE_Uint16 data) (\<lambda>v. Inr (VInt16 v)))
      else if typ \<in> {TypeBigint, TypeUBigint} then
        (if length data < 8 then Inl ErrShortBuffer
         else bindE (BE_Uint64 data) (\<lambda>v. Inr (VInt64 v)))
      else if typ = TypeFloat then
        (if length data < 4 then Inl ErrShortBuffer
         else bindE (BE_Uint32 data) (\<lambda>v. Inr (VFloat32 v)))
      else if typ \<in> {TypeDouble, TypeMonetary} then
        (if length data < 8 then Inl ErrShortBuffer
         else bindE (BE_Uint64 data) (\<lambda>v. Inr (VFloat64 v)))
      else if typ \<in> {TypeBit, TypeVarbit} then Inr (VBytes data)
      else if typ \<in> {TypeDate, TypeTime, TypeTimestamp, TypeDatetime} then
        bindE (decodeDateTime typ data) (\<lambda>t. Inr (VTime t))
      else if typ \<in> {TypeTimestampTZ, TypeTimestampLTZ, TypeDatetimeTZ, TypeDatetimeLTZ} then
        bindE (decodeTZ tz typ data) (\<lambda>t. Inr (VTime t))
      else if typ \<in> {TypeSet, TypeMultiset, TypeSequence} then
        bindE (decodeCollection tz data depth) (\<lambda>vs. Inr (VSlice vs))
      else if typ = TypeResultset then
        Inl (Errorf ''cubrid/protocol: RESULTSET (server-side result set) values are not supported'' [])
      else Inl (Errorf ''cubrid/protocol: decoding type %d is not supported'' [EInt (uint typ)]))"
| "decodeCollection tz b depth =
     (if depth \<ge> maxCollectionDepth
      then Inl (Errorf ''cubrid/protocol: collection nested deeper than %d levels''
                  [EInt (int maxCollectionDepth)])
      else bindE (Reader_Byte (NewReader b)) (\<lambda>(et, r).
           bindE (Int32 r) (\<lambda>(n, r).
             if sint n < 0 \<or> sint n * 4 > Remaining r
             then Inl (Errorf ''cubrid/protocol: invalid collection element count %d (%d bytes remaining)''
                         [EInt (sint n), EInt (Remaining r)])
             else decodeElems tz et depth (nat (sint n)) r)))"
| "decodeElems tz et depth n r =
     (if n = 0 then Inr []
      else bindE (Int32 r) (\<lambda>(sz, r).
        if sint sz \<le> 0
        then bindE (decodeElems tz et depth (n - 1) r) (\<lambda>vs. Inr (VNil # vs))
        else bindE (Reader_Bytes r (sint sz)) (\<lambda>(eb, r).
             bindE (decodeValue tz et eb (depth + 1)) (\<lambda>v.
             bindE (decodeElems tz et depth (n - 1) r) (\<lambda>vs. Inr (v # vs))))))"
  by pat_completeness auto
termination
proof (relation "measures [
    \<lambda>s. case s of Inl (tz, typ, data, depth) \<Rightarrow> length data
      | Inr (Inl (tz, b, depth)) \<Rightarrow> length b
      | Inr (Inr (tz, et, depth, n, r)) \<Rightarrow> length (rem_bytes r),
    \<lambda>s. case s of Inl _ \<Rightarrow> 1 | Inr _ \<Rightarrow> 0]", goal_cases)
qed (auto simp: Reader_Bytes_def dest!: Int32_Inr Reader_Byte_Inr Reader_take_Inr)

declare decodeValue.simps [simp del] decodeCollection.simps [simp del] decodeElems.simps [simp del]

definition DecodeValue :: "tzdb \<Rightarrow> byte \<Rightarrow> bytes \<Rightarrow> error + value" where
  "DecodeValue tz typ data = decodeValue tz typ data 0"

definition DecodeSelfDescribedValue :: "tzdb \<Rightarrow> bytes \<Rightarrow> error + value" where
  "DecodeSelfDescribedValue tz data =
     (if length data = 0 then Inl ErrShortBuffer
      else bindE (go_index data 0) (\<lambda>typ.
           bindE (go_slice data 1 (int (length data))) (\<lambda>rest.
           bindE (if typ AND 0x80 \<noteq> 0 then
                    (if length data < 2 then Inl ErrShortBuffer
                     else bindE (go_index data 1) (\<lambda>d1.
                          bindE (go_slice data 2 (int (length data))) (\<lambda>rest2.
                            let k = drop_bit 5 (typ AND 0x60) in
                            Inr (if k = 1 then TypeSet else if k = 2 then TypeMultiset
                                 else if k = 3 then TypeSequence else d1, rest2))))
                  else Inr (typ, rest)) (\<lambda>(typ, rest).
             if typ = TypeNull then Inr VNil else DecodeValue tz typ rest))))"

subsection \<open>Bind parameters\<close>

definition encodeDateTime :: "time \<Rightarrow> bytes" where
  "encodeDateTime t =
     put_u16 (of_int (Year t)) @ put_u16 (of_int (Month t)) @ put_u16 (of_int (Day t)) @
     put_u16 (of_int (Hour t)) @ put_u16 (of_int (Minute t)) @ put_u16 (of_int (Second t)) @
     put_u16 (of_int (Nanosecond t div 1000000))"

text \<open>\<open>type_name\<close> is \<^verbatim>\<open>%T\<close> of a value the encoder does not support.\<close>

fun paramWireType :: "value \<Rightarrow> error + byte" where
  "paramWireType VNil = Inr TypeNull"
| "paramWireType (VBool b) = Inr TypeShort"
| "paramWireType (VInt16 v) = Inr TypeShort"
| "paramWireType (VInt32 v) = Inr TypeInt"
| "paramWireType (VInt v) = Inr TypeBigint"
| "paramWireType (VInt64 v) = Inr TypeBigint"
| "paramWireType (VFloat32 v) = Inr TypeFloat"
| "paramWireType (VFloat64 v) = Inr TypeDouble"
| "paramWireType (VString s) = Inr TypeVarchar"
| "paramWireType (VBytes b) = Inr TypeVarbit"
| "paramWireType (VTime t) = Inr TypeDatetime"
| "paramWireType v = Inl (Errorf ''cubrid: unsupported bind parameter type %T'' [EVal v])"

fun encodeScalarValue :: "writer \<Rightarrow> value \<Rightarrow> writer" where
  "encodeScalarValue w VNil = ArgNull w"
| "encodeScalarValue w (VBool b) = (if b then ArgShort w 1 else ArgShort w 0)"
| "encodeScalarValue w (VInt v) = ArgLong w v"
| "encodeScalarValue w (VInt16 v) = ArgShort w v"
| "encodeScalarValue w (VInt32 v) = ArgInt w v"
| "encodeScalarValue w (VInt64 v) = ArgLong w v"
| "encodeScalarValue w (VFloat32 v) = ArgFloat w v"
| "encodeScalarValue w (VFloat64 v) = ArgDouble w v"
| "encodeScalarValue w (VString s) = ArgString w s"
| "encodeScalarValue w (VBytes b) = ArgBytes w b"
| "encodeScalarValue w (VTime t) = ArgBytes w (encodeDateTime t)"
| "encodeScalarValue w v = w"

text \<open>The vetting loop of \<^verbatim>\<open>encodeCollectionParam\<close>, with its variables \<^verbatim>\<open>elemType\<close> and \<^verbatim>\<open>seen\<close>.\<close>

fun collectionElemType :: "byte \<Rightarrow> bool \<Rightarrow> value list \<Rightarrow> error + byte \<times> bool" where
  "collectionElemType elemType seen [] = Inr (elemType, seen)"
| "collectionElemType elemType seen (v # vs) =
     (case v of
        VNil \<Rightarrow> collectionElemType elemType seen vs
      | VSlice _ \<Rightarrow> Inl (Errorf ''cubrid: nested collection bind parameters are not supported'' [])
      | _ \<Rightarrow>
          bindE (wrapE ''cubrid: collection element: %w'' [] (paramWireType v)) (\<lambda>t.
            if \<not> seen then collectionElemType t True vs
            else if t \<noteq> elemType then
              Inl (Errorf ''cubrid: mixed element types in collection bind (wire types %d and %d)''
                     [EInt (uint elemType), EInt (uint t)])
            else collectionElemType elemType seen vs))"

fun encodeElems :: "writer \<Rightarrow> value list \<Rightarrow> writer" where
  "encodeElems w [] = w"
| "encodeElems w (v # vs) =
     (case v of VNil \<Rightarrow> encodeElems (ArgNull w) vs | _ \<Rightarrow> encodeElems (encodeScalarValue w v) vs)"

definition encodeCollectionParam :: "writer \<Rightarrow> value list \<Rightarrow> error + writer" where
  "encodeCollectionParam w vs =
     bindE (collectionElemType TypeObject False vs) (\<lambda>(elemType, seen).
       if length vs > 0 \<and> \<not> seen
       then Inl (Errorf ''cubrid: cannot derive the element type of an all-NULL collection bind'' [])
       else let inner = RawByte NewWriter elemType;
                inner = encodeElems inner vs;
                w = ArgByte w TypeSequence
            in Inr (ArgBytes w (Writer_Bytes inner)))"

definition EncodeParam :: "writer \<Rightarrow> value \<Rightarrow> error + writer" where
  "EncodeParam w v =
     (case v of
        VSlice vs \<Rightarrow> encodeCollectionParam w vs
      | _ \<Rightarrow> bindE (paramWireType v) (\<lambda>typ. Inr (encodeScalarValue (ArgByte w typ) v)))"

end
