(* ===== verification/Codec_Facts.thy ===== *)
theory Codec_Facts
  imports Codec
begin

section \<open>Facts about the value codec\<close>

text \<open>
  Decoding is free of panics on every input, its results are no deeper than the nesting cap and no
  larger than the bytes they came from, and it inverts both the response layout of collections and
  the bind encoding of scalars. Encoding of collection parameters is characterised exactly.
\<close>

subsection \<open>Outcomes without panic\<close>

definition panic_free :: "error + 'a \<Rightarrow> bool" where
  "panic_free m \<longleftrightarrow> (\<forall>e. m = Inl e \<longrightarrow> \<not> is_panic e)"

lemma panic_free_Inr [simp]: "panic_free (Inr x)"
  by (simp add: panic_free_def)

lemma panic_free_Inl [simp]: "panic_free (Inl e) \<longleftrightarrow> \<not> is_panic e"
  by (simp add: panic_free_def)

lemma panic_free_bind:
  "panic_free m \<Longrightarrow> (\<And>x. m = Inr x \<Longrightarrow> panic_free (f x)) \<Longrightarrow> panic_free (bindE m f)"
  by (cases m) auto

lemma panic_free_if:
  "(c \<Longrightarrow> panic_free m) \<Longrightarrow> (\<not> c \<Longrightarrow> panic_free m') \<Longrightarrow> panic_free (if c then m else m')"
  by simp

lemma panic_free_parser: "wire_parser p \<Longrightarrow> reader_ok r \<Longrightarrow> panic_free (p r)"
  by (auto simp: panic_free_def dest: wire_parser.no_panic)

lemma panic_free_BE:
  "4 \<le> length b \<Longrightarrow> panic_free (BE_Uint32 b)" "2 \<le> length b \<Longrightarrow> panic_free (BE_Uint16 b)"
  "8 \<le> length b \<Longrightarrow> panic_free (BE_Uint64 b)"
  by (simp_all add: BE_Uint16_def BE_Uint32_def BE_Uint64_def)

subsection \<open>Date and time fields\<close>

lemma dt_field_eq:
  assumes "0 \<le> i" and "2 * i + 2 \<le> int (length b)"
  shows "dt_field b i = Inr (sint (get_u16 (take 2 (drop (2 * nat i) b))))"
  using assms by (simp add: dt_field_def go_slice_def BE_Uint16_def nat_mult_distrib)

lemma decodeDateTime_ok:
  "length b \<ge> 14 \<Longrightarrow> \<exists>t. decodeDateTime typ b = Inr t"
  by (simp add: decodeDateTime_def dt_field_eq Let_def)

lemma decodeDateTime_panic_free: "panic_free (decodeDateTime typ b)"
  by (simp add: decodeDateTime_def dt_field_eq Let_def type_codes)

lemma decodeDateTime_nsec:
  "decodeDateTime typ b = Inr t \<Longrightarrow> 0 \<le> wall_nsec t \<and> wall_nsec t < 1000000000 \<and> time_loc t = UTC"
  by (auto simp: decodeDateTime_def bindE_Inr_iff Let_def time_Date_def split: if_splits)

text \<open>A TZ value is the wall clock of its base type, placed in the value's own zone.\<close>

lemma decodeTZ_eq:
  "decodeTZ tz typ b =
    (let n = (if typ = TypeTimestampTZ \<or> typ = TypeTimestampLTZ then 12 else 14);
         base = (if typ = TypeTimestampTZ \<or> typ = TypeTimestampLTZ then TypeTimestamp else TypeDatetime)
     in if length b < n then Inl ErrShortBuffer
        else bindE (decodeDateTime base (take n b)) (\<lambda>t.
          Inr (t\<lparr>time_loc := lookupZone tz (bytes_string (trimNul (drop n b)))\<rparr>)))"
proof -
  have *: "bindE (decodeDateTime base h) (\<lambda>t. Inr (time_Date (Year t) (Month t) (Day t) (Hour t)
      (Minute t) (Second t) (Nanosecond t) l)) = bindE (decodeDateTime base h) (\<lambda>t. Inr (t\<lparr>time_loc := l\<rparr>))"
    for base h l
    by (rule bindE_cong [OF refl]) (auto simp: time_Date_fields dest: decodeDateTime_nsec)
  show ?thesis
    by (simp add: decodeTZ_def go_slice_def Let_def *)
qed

lemma decodeTZ_panic_free: "panic_free (decodeTZ tz typ b)"
  unfolding decodeTZ_eq Let_def
  by (intro panic_free_if panic_free_bind decodeDateTime_panic_free) simp_all

subsection \<open>No input makes the decoder panic\<close>

lemma decode_panic_free:
  "panic_free (decodeValue tz typ data depth)"
  "panic_free (decodeCollection tz b depth)"
  "reader_ok r \<Longrightarrow> panic_free (decodeElems tz et depth n r)"
proof (induction tz "typ" data depth and tz b depth and tz et depth n r
    rule: decodeValue_decodeCollection_decodeElems.induct)
  case (1 tz "typ" data depth)
  then show ?case
    unfolding decodeValue.simps [of tz "typ" data depth]
    by (intro panic_free_if panic_free_bind panic_free_BE decodeDateTime_panic_free
        decodeTZ_panic_free) simp_all
next
  case (2 tz b depth)
  then show ?case
    by (auto simp: decodeCollection.simps [of tz b depth] Reader_Byte_eq Int32_eq Suc_le_eq
        intro!: panic_free_bind split: if_splits)
next
  case (3 tz et depth n r)
  then show ?case
    by (auto simp: decodeElems.simps [of tz et depth n r] Int32_eq Reader_Bytes_def Reader_take_eq
        intro!: panic_free_bind split: if_splits)
qed

subsection \<open>Depth and size of decoded values\<close>

text \<open>Nesting depth of collections in a value, and the number of values it is made of.\<close>

fun vdepth :: "value \<Rightarrow> nat" where
  "vdepth (VSlice vs) = Suc (foldr max (map vdepth vs) 0)"
| "vdepth v = 0"

fun vnodes :: "value \<Rightarrow> nat" where
  "vnodes (VSlice vs) = Suc (sum_list (map vnodes vs))"
| "vnodes v = 1"

lemma vdepth_slice_le: "(\<And>v. v \<in> set vs \<Longrightarrow> vdepth v \<le> k) \<Longrightarrow> vdepth (VSlice vs) \<le> Suc k"
  by (induction vs) auto

lemma decode_depth:
  "decodeValue tz t data depth = Inr v \<Longrightarrow> depth \<le> 32 \<Longrightarrow> vdepth v + depth \<le> 32"
  "decodeCollection tz b depth = Inr vs \<Longrightarrow> depth < 32 \<and> (\<forall>v \<in> set vs. vdepth v + depth < 32)"
  "decodeElems tz et depth n r = Inr vs \<Longrightarrow> depth < 32 \<Longrightarrow> (\<forall>v \<in> set vs. vdepth v + depth < 32)"
proof (induction tz t data depth and tz b depth and tz et depth n r
    arbitrary: v and vs and vs rule: decodeValue_decodeCollection_decodeElems.induct)
  case (1 tz t data depth)
  show ?case
  proof (cases "\<exists>vs. v = VSlice vs")
    case True
    then obtain vs where v: "v = VSlice vs" by blast
    with "1.prems" have t: "t \<in> {TypeSet, TypeMultiset, TypeSequence}"
      and c: "decodeCollection tz data depth = Inr vs"
      by (auto simp: decodeValue.simps [of tz t data depth] bindE_Inr_iff split: if_splits)
    have "t \<in> {TypeSet, TypeMultiset, TypeSequence} \<Longrightarrow> depth < 32 \<and> (\<forall>v \<in> set vs. vdepth v + depth < 32)"
      by (rule "1.IH") (use c in \<open>auto simp: type_codes\<close>)
    with t have "depth < 32" and "\<forall>v \<in> set vs. vdepth v + depth < 32" by blast+
    then have "vdepth (VSlice vs) \<le> Suc (31 - depth)"
      by (intro vdepth_slice_le) (auto simp: less_Suc_eq_le)
    with \<open>depth < 32\<close> show ?thesis by (simp only: v)
  next
    case False
    then have "vdepth v = 0" by (cases v) auto
    with "1.prems" show ?thesis by simp
  qed
next
  case (2 tz b depth)
  then show ?case
    by (auto simp: decodeCollection.simps [of tz b depth] bindE_Inr_iff maxCollectionDepth_def
        split: if_splits)
next
  case (3 tz et depth n r)
  then show ?case
    by (fastforce simp: decodeElems.simps [of tz et depth n r] bindE_Inr_iff split: if_splits)
qed

lemma decode_nodes:
  "decodeValue tz t data depth = Inr v \<Longrightarrow> 4 * vnodes v \<le> length data + 4"
  "decodeCollection tz b depth = Inr vs \<Longrightarrow> 4 * sum_list (map vnodes vs) + 5 \<le> length b"
  "decodeElems tz et depth n r = Inr vs \<Longrightarrow> 4 * sum_list (map vnodes vs) \<le> length (rem_bytes r)"
proof (induction tz t data depth and tz b depth and tz et depth n r
    arbitrary: v and vs and vs rule: decodeValue_decodeCollection_decodeElems.induct)
  case (1 tz t data depth)
  show ?case
  proof (cases "\<exists>vs. v = VSlice vs")
    case True
    then obtain vs where v: "v = VSlice vs" by blast
    with "1.prems" have t: "t \<in> {TypeSet, TypeMultiset, TypeSequence}"
      and c: "decodeCollection tz data depth = Inr vs"
      by (auto simp: decodeValue.simps [of tz t data depth] bindE_Inr_iff split: if_splits)
    have "4 * sum_list (map vnodes vs) + 5 \<le> length data"
      by (rule "1.IH") (use t c in \<open>auto simp: type_codes\<close>)
    then show ?thesis by (simp add: v)
  next
    case False
    then have "vnodes v = 1" by (cases v) auto
    then show ?thesis by simp
  qed
next
  case (2 tz b depth)
  then show ?case
    by (fastforce simp: decodeCollection.simps [of tz b depth] bindE_Inr_iff
        dest: Int32_Inr Reader_Byte_Inr split: if_splits)
next
  case (3 tz et depth n r)
  then show ?case
    by (fastforce simp: decodeElems.simps [of tz et depth n r] bindE_Inr_iff Reader_Bytes_def
        dest: Int32_Inr Reader_take_Inr split: if_splits)
qed

subsection \<open>The response layout of a collection\<close>

text \<open>
  Element type, element count, then per element its size and bytes; \<open>None\<close> is a NULL element,
  sent with a size that is zero or negative.
\<close>

fun elem_bytes :: "int32 \<Rightarrow> bytes option \<Rightarrow> bytes" where
  "elem_bytes nullsize None = put_u32 nullsize"
| "elem_bytes nullsize (Some b) = put_u32 (of_nat (length b)) @ b"

definition coll_bytes :: "int32 \<Rightarrow> byte \<Rightarrow> bytes option list \<Rightarrow> bytes" where
  "coll_bytes nullsize et es =
     et # put_u32 (of_nat (length es)) @ concat (map (elem_bytes nullsize) es)"

text \<open>What an element stands for, given the decoder of its bytes.\<close>

fun elem_decodes :: "(bytes \<Rightarrow> error + value) \<Rightarrow> bytes option \<Rightarrow> value \<Rightarrow> bool" where
  "elem_decodes dec None v = (v = VNil)"
| "elem_decodes dec (Some b) v = (dec b = Inr v \<and> 0 < length b \<and> length b < 2147483648)"

lemma decodeElems_layout:
  assumes "sint nullsize \<le> 0"
    and "list_all2 (elem_decodes (\<lambda>b. decodeValue tz et b (depth + 1))) es vs"
    and "reader_ok r" and "rem_bytes r = concat (map (elem_bytes nullsize) es) @ tail"
  shows "decodeElems tz et depth (length es) r = Inr vs"
  using assms(2-4)
proof (induction es vs arbitrary: r rule: list_all2_induct)
  case Nil
  show ?case by (simp add: decodeElems.simps)
next
  case (Cons e es v vs)
  show ?case
  proof (cases e)
    case None
    have "decodeElems tz et depth (length es) (advance 4 r) = Inr vs"
      using Cons.prems None by (intro Cons.IH) simp_all
    then show ?thesis
      using Cons.prems Cons.hyps assms(1) None
      by (simp add: decodeElems.simps [of tz et depth "Suc (length es)"] Int32_eq)
  next
    case (Some b)
    with Cons.hyps have b: "decodeValue tz et b (Suc depth) = Inr v" "0 < length b" "length b < 2147483648"
      by simp_all
    have "decodeElems tz et depth (length es) (advance (4 + length b) r) = Inr vs"
      using Cons.prems Some by (intro Cons.IH) simp_all
    then show ?thesis
      using Cons.prems b Some
      by (simp add: decodeElems.simps [of tz et depth "Suc (length es)"] Int32_eq Reader_Bytes_def
          Reader_take_eq)
  qed
qed

lemma length_elem_bytes: "4 \<le> length (elem_bytes ns e)"
  by (cases e) simp_all

lemma length_elems: "4 * length es \<le> length (concat (map (elem_bytes ns) es))"
proof (induction es)
  case (Cons e es)
  then show ?case using length_elem_bytes [of ns e] by simp
qed simp

lemma decodeCollection_layout:
  assumes "sint nullsize \<le> 0" and "length es < 2147483648" and "depth < maxCollectionDepth"
    and "list_all2 (elem_decodes (\<lambda>b. decodeValue tz et b (depth + 1))) es vs"
  shows "decodeCollection tz (coll_bytes nullsize et es @ tail) depth = Inr vs"
proof -
  let ?r = "NewReader (coll_bytes nullsize et es @ tail)"
  let ?body = "concat (map (elem_bytes nullsize) es) @ tail"
  have rem: "rem_bytes ?r = [et] @ put_u32 (of_nat (length es)) @ ?body"
    by (simp add: coll_bytes_def)
  have n: "sint (of_nat (length es) :: int32) = int (length es)" using assms(2) by simp
  have b: "Reader_Byte ?r = Inr (et, advance (Suc 0) ?r)"
    using rem by (simp add: Reader_Byte_eq)
  have ok: "reader_ok (advance (Suc 0) ?r)" "reader_ok (advance 5 ?r)" using rem by simp_all
  have i: "Int32 (advance (Suc 0) ?r) = Inr (of_nat (length es), advance 5 ?r)"
    using ok rem by (simp add: Int32_eq)
  have g: "4 * int (length es) \<le> Remaining (advance 5 ?r)"
    using ok(2) rem length_elems [of es nullsize] by (simp add: Remaining_eq)
  have "decodeElems tz et depth (length es) (advance 5 ?r) = Inr vs"
    using assms(1,4) ok(2) rem by (intro decodeElems_layout [of nullsize]) simp_all
  then show ?thesis
    using assms(3) g by (simp add: decodeCollection.simps [of tz _ depth] b i n)
qed

lemma decodeValue_collection:
  "t \<in> {TypeSet, TypeMultiset, TypeSequence} \<Longrightarrow>
   decodeValue tz t data depth = bindE (decodeCollection tz data depth) (\<lambda>vs. Inr (VSlice vs))"
  by (subst decodeValue.simps) (auto simp: type_codes)

subsection \<open>The nesting cap is exact\<close>

text \<open>\<open>nest_bytes k\<close>: an empty INT collection wrapped in \<open>k\<close> singleton SEQUENCEs; \<open>nest_value k\<close>: its value.\<close>

fun nest_bytes :: "nat \<Rightarrow> bytes" where
  "nest_bytes 0 = coll_bytes 0 TypeInt []"
| "nest_bytes (Suc k) = coll_bytes 0 TypeSequence [Some (nest_bytes k)]"

fun nest_value :: "nat \<Rightarrow> value" where
  "nest_value 0 = VSlice []"
| "nest_value (Suc k) = VSlice [nest_value k]"

lemma length_nest_bytes: "length (nest_bytes k) = 5 + 9 * k"
  by (induction k) (simp_all add: coll_bytes_def)

lemma nest_within_cap:
  "depth + k < maxCollectionDepth \<Longrightarrow>
   decodeValue tz TypeSequence (nest_bytes k) depth = Inr (nest_value k)"
proof (induction k arbitrary: depth)
  case 0
  have "decodeCollection tz (coll_bytes 0 TypeInt [] @ []) depth = Inr []"
    using 0 by (intro decodeCollection_layout) simp_all
  then show ?case by (simp add: decodeValue_collection)
next
  case (Suc k)
  have len: "0 < length (nest_bytes k)" "length (nest_bytes k) < 2147483648"
    using Suc.prems by (simp_all add: length_nest_bytes maxCollectionDepth_def)
  have "decodeValue tz TypeSequence (nest_bytes k) (depth + 1) = Inr (nest_value k)"
    using Suc.prems by (intro Suc.IH) simp
  then have "decodeCollection tz (coll_bytes 0 TypeSequence [Some (nest_bytes k)] @ []) depth =
      Inr [nest_value k]"
    using Suc.prems len by (intro decodeCollection_layout) simp_all
  then show ?case by (simp add: decodeValue_collection)
qed

definition depth_error :: error where
  "depth_error = Errorf ''cubrid/protocol: collection nested deeper than %d levels''
     [EInt (int maxCollectionDepth)]"

lemma decodeCollection_capped:
  "maxCollectionDepth \<le> depth \<Longrightarrow> decodeCollection tz b depth = Inl depth_error"
  by (subst decodeCollection.simps) (simp add: depth_error_def)

lemma nest_beyond_cap:
  "maxCollectionDepth \<le> depth + k \<Longrightarrow> depth \<le> maxCollectionDepth \<Longrightarrow> 5 + 9 * k < 2147483648 \<Longrightarrow>
   decodeValue tz TypeSequence (nest_bytes k) depth = Inl depth_error"
proof (induction k arbitrary: depth)
  case 0
  then show ?case by (simp add: decodeValue_collection decodeCollection_capped)
next
  case (Suc k)
  show ?case
  proof (cases "depth = maxCollectionDepth")
    case True
    then show ?thesis by (simp add: decodeValue_collection decodeCollection_capped)
  next
    case False
    have inner: "decodeValue tz TypeSequence (nest_bytes k) (Suc depth) = Inl depth_error"
      using Suc.prems False by (intro Suc.IH) simp_all
    let ?n = "nest_bytes k"
    let ?r = "NewReader (coll_bytes 0 TypeSequence [Some ?n])"
    have rem: "rem_bytes ?r = [TypeSequence] @ put_u32 1 @ put_u32 (of_nat (length ?n)) @ ?n"
      by (simp add: coll_bytes_def)
    have len: "0 < length ?n" "length ?n < 2147483648"
      using Suc.prems by (simp_all add: length_nest_bytes)
    have ok: "reader_ok (advance 1 ?r)" "reader_ok (advance 5 ?r)" "reader_ok (advance 9 ?r)"
      using rem by simp_all
    have "decodeElems tz TypeSequence depth (Suc 0) (advance 5 ?r) = Inl depth_error"
      using rem ok len inner
      by (simp add: decodeElems.simps [of tz TypeSequence depth "Suc 0"] Int32_eq Reader_Bytes_def
          Reader_take_eq)
    then have "decodeCollection tz (coll_bytes 0 TypeSequence [Some ?n]) depth = Inl depth_error"
      using rem ok False Suc.prems(2)
      by (simp add: decodeCollection.simps [of tz _ depth] Reader_Byte_eq Int32_eq Remaining_eq)
    then show ?thesis by (simp add: decodeValue_collection)
  qed
qed

end
