(* ===== verification/Wire_Handshake.thy ===== *)
theory Wire_Handshake
  imports Wire_Status
begin

section \<open>Protocol versions and the connect handshake (protocol/version.go, handshake.go)\<close>

text \<open>
  The client hello, the fixed-size authentication block, and the connect reply whose layout
  depends on the protocol version the broker answers with.
\<close>

subsection \<open>Versions\<close>

definition ProtoV0 :: int where "ProtoV0 = 0"
definition ProtoV2 :: int where "ProtoV2 = 2"
definition ProtoV3 :: int where "ProtoV3 = 3"
definition ProtoV4 :: int where "ProtoV4 = 4"
definition ProtoV5 :: int where "ProtoV5 = 5"
definition ProtoV7 :: int where "ProtoV7 = 7"
definition ProtoV12 :: int where "ProtoV12 = 12"

definition CurrentProtocolVersion :: byte where "CurrentProtocolVersion = 12"
definition protoIndicator :: byte where "protoIndicator = 0x40"
definition protoVerMask :: byte where "protoVerMask = 0x3F"
definition FlagRenewedErrorCode :: byte where "FlagRenewedErrorCode = 0x80"
definition FlagHoldableResult :: byte where "FlagHoldableResult = 0x40"

lemmas proto_versions =
  ProtoV0_def ProtoV2_def ProtoV3_def ProtoV4_def ProtoV5_def ProtoV7_def ProtoV12_def

type_synonym version = int

definition AtLeast :: "version \<Rightarrow> int \<Rightarrow> bool" where
  "AtLeast v n \<longleftrightarrow> v \<ge> n"

type_synonym broker_info = bytes

definition ParseBrokerInfo :: "bytes \<Rightarrow> error + broker_info" where
  "ParseBrokerInfo p =
     (if length p \<noteq> 8
      then Inl (Errorf ''cubrid/protocol: broker info is %d bytes, want %d''
                  [EInt (int (length p)), EInt 8])
      else Inr p)"

definition ProtocolVersion :: "broker_info \<Rightarrow> version" where
  "ProtocolVersion bi =
     (let v = bi ! 4 in
      if v AND protoIndicator \<noteq> 0 then uint (v AND protoVerMask) else ProtoV0)"

lemma ProtocolVersion_range: "0 \<le> ProtocolVersion bi \<and> ProtocolVersion bi \<le> 63"
proof -
  have "bi ! 4 AND protoVerMask \<le> protoVerMask" by (rule word_and_le1)
  then have "uint (bi ! 4 AND protoVerMask) \<le> 63"
    by (simp add: protoVerMask_def word_le_def)
  then show ?thesis by (simp add: ProtocolVersion_def Let_def ProtoV0_def)
qed

subsection \<open>Greeting\<close>

definition GreetingSize :: nat where "GreetingSize = 10"
definition SessionIDSize :: nat where "SessionIDSize = 20"
definition dbInfoSize :: nat where "dbInfoSize = 628"
definition clientTypeJDBC :: byte where "clientTypeJDBC = 3"
definition CASErrSSLTypeNotAllowed :: int32 where "CASErrSSLTypeNotAllowed = -10103"

text \<open>\<open>copy_into b lo hi src\<close> is Go's \<^verbatim>\<open>copy(b[lo:hi], src)\<close>: at most \<open>hi - lo\<close> bytes move.\<close>

definition copy_into :: "bytes \<Rightarrow> nat \<Rightarrow> nat \<Rightarrow> bytes \<Rightarrow> bytes" where
  "copy_into b lo hi src =
     (let n = min (hi - lo) (length src) in take lo b @ take n src @ drop (lo + n) b)"

definition Greeting :: "bool \<Rightarrow> bytes" where
  "Greeting ssl =
     (let g = replicate GreetingSize 0;
          g = copy_into g 0 GreetingSize (string_bytes ''CUBRK'');
          g = (if ssl then copy_into g 0 GreetingSize (string_bytes ''CUBRS'') else g);
          g = g[5 := clientTypeJDBC];
          g = g[6 := protoIndicator OR CurrentProtocolVersion];
          g = g[7 := FlagRenewedErrorCode OR FlagHoldableResult]
      in g)"

subsection \<open>Authentication block\<close>

definition DBInfo_put :: "bytes \<Rightarrow> nat \<Rightarrow> nat \<Rightarrow> string \<Rightarrow> string \<Rightarrow> error + bytes" where
  "DBInfo_put b lo hi s field =
     (if length s \<ge> hi - lo
      then Inl (Errorf ''cubrid: %s longer than %d bytes'' [EStr field, EInt (int (hi - lo) - 1)])
      else Inr (copy_into b lo hi (string_bytes s)))"

definition DBInfo :: "string \<Rightarrow> string \<Rightarrow> string \<Rightarrow> string \<Rightarrow> bytes option \<Rightarrow> error + bytes" where
  "DBInfo dbname user password url sessionID =
     (let b = replicate dbInfoSize 0 in
      bindE (DBInfo_put b 0 32 dbname ''dbname'') (\<lambda>b.
      bindE (DBInfo_put b 32 64 user ''user'') (\<lambda>b.
      bindE (DBInfo_put b 64 96 password ''password'') (\<lambda>b.
      bindE (DBInfo_put b 96 608 url ''url'') (\<lambda>b.
        Inr (case sessionID of None \<Rightarrow> b | Some sid \<Rightarrow> copy_into b 608 628 sid))))))"

subsection \<open>Connect reply\<close>

record connect_reply =
  cr_CASPid :: int32
  cr_Broker :: broker_info
  cr_Version :: version
  cr_CASID :: int32
  cr_SessionID :: bytes

definition ParseConnectReply :: "bytes \<Rightarrow> error + connect_reply" where
  "ParseConnectReply payload =
     (let r = NewReader payload in
      bindE (ReadStatus r) (\<lambda>(pid, r).
      bindE (Reader_Bytes r 8) (\<lambda>(bb, r).
      bindE (ParseBrokerInfo bb) (\<lambda>bi.
        let ver = ProtocolVersion bi in
        bindE (if AtLeast ver ProtoV4 then Int32 r else Inr (0, r)) (\<lambda>(casid, r).
        bindE (if AtLeast ver ProtoV3 then Reader_Bytes r (int SessionIDSize)
               else if Remaining r \<ge> 4
               then (case Int32 r of Inr (_, r') \<Rightarrow> Inr (replicate SessionIDSize 0, r')
                                   | Inl _ \<Rightarrow> Inr (replicate SessionIDSize 0, r))
               else Inr (replicate SessionIDSize 0, r)) (\<lambda>(sid, r).
          Inr \<lparr>cr_CASPid = pid, cr_Broker = bi, cr_Version = ver, cr_CASID = casid,
               cr_SessionID = sid\<rparr>))))))"

subsection \<open>Facts about the layouts\<close>

text \<open>A NUL-padded field, and what a reader of it up to the first NUL sees.\<close>

definition pad_field :: "nat \<Rightarrow> bytes \<Rightarrow> bytes" where
  "pad_field n s = s @ replicate (n - length s) 0"

lemma length_pad_field: "length s \<le> n \<Longrightarrow> length (pad_field n s) = n"
  by (simp add: pad_field_def)

lemma takeWhile_pad_field:
  assumes "0 \<notin> set s"
  shows "takeWhile (\<lambda>x. x \<noteq> 0) (pad_field n s) = s"
proof -
  have "\<forall>x \<in> set s. x \<noteq> 0" using assms by auto
  then have "takeWhile (\<lambda>x. x \<noteq> 0) (s @ replicate (n - length s) 0) =
      s @ takeWhile (\<lambda>x. x \<noteq> 0) (replicate (n - length s) 0)"
    by (intro takeWhile_append2) blast
  also have "takeWhile (\<lambda>x. x \<noteq> 0) (replicate k 0) = ([] :: bytes)" for k
    by (induction k) auto
  finally show ?thesis by (simp add: pad_field_def)
qed

text \<open>Writing a string at the start of a zeroed slice pads it with NULs.\<close>

lemma copy_into_zeros:
  assumes "length s \<le> hi - lo" and "lo \<le> hi" and "length a = lo" and "hi - lo = k"
  shows "copy_into (a @ replicate k 0 @ c) lo hi s = a @ pad_field k s @ c"
proof -
  have "drop (lo + length s) (a @ replicate k 0 @ c) = replicate (k - length s) 0 @ c"
    using assms by simp
  with assms show ?thesis by (simp add: copy_into_def Let_def pad_field_def min_def)
qed

lemma dbInfo_zeros:
  "replicate dbInfoSize (0 :: byte) =
    replicate 32 0 @ replicate 32 0 @ replicate 32 0 @ replicate 512 0 @ replicate 20 0"
  by (simp add: dbInfoSize_def flip: replicate_add)

lemma DBInfo_layout:
  assumes "length dbname < 32" and "length user < 32" and "length password < 32" and "length url < 512"
  shows "DBInfo dbname user password url sid = Inr
    (pad_field 32 (string_bytes dbname) @ pad_field 32 (string_bytes user) @
     pad_field 32 (string_bytes password) @ pad_field 512 (string_bytes url) @
     (case sid of None \<Rightarrow> replicate 20 0 | Some s \<Rightarrow> copy_into (replicate 20 0) 0 20 s))"
proof -
  let ?d = "pad_field 32 (string_bytes dbname)" and ?u = "pad_field 32 (string_bytes user)"
    and ?p = "pad_field 32 (string_bytes password)" and ?w = "pad_field 512 (string_bytes url)"
  let ?z = "\<lambda>n. replicate n (0 :: byte)"
  have len: "length ?d = 32" "length ?u = 32" "length ?p = 32" "length ?w = 512"
    using assms by (simp_all add: length_pad_field)
  have 1: "copy_into (replicate dbInfoSize 0) 0 32 (string_bytes dbname) =
      ?d @ ?z 32 @ ?z 32 @ ?z 512 @ ?z 20"
    using assms(1) copy_into_zeros [of "string_bytes dbname" 32 0 "[]" 32]
    by (simp add: dbInfo_zeros)
  have 2: "copy_into (?d @ ?z 32 @ ?z 32 @ ?z 512 @ ?z 20) 32 64 (string_bytes user) =
      ?d @ ?u @ ?z 32 @ ?z 512 @ ?z 20"
    using assms(2) len by (intro copy_into_zeros) simp_all
  have 3: "copy_into (?d @ ?u @ ?z 32 @ ?z 512 @ ?z 20) 64 96 (string_bytes password) =
      ?d @ ?u @ ?p @ ?z 512 @ ?z 20"
    using assms(3) len copy_into_zeros [of "string_bytes password" 96 64 "?d @ ?u" 32] by simp
  have 4: "copy_into (?d @ ?u @ ?p @ ?z 512 @ ?z 20) 96 608 (string_bytes url) =
      ?d @ ?u @ ?p @ ?w @ ?z 20"
    using assms(4) len copy_into_zeros [of "string_bytes url" 608 96 "?d @ ?u @ ?p" 512] by simp
  have 5: "copy_into (?d @ ?u @ ?p @ ?w @ ?z 20) 608 628 s =
      ?d @ ?u @ ?p @ ?w @ copy_into (?z 20) 0 20 s" for s
    using len by (simp add: copy_into_def Let_def)
  show ?thesis
    using assms by (simp add: DBInfo_def DBInfo_put_def 1 2 3 4 5 Let_def split: option.split)
qed

text \<open>The reply a broker of the negotiated version sends after the status.\<close>

definition reply_bytes :: "int32 \<Rightarrow> broker_info \<Rightarrow> int32 \<Rightarrow> bytes \<Rightarrow> bytes" where
  "reply_bytes pid bi casid sid =
     put_u32 pid @ bi @
     (if ProtocolVersion bi \<ge> 4 then put_u32 casid else []) @
     (if ProtocolVersion bi \<ge> 3 then sid else [])"

end
