(* ===== verification/Wire_Requests.thy ===== *)
theory Wire_Requests
  imports Wire_Handshake
begin

section \<open>Function codes and simple requests (protocol/funccodes.go, dbparam.go, schema.go)\<close>

text \<open>
  The request builders that only write arguments. Each is characterised by the list of arguments
  the broker splits out of the payload.
\<close>

subsection \<open>Function codes\<close>

definition FnEndTransaction :: byte where "FnEndTransaction = 1"
definition FnPrepare :: byte where "FnPrepare = 2"
definition FnExecute :: byte where "FnExecute = 3"
definition FnGetDBParameter :: byte where "FnGetDBParameter = 4"
definition FnSetDBParameter :: byte where "FnSetDBParameter = 5"
definition FnCloseStatement :: byte where "FnCloseStatement = 6"
definition FnCursor :: byte where "FnCursor = 7"
definition FnFetch :: byte where "FnFetch = 8"
definition FnGetSchemaInfo :: byte where "FnGetSchemaInfo = 9"
definition FnGetDBVersion :: byte where "FnGetDBVersion = 15"
definition FnNextResult :: byte where "FnNextResult = 19"
definition FnExecuteBatch :: byte where "FnExecuteBatch = 20"
definition FnExecuteBatchPrep :: byte where "FnExecuteBatchPrep = 21"
definition FnSavepoint :: byte where "FnSavepoint = 26"
definition FnParameterInfo :: byte where "FnParameterInfo = 27"
definition FnConClose :: byte where "FnConClose = 31"
definition FnCheckCAS :: byte where "FnCheckCAS = 32"
definition FnMakeOutResultSet :: byte where "FnMakeOutResultSet = 33"
definition FnGetGeneratedKeys :: byte where "FnGetGeneratedKeys = 34"
definition FnNewLOB :: byte where "FnNewLOB = 35"
definition FnWriteLOB :: byte where "FnWriteLOB = 36"
definition FnReadLOB :: byte where "FnReadLOB = 37"
definition FnEndSession :: byte where "FnEndSession = 38"
definition FnPrepareAndExecute :: byte where "FnPrepareAndExecute = 41"
definition FnCursorClose :: byte where "FnCursorClose = 42"

lemmas fn_codes =
  FnEndTransaction_def FnPrepare_def FnExecute_def FnGetDBParameter_def FnSetDBParameter_def
  FnCloseStatement_def FnCursor_def FnFetch_def FnGetSchemaInfo_def FnGetDBVersion_def
  FnNextResult_def FnExecuteBatch_def FnExecuteBatchPrep_def FnSavepoint_def
  FnParameterInfo_def FnConClose_def FnCheckCAS_def FnMakeOutResultSet_def
  FnGetGeneratedKeys_def FnNewLOB_def FnWriteLOB_def FnReadLOB_def FnEndSession_def
  FnPrepareAndExecute_def FnCursorClose_def

text \<open>The shape of every request: a function byte, then arguments.\<close>

definition request :: "byte \<Rightarrow> bytes list \<Rightarrow> bytes" where
  "request fn as = fn # encode_args as"

lemma request_inject:
  assumes "\<And>a. a \<in> set as \<Longrightarrow> length a < 2 ^ 32" and "\<And>b. b \<in> set bs \<Longrightarrow> length b < 2 ^ 32"
  shows "request f as = request g bs \<longleftrightarrow> f = g \<and> as = bs"
proof -
  have "split_args (encode_args as) = Some as" by (rule split_args_encode) (rule assms(1))
  moreover have "split_args (encode_args bs) = Some bs" by (rule split_args_encode) (rule assms(2))
  ultimately have "encode_args as = encode_args bs \<longleftrightarrow> as = bs" by (metis option.inject)
  then show ?thesis by (simp add: request_def)
qed

subsection \<open>Database parameters\<close>

definition DBParamIsolationLevel :: int32 where "DBParamIsolationLevel = 1"
definition DBParamLockTimeout :: int32 where "DBParamLockTimeout = 2"

definition SetDBParameterRequest :: "writer \<Rightarrow> int32 \<Rightarrow> int32 \<Rightarrow> writer" where
  "SetDBParameterRequest w param val =
     (let w = RawByte w FnSetDBParameter; w = ArgInt w param in ArgInt w val)"

definition GetDBParameterRequest :: "writer \<Rightarrow> int32 \<Rightarrow> writer" where
  "GetDBParameterRequest w param = (let w = RawByte w FnGetDBParameter in ArgInt w param)"

lemma SetDBParameterRequest_bytes:
  "Writer_Bytes (SetDBParameterRequest NewWriter p v) =
    request FnSetDBParameter [put_u32 p, put_u32 v]"
  by (simp add: SetDBParameterRequest_def request_def wire_simps Let_def)

lemma GetDBParameterRequest_bytes:
  "Writer_Bytes (GetDBParameterRequest NewWriter p) = request FnGetDBParameter [put_u32 p]"
  by (simp add: GetDBParameterRequest_def request_def wire_simps Let_def)

subsection \<open>Schema information\<close>

definition SchClass :: int32 where "SchClass = 1"
definition SchVClass :: int32 where "SchVClass = 2"
definition SchQuerySpec :: int32 where "SchQuerySpec = 3"
definition SchAttribute :: int32 where "SchAttribute = 4"
definition SchClassAttribute :: int32 where "SchClassAttribute = 5"
definition SchMethod :: int32 where "SchMethod = 6"
definition SchClassMethod :: int32 where "SchClassMethod = 7"
definition SchMethodFile :: int32 where "SchMethodFile = 8"
definition SchSuperclass :: int32 where "SchSuperclass = 9"
definition SchSubclass :: int32 where "SchSubclass = 10"
definition SchConstraint :: int32 where "SchConstraint = 11"
definition SchTrigger :: int32 where "SchTrigger = 12"
definition SchClassPrivilege :: int32 where "SchClassPrivilege = 13"
definition SchAttrPrivilege :: int32 where "SchAttrPrivilege = 14"
definition SchDirectSuperClass :: int32 where "SchDirectSuperClass = 15"
definition SchPrimaryKey :: int32 where "SchPrimaryKey = 16"
definition SchImportedKeys :: int32 where "SchImportedKeys = 17"
definition SchExportedKeys :: int32 where "SchExportedKeys = 18"
definition SchCrossReference :: int32 where "SchCrossReference = 19"

definition SchemaFlagArg1Pattern :: byte where "SchemaFlagArg1Pattern = 1"
definition SchemaFlagArg2Pattern :: byte where "SchemaFlagArg2Pattern = 2"

definition schema_arg :: "writer \<Rightarrow> string option \<Rightarrow> writer" where
  "schema_arg w arg = (case arg of None \<Rightarrow> ArgNull w | Some s \<Rightarrow> ArgString w s)"

definition SchemaInfoRequest ::
    "writer \<Rightarrow> int32 \<Rightarrow> string option \<Rightarrow> string option \<Rightarrow> byte \<Rightarrow> version \<Rightarrow> writer" where
  "SchemaInfoRequest w schType arg1 arg2 flag ver =
     (let w = RawByte w FnGetSchemaInfo;
          w = ArgInt w schType;
          w = schema_arg w arg1;
          w = schema_arg w arg2;
          w = ArgByte w flag
      in if AtLeast ver ProtoV5 then ArgInt w 0 else w)"

fun opt_string_arg :: "string option \<Rightarrow> bytes" where
  "opt_string_arg None = []"
| "opt_string_arg (Some s) = string_bytes s @ [0]"

lemma w_buf_schema_arg: "w_buf (schema_arg w a) = w_buf w @ arg_bytes (opt_string_arg a)"
  by (cases a) (simp_all add: schema_arg_def wire_simps)

lemma SchemaInfoRequest_bytes:
  "Writer_Bytes (SchemaInfoRequest NewWriter ty a1 a2 flag ver) =
    request FnGetSchemaInfo ([put_u32 ty, opt_string_arg a1, opt_string_arg a2, [flag]] @
      (if ver \<ge> 5 then [put_u32 0] else []))"
  by (simp add: SchemaInfoRequest_def request_def wire_simps w_buf_schema_arg AtLeast_def
      proto_versions Let_def)

end
