(* ===== verification/Wire_Lob.thy ===== *)
theory Wire_Lob
  imports Wire_Requests
begin

section \<open>Packed LOB handles (protocol/lob.go)\<close>

text \<open>
  A LOB locator travels as opaque packed bytes with the type, size and locator inside. The driver
  keeps the parsed fields beside the packed bytes; the invariant \<open>lob_ok\<close> says they agree.
\<close>

definition LobMaxChunk :: int where
  "LobMaxChunk = 128 * 1024"

definition lobHandleHeader :: int where
  "lobHandleHeader = 16"

definition ParseLobHandle :: "bytes \<Rightarrow> error + lob_handle" where
  "ParseLobHandle b =
     (if int (length b) < lobHandleHeader
      then Inl (Errorf ''cubrid/protocol: packed LOB handle is %d bytes, want >= %d''
                  [EInt (int (length b)), EInt lobHandleHeader])
      else bindE (go_slice b 12 16) (\<lambda>lb. bindE (BE_Uint32 lb) (\<lambda>locLen.
        if sint locLen < 1 \<or> lobHandleHeader + sint locLen > int (length b)
        then Inl (Errorf ''cubrid/protocol: LOB locator length %d exceeds handle (%d bytes)''
                    [EInt (sint locLen), EInt (int (length b))])
        else bindE (go_slice b 0 4) (\<lambda>tb. bindE (BE_Uint32 tb) (\<lambda>ty.
             bindE (go_slice b 4 12) (\<lambda>sb. bindE (BE_Uint64 sb) (\<lambda>size.
             bindE (go_slice b lobHandleHeader (lobHandleHeader + sint locLen)) (\<lambda>loc.
               Inr \<lparr>lh_DBType = ty, lh_Size = size,
                    lh_Locator = bytes_string (trimNul loc), lh_raw = b\<rparr>))))))))"

definition SetSize :: "lob_handle \<Rightarrow> int64 \<Rightarrow> error + lob_handle" where
  "SetSize h n =
     (let h = h\<lparr>lh_Size := n\<rparr> in
      bindE (go_slice (lh_raw h) 4 12) (\<lambda>_.
        Inr (h\<lparr>lh_raw := copy_into (lh_raw h) 4 12 (put_u64 n)\<rparr>)))"

definition Packed :: "lob_handle \<Rightarrow> bytes" where
  "Packed h = lh_raw h"

definition NewLobRequest :: "writer \<Rightarrow> int32 \<Rightarrow> writer" where
  "NewLobRequest w ty = (let w = RawByte w FnNewLOB in ArgInt w ty)"

definition WriteLobRequest :: "writer \<Rightarrow> lob_handle \<Rightarrow> int64 \<Rightarrow> bytes \<Rightarrow> writer" where
  "WriteLobRequest w h offset data =
     (let w = RawByte w FnWriteLOB; w = ArgBytes w (lh_raw h); w = ArgLong w offset in ArgBytes w data)"

definition ReadLobRequest :: "writer \<Rightarrow> lob_handle \<Rightarrow> int64 \<Rightarrow> int32 \<Rightarrow> writer" where
  "ReadLobRequest w h offset n =
     (let w = RawByte w FnReadLOB; w = ArgBytes w (lh_raw h); w = ArgLong w offset in ArgInt w n)"

subsection \<open>The handle invariant\<close>

definition lob_ok :: "lob_handle \<Rightarrow> bool" where
  "lob_ok h \<longleftrightarrow> ParseLobHandle (lh_raw h) = Inr h"

lemma ParseLobHandle_eq:
  "ParseLobHandle b =
    (let n = sint (get_u32 (take 4 (drop 12 b))) in
     if length b < 16 then Inl (Errorf ''cubrid/protocol: packed LOB handle is %d bytes, want >= %d''
                                  [EInt (int (length b)), EInt 16])
     else if n < 1 \<or> 16 + n > int (length b)
     then Inl (Errorf ''cubrid/protocol: LOB locator length %d exceeds handle (%d bytes)''
                 [EInt n, EInt (int (length b))])
     else Inr \<lparr>lh_DBType = get_u32 (take 4 b), lh_Size = get_u64 (take 8 (drop 4 b)),
               lh_Locator = bytes_string (trimNul (take (nat n) (drop 16 b))), lh_raw = b\<rparr>)"
  by (auto simp: ParseLobHandle_def lobHandleHeader_def go_slice_def BE_Uint32_def BE_Uint64_def
      Let_def nat_add_distrib)

lemma ParseLobHandle_raw: "ParseLobHandle b = Inr h \<Longrightarrow> lh_raw h = b"
  by (auto simp: ParseLobHandle_eq Let_def split: if_splits)

lemma ParseLobHandle_ok: "ParseLobHandle b = Inr h \<Longrightarrow> lob_ok h"
  using ParseLobHandle_raw [of b h] by (simp add: lob_ok_def)

lemma ParseLobHandle_panic_free: "ParseLobHandle b = Inl e \<Longrightarrow> \<not> is_panic e"
  by (auto simp: ParseLobHandle_eq Let_def split: if_splits)

lemma lob_ok_length: "lob_ok h \<Longrightarrow> 16 \<le> length (lh_raw h)"
  by (auto simp: lob_ok_def ParseLobHandle_eq Let_def split: if_splits)

lemma copy_into_size:
  assumes "16 \<le> length b"
  shows "copy_into b 4 12 (put_u64 n) = take 4 b @ put_u64 n @ drop 12 b"
  using assms by (simp add: copy_into_def Let_def)

lemma SetSize_ok:
  assumes "lob_ok h"
  shows "\<exists>h'. SetSize h n = Inr h' \<and> lob_ok h' \<and> lh_Size h' = n \<and> lh_DBType h' = lh_DBType h \<and>
    lh_Locator h' = lh_Locator h \<and> length (lh_raw h') = length (lh_raw h)"
proof -
  let ?b = "lh_raw h" and ?c = "take 4 (lh_raw h) @ put_u64 n @ drop 12 (lh_raw h)"
  have len: "16 \<le> length ?b" by (rule lob_ok_length [OF assms])
  have s: "SetSize h n = Inr (h\<lparr>lh_Size := n, lh_raw := ?c\<rparr>)"
    using len copy_into_size [OF len, of n] by (simp add: SetSize_def go_slice_def Let_def)
  have parts: "take 4 ?c = take 4 ?b" "take 8 (drop 4 ?c) = put_u64 n" "take 4 (drop 12 ?c) = take 4 (drop 12 ?b)"
    "drop 16 ?c = drop 16 ?b" "length ?c = length ?b"
    using len by simp_all
  have "ParseLobHandle ?c = Inr (h\<lparr>lh_Size := n, lh_raw := ?c\<rparr>)"
    using assms parts by (cases h) (auto simp: lob_ok_def ParseLobHandle_eq Let_def split: if_splits)
  with s parts(5) show ?thesis by (auto simp: lob_ok_def)
qed

lemma WriteLobRequest_bytes:
  "Writer_Bytes (WriteLobRequest NewWriter h off data) = request FnWriteLOB [lh_raw h, put_u64 off, data]"
  by (simp add: WriteLobRequest_def request_def wire_simps Let_def)

lemma ReadLobRequest_bytes:
  "Writer_Bytes (ReadLobRequest NewWriter h off n) = request FnReadLOB [lh_raw h, put_u64 off, put_u32 n]"
  by (simp add: ReadLobRequest_def request_def wire_simps Let_def)

lemma NewLobRequest_bytes: "Writer_Bytes (NewLobRequest NewWriter ty) = request FnNewLOB [put_u32 ty]"
  by (simp add: NewLobRequest_def request_def wire_simps Let_def)

end
