(* ===== verification/Param_Facts.thy ===== *)
theory Param_Facts
  imports Codec_Facts Wire_Lob
begin

section \<open>Facts about bind parameters\<close>

text \<open>
  Every accepted scalar is written as one argument which a receiver reads, under the announced wire
  type, as the value the server is meant to see; in a request an argument of length zero is NULL, so
  that includes an empty byte string. Collections are accepted exactly when their non-nil elements
  are scalars of one wire type.
\<close>

subsection \<open>Scalars\<close>

text \<open>The bytes of the value argument.\<close>

fun scalar_content :: "value \<Rightarrow> bytes" where
  "scalar_content (VBool b) = put_u16 (if b then 1 else 0)"
| "scalar_content (VInt v) = put_u64 v"
| "scalar_content (VInt16 v) = put_u16 v"
| "scalar_content (VInt32 v) = put_u32 v"
| "scalar_content (VInt64 v) = put_u64 v"
| "scalar_content (VFloat32 v) = put_u32 v"
| "scalar_content (VFloat64 v) = put_u64 v"
| "scalar_content (VString s) = string_bytes s @ [0]"
| "scalar_content (VBytes b) = b"
| "scalar_content (VTime t) = encodeDateTime t"
| "scalar_content v = []"

text \<open>The contract of a scalar write, on the values \<open>paramWireType\<close> accepts.\<close>

definition scalar :: "value \<Rightarrow> bool" where
  "scalar v \<longleftrightarrow> (\<exists>t. paramWireType v = Inr t)"

lemma w_buf_scalar:
  "scalar v \<Longrightarrow> w_buf (encodeScalarValue w v) = w_buf w @ arg_bytes (scalar_content v)"
  by (cases v) (auto simp: scalar_def wire_simps)

text \<open>
  A receiver of requests takes an argument of length zero for NULL, whatever type is announced for it
  (the comment on \<^verbatim>\<open>ArgNull\<close> in binary.go).
\<close>

definition read_arg :: "tzdb \<Rightarrow> byte \<Rightarrow> bytes \<Rightarrow> error + value" where
  "read_arg tz t x = (if x = [] then Inr VNil else DecodeValue tz t x)"

text \<open>
  What the server sees of a value: booleans as SMALLINT, Go ints as BIGINT, text without trailing
  NULs, decimals as text, an empty byte string as NULL, times as their UTC-labelled wall clock in
  milliseconds, a nil locator as NULL and any other by its handle.
\<close>

definition trunc_ms :: "time \<Rightarrow> time" where
  "trunc_ms t = t\<lparr>wall_nsec := wall_nsec t div 1000000 * 1000000, time_loc := UTC\<rparr>"

fun decoded_as :: "value \<Rightarrow> value" where
  "decoded_as (VBool b) = VInt16 (if b then 1 else 0)"
| "decoded_as (VInt v) = VInt64 v"
| "decoded_as (VString s) = VString (bytes_string (trimNul (string_bytes s)))"
| "decoded_as (VNumeric s) = VString (bytes_string (trimNul (string_bytes s)))"
| "decoded_as (VBytes b) = (if b = [] then VNil else VBytes b)"
| "decoded_as (VTime t) = VTime (trunc_ms t)"
| "decoded_as (VLob l) = (case l of None \<Rightarrow> VNil | Some h \<Rightarrow> VLob (Some (h\<lparr>lob_writable := False\<rparr>)))"
| "decoded_as (VSlice vs) = VSlice (map decoded_as vs)"
| "decoded_as v = v"

text \<open>
  Values whose fields fit the wire: a time with its nanoseconds in range and a year that is an int16,
  a locator whose packed handle is its own, elements whose length is a 32-bit number.
\<close>

fun bindable :: "value \<Rightarrow> bool" where
  "bindable (VTime t) = (0 \<le> wall_nsec t \<and> wall_nsec t < 1000000000 \<and> -32768 \<le> Year t \<and> Year t \<le> 32767)"
| "bindable (VLob (Some l)) = lob_ok (lob_handle l)"
| "bindable (VSlice vs) = list_all (\<lambda>v. bindable v \<and> length (scalar_content v) < 2 ^ 32) vs"
| "bindable v = True"

lemma sint16_of_int: "-32768 \<le> k \<Longrightarrow> k \<le> 32767 \<Longrightarrow> sint (of_int k :: int16) = k"
  by (simp add: signed_of_int signed_take_bit_int_eq_self_iff)

lemma length_encodeDateTime [simp]: "length (encodeDateTime t) = 14"
  by (simp add: encodeDateTime_def)

lemma encodeDateTime_decodes:
  assumes "0 \<le> wall_nsec t" "wall_nsec t < 1000000000" "-32768 \<le> Year t" "Year t \<le> 32767"
  shows "decodeDateTime TypeDatetime (encodeDateTime t) = Inr (trunc_ms t)"
proof -
  let ?ms = "wall_nsec t div 1000000"
  let ?s = "\<lambda>k. sint (of_int k :: int16)"
  have ms: "0 \<le> ?ms" "?ms \<le> 999" using assms(1,2) by simp_all
  have f: "?s (Year t) = Year t" "?s (Month t) = Month t" "?s (Day t) = Day t" "?s (Hour t) = Hour t"
    "?s (Minute t) = Minute t" "?s (Second t) = Second t" "?s (Nanosecond t div 1000000) = ?ms"
    using assms ms Month_range [of t] Day_range [of t] clock_range [of t]
    by (simp_all add: sint16_of_int Nanosecond_def)
  let ?t = "t\<lparr>wall_nsec := ?ms * 1000000\<rparr>"
  have same: "Year ?t = Year t" "Month ?t = Month t" "Day ?t = Day t" "Hour ?t = Hour t"
    "Minute ?t = Minute t" "Second ?t = Second t"
    by (simp_all add: Year_def Month_def Day_def Hour_def Minute_def Second_def time_days_def)
  have "time_Date (Year t) (Month t) (Day t) (Hour t) (Minute t) (Second t) (?ms * 1000000) UTC =
      trunc_ms t"
    using time_Date_fields [of ?t UTC] ms by (simp add: same Nanosecond_def trunc_ms_def)
  then show ?thesis
    by (simp add: decodeDateTime_def type_codes dt_field_eq Let_def f)
      (simp add: encodeDateTime_def f)
qed

text \<open>The decoder at the wire types the encoder announces.\<close>

lemma decode_announced:
  "DecodeValue tz TypeShort b = (if length b < 2 then Inl ErrShortBuffer else Inr (VInt16 (get_u16 (take 2 b))))"
  "DecodeValue tz TypeInt b = (if length b < 4 then Inl ErrShortBuffer else Inr (VInt32 (get_u32 (take 4 b))))"
  "DecodeValue tz TypeBigint b = (if length b < 8 then Inl ErrShortBuffer else Inr (VInt64 (get_u64 (take 8 b))))"
  "DecodeValue tz TypeFloat b = (if length b < 4 then Inl ErrShortBuffer else Inr (VFloat32 (get_u32 (take 4 b))))"
  "DecodeValue tz TypeDouble b = (if length b < 8 then Inl ErrShortBuffer else Inr (VFloat64 (get_u64 (take 8 b))))"
  "DecodeValue tz TypeVarchar b = Inr (VString (bytes_string (trimNul b)))"
  "DecodeValue tz TypeVarbit b = Inr (VBytes b)"
  "DecodeValue tz TypeDatetime b = bindE (decodeDateTime TypeDatetime b) (\<lambda>t. Inr (VTime t))"
  unfolding DecodeValue_def
  by (simp_all add: decodeValue.simps [of tz _ b 0] type_codes BE_Uint16_def BE_Uint32_def BE_Uint64_def)

lemma scalar_content_Nil: "scalar v \<Longrightarrow> scalar_content v = [] \<longleftrightarrow> v = VNil \<or> v = VBytes []"
  by (cases v) (auto simp: scalar_def simp flip: length_0_conv)

lemma scalar_decodes:
  assumes "paramWireType v = Inr t" and "bindable v"
  shows "read_arg tz t (scalar_content v) = Inr (decoded_as v)"
proof (cases "scalar_content v = []")
  case True
  then show ?thesis using assms(1) scalar_content_Nil [of v] by (auto simp: read_arg_def scalar_def)
next
  case False
  with assms show ?thesis
    by (cases v) (auto simp: read_arg_def decode_announced encodeDateTime_decodes trimNul_snoc)
qed

subsection \<open>Collections\<close>

text \<open>The state of the vetting loop after a list of elements.\<close>

lemma collectionElemType_seen:
  "collectionElemType et True vs = Inr (et', seen') \<longleftrightarrow>
    et' = et \<and> seen' \<and> (\<forall>v \<in> set vs. v = VNil \<or> paramWireType v = Inr et)"
proof (induction vs)
  case (Cons v vs)
  then show ?case
    by (cases v) (auto simp: bindE_Inr_iff)
qed auto

lemma collectionElemType_unseen:
  "collectionElemType et False vs = Inr (et', seen') \<longleftrightarrow>
    (if \<forall>v \<in> set vs. v = VNil then et' = et \<and> \<not> seen'
     else seen' \<and> (\<forall>v \<in> set vs. v = VNil \<or> paramWireType v = Inr et'))"
proof (induction vs)
  case (Cons v vs)
  then show ?case
    by (cases v) (auto simp: bindE_Inr_iff collectionElemType_seen)
qed auto

lemma w_buf_encodeElems:
  "(\<And>v. v \<in> set vs \<Longrightarrow> scalar v) \<Longrightarrow>
   w_buf (encodeElems w vs) = w_buf w @ encode_args (map scalar_content vs)"
proof (induction vs arbitrary: w)
  case (Cons v vs)
  have "w_buf (encodeElems w (v # vs)) = w_buf (encodeElems (encodeScalarValue w v) vs)"
    by (cases v) simp_all
  with Cons w_buf_scalar [of v w] show ?case by simp
qed simp

definition homogeneous :: "value list \<Rightarrow> byte \<Rightarrow> bool" where
  "homogeneous vs t \<longleftrightarrow>
     (if vs = [] then t = TypeObject
      else (\<exists>v \<in> set vs. v \<noteq> VNil) \<and> (\<forall>v \<in> set vs. v = VNil \<or> paramWireType v = Inr t))"

lemma encodeCollectionParam_iff:
  "encodeCollectionParam w vs = Inr w' \<longleftrightarrow>
    (\<exists>t. homogeneous vs t \<and>
      w' = ArgBytes (ArgByte w TypeSequence) (Writer_Bytes (encodeElems (RawByte NewWriter t) vs)))"
  by (cases "vs = []")
    (auto simp: encodeCollectionParam_def bindE_Inr_iff collectionElemType_unseen homogeneous_def Let_def
      split: if_splits)

lemma homogeneous_scalar: "homogeneous vs t \<Longrightarrow> v \<in> set vs \<Longrightarrow> scalar v"
  by (auto simp: homogeneous_def scalar_def split: if_splits)

lemma w_buf_encodeCollectionParam:
  assumes "encodeCollectionParam w vs = Inr w'"
  obtains t where "homogeneous vs t"
    and "w_buf w' = w_buf w @ encode_args [[TypeSequence], t # encode_args (map scalar_content vs)]"
proof -
  from assms obtain t where h: "homogeneous vs t"
    and w': "w' = ArgBytes (ArgByte w TypeSequence) (Writer_Bytes (encodeElems (RawByte NewWriter t) vs))"
    by (auto simp: encodeCollectionParam_iff)
  have "w_buf (encodeElems (RawByte NewWriter t) vs) = [t] @ encode_args (map scalar_content vs)"
    using w_buf_encodeElems [OF homogeneous_scalar [OF h], of vs] by (simp add: wire_simps)
  with h that show ?thesis by (simp add: w' wire_simps)
qed

lemma encodeCollectionParam_panic_free: "panic_free (encodeCollectionParam w vs)"
proof -
  have "panic_free (collectionElemType et seen vs)" for et seen
  proof (induction vs arbitrary: et seen)
    case (Cons v vs)
    then show ?case by (cases v) (auto simp: panic_free_def)
  qed simp
  then show ?thesis
    unfolding encodeCollectionParam_def
    by (intro panic_free_bind) (auto simp: Let_def)
qed

text \<open>A bind parameter is always two arguments: the type byte and the value.\<close>

lemma EncodeParam_args:
  assumes "EncodeParam w v = Inr w'"
  shows "\<exists>t c. w_buf w' = w_buf w @ encode_args [[t], c]"
proof (cases "\<exists>vs. v = VSlice vs")
  case True
  with assms obtain vs where "encodeCollectionParam w vs = Inr w'" by (auto simp: EncodeParam_def)
  then show ?thesis by (rule w_buf_encodeCollectionParam) blast
next
  case False
  with assms obtain t where t: "paramWireType v = Inr t" and w': "w' = encodeScalarValue (ArgByte w t) v"
    by (cases v) (auto simp: EncodeParam_def)
  then have "scalar v" by (simp add: scalar_def)
  then show ?thesis by (auto simp: w' w_buf_scalar wire_simps)
qed

end
