(* ===== verification/Wire_Batch.thy ===== *)
theory Wire_Batch
  imports Wire_Requests
begin

section \<open>Batch requests and responses (protocol/batch.go)\<close>

text \<open>
  The two batch requests and their shared response: a count, then per statement either an affected
  row count or an isolated server error.
\<close>

record batch_result =
  br_AffectedRows :: int64
  br_Err :: "error option"

definition autoCommitByte :: "bool \<Rightarrow> byte" where
  "autoCommitByte b = (if b then 1 else 0)"

definition ExecuteBatchPrepRequest :: "writer \<Rightarrow> int32 \<Rightarrow> bool \<Rightarrow> version \<Rightarrow> writer" where
  "ExecuteBatchPrepRequest w hdl autoCommit ver =
     (let w = RawByte w FnExecuteBatchPrep;
          w = ArgInt w hdl;
          w = (if AtLeast ver ProtoV4 then ArgInt w 0 else w)
      in ArgByte w (autoCommitByte autoCommit))"

definition ExecuteBatchSQLRequest :: "writer \<Rightarrow> bool \<Rightarrow> string list \<Rightarrow> version \<Rightarrow> writer" where
  "ExecuteBatchSQLRequest w autoCommit sqls ver =
     (let w = RawByte w FnExecuteBatch;
          w = ArgByte w (autoCommitByte autoCommit);
          w = (if AtLeast ver ProtoV4 then ArgInt w 0 else w)
      in foldl ArgString w sqls)"

definition minBatchResultBytes :: nat where
  "minBatchResultBytes = 12"

text \<open>One iteration of the loop of \<^verbatim>\<open>ParseBatchResponse\<close>.\<close>

definition ParseBatchResult :: "bool \<Rightarrow> reader \<Rightarrow> error + batch_result \<times> reader" where
  "ParseBatchResult withStmtType r =
     bindE (if withStmtType then Reader_Byte r else Inr (0, r)) (\<lambda>(_, r).
     bindE (Int32 r) (\<lambda>(res, r).
       if sint res < 0 then
         bindE (Int32 r) (\<lambda>(code, r).
         bindE (Reader_String r) (\<lambda>(msg, r).
           Inr (\<lparr>br_AffectedRows = 0, br_Err = Some (ServerError code msg)\<rparr>, r)))
       else
         bindE (Int32 r) (\<lambda>(_, r).
         bindE (Int16 r) (\<lambda>(_, r).
         bindE (Int16 r) (\<lambda>(_, r).
           Inr (\<lparr>br_AffectedRows = scast res, br_Err = None\<rparr>, r))))))"

definition ParseBatchResponse :: "version \<Rightarrow> bool \<Rightarrow> reader \<Rightarrow> error + batch_result list \<times> reader" where
  "ParseBatchResponse ver withStmtType r =
     bindE (Int32 r) (\<lambda>(n, r).
       if sint n < 0 \<or> sint n * int minBatchResultBytes > Remaining r
       then Inl (Errorf ''cubrid/protocol: invalid batch result count %d (%d bytes remaining)''
                   [EInt (sint n), EInt (Remaining r)])
       else bindE (parse_loop (\<lambda>_. ParseBatchResult withStmtType) 0 (nat (sint n)) r) (\<lambda>(out, r).
              if AtLeast ver ProtoV5 then bindE (Int32 r) (\<lambda>(_, r). Inr (out, r))
              else Inr (out, r)))"

subsection \<open>Safety and the allocation guard\<close>

interpretation ParseBatchResult: wire_parser "ParseBatchResult st"
  unfolding ParseBatchResult_def by (intro parser_safe) 

interpretation batch_loop: counted_parser "\<lambda>_. ParseBatchResult st" minBatchResultBytes
proof (rule counted_parserI)
  show "wire_parser (ParseBatchResult st)" by (rule ParseBatchResult.wire_parser_axioms)
  show "consumes_at_least (ParseBatchResult st) minBatchResultBytes"
    unfolding ParseBatchResult_def minBatchResultBytes_def
    by (rule consumes_skip, intro parser_safe) (intro consumes_if consumes_reads consumes_done; simp)
qed

text \<open>The parser as a whole, in the form the connection calls it.\<close>

interpretation ParseBatchResponse: wire_parser "ParseBatchResponse ver st"
  unfolding ParseBatchResponse_def
  by (intro parser_safe ParseBatchResult.wire_parser_axioms) simp_all

lemmas [parser_safe] = ParseBatchResult.wire_parser_axioms ParseBatchResponse.wire_parser_axioms

subsection \<open>The response layout\<close>

text \<open>
  What a broker sends per statement: \<open>Inr n\<close> for \<open>n\<close> affected rows, \<open>Inl (code, msg)\<close> for a
  statement that failed, after an indicator that is negative.
\<close>

type_synonym outcome = "(int32 \<times> string) + int32"

fun outcome_ok :: "outcome \<Rightarrow> bool" where
  "outcome_ok (Inr n) = (0 \<le> sint n)"
| "outcome_ok (Inl (code, msg)) = (length msg < 2147483647)"

fun outcome_bytes :: "bool \<Rightarrow> outcome \<Rightarrow> bytes" where
  "outcome_bytes st (Inr n) =
     (if st then [20] else []) @ put_u32 n @ put_u32 0 @ put_u16 0 @ put_u16 0"
| "outcome_bytes st (Inl (code, msg)) =
     (if st then [20] else []) @ put_u32 (-1) @ put_u32 code @ put_string msg"

fun outcome_result :: "outcome \<Rightarrow> batch_result" where
  "outcome_result (Inr n) = \<lparr>br_AffectedRows = scast n, br_Err = None\<rparr>"
| "outcome_result (Inl (code, msg)) = \<lparr>br_AffectedRows = 0, br_Err = Some (ServerError code msg)\<rparr>"

definition batch_bytes :: "version \<Rightarrow> bool \<Rightarrow> outcome list \<Rightarrow> bytes" where
  "batch_bytes ver st os =
     put_u32 (of_nat (length os)) @ concat (map (outcome_bytes st) os) @
     (if ver \<ge> 5 then put_u32 0 else [])"

lemma parses_stmt_type:
  "parses (\<lambda>r. if st then Reader_Byte r else Inr (0, r)) (if st then [20] else []) (if st then 20 else 0)"
  by (cases st) (simp_all add: parses_Byte parses_return)

lemma parses_ParseBatchResult:
  assumes "outcome_ok os"
  shows "parses (ParseBatchResult st) (outcome_bytes st os) (outcome_result os)"
proof (cases os)
  case (Inr n)
  with assms have n: "\<not> sint n < 0" by simp
  have "parses (ParseBatchResult st)
      ((if st then [20] else []) @ put_u32 n @ put_u32 0 @ put_u16 0 @ put_u16 0 @ [])
      \<lparr>br_AffectedRows = scast n, br_Err = None\<rparr>"
    unfolding ParseBatchResult_def
    by (rule parses_bind [OF parses_stmt_type] parses_bind [OF parses_Int32] parses_if_False [OF n]
        parses_bind [OF parses_Int16] parses_return)+
  with Inr show ?thesis by simp
next
  case (Inl p)
  obtain code msg where p: "p = (code, msg)" by (cases p)
  with assms Inl have msg: "length msg < 2147483647" by simp
  have neg: "sint (-1 :: int32) < 0" by simp
  have "parses (ParseBatchResult st)
      ((if st then [20] else []) @ put_u32 (-1) @ put_u32 code @ put_string msg @ [])
      \<lparr>br_AffectedRows = 0, br_Err = Some (ServerError code msg)\<rparr>"
    unfolding ParseBatchResult_def
    by (rule parses_bind [OF parses_stmt_type] parses_bind [OF parses_Int32] parses_if_True [OF neg]
        parses_bind [OF parses_String [OF msg]] parses_return)+
  with Inl p show ?thesis by simp
qed

lemma length_outcome_bytes: "12 \<le> length (outcome_bytes st os)"
  by (cases "(st, os)" rule: outcome_bytes.cases) (auto simp: put_string_def)

lemma length_batch_body: "12 * length os \<le> length (concat (map (outcome_bytes st) os))"
proof (induction os)
  case (Cons o' os)
  then show ?case using length_outcome_bytes [of st o'] by simp
qed simp

text \<open>The trailing shard id, and the loop followed by it.\<close>

lemma parses_batch_tail:
  "parses (\<lambda>r. if AtLeast ver ProtoV5 then bindE (Int32 r) (\<lambda>(_, r). Inr (out, r)) else Inr (out, r))
    (if ver \<ge> 5 then put_u32 0 else []) out"
proof -
  have "parses (\<lambda>r. bindE (Int32 r) (\<lambda>(_, r). Inr (out, r))) (put_u32 0 @ []) out"
    by (rule parses_bind [OF parses_Int32 parses_return])
  then show ?thesis by (simp add: AtLeast_def proto_versions parses_return)
qed

lemma parses_batch_loop:
  assumes "\<And>x. x \<in> set os \<Longrightarrow> outcome_ok x" and "n = length os"
  shows "parses (\<lambda>r. parse_loop (\<lambda>_. ParseBatchResult st) 0 n r)
    (concat (map (outcome_bytes st) os)) (map outcome_result os)"
  using parses_loop [of "map (outcome_bytes st) os" "map outcome_result os" "\<lambda>_. ParseBatchResult st" 0]
  by (simp add: parses_ParseBatchResult assms)

lemma parses_ParseBatchResponse:
  assumes "length os < 2147483648" and "\<And>x. x \<in> set os \<Longrightarrow> outcome_ok x"
  shows "parses (ParseBatchResponse ver st) (batch_bytes ver st os) (map outcome_result os)"
  unfolding parses_def
proof (intro allI impI)
  fix r tail
  assume ok: "reader_ok r" and rem: "rem_bytes r = batch_bytes ver st os @ tail"
  let ?body = "concat (map (outcome_bytes st) os)" and ?shard = "if ver \<ge> 5 then put_u32 0 else []"
  have n: "sint (of_nat (length os) :: int32) = int (length os)" using assms(1) by simp
  have i: "Int32 r = Inr (of_nat (length os), advance 4 r)"
    using ok rem by (simp add: Int32_eq batch_bytes_def)
  have ok4: "reader_ok (advance 4 r)" and rem4: "rem_bytes (advance 4 r) = ?body @ ?shard @ tail"
    using ok rem by (simp_all add: batch_bytes_def)
  have g: "int (length os) * int minBatchResultBytes \<le> Remaining (advance 4 r)"
    using ok4 rem4 length_batch_body [of os st] by (simp add: Remaining_eq minBatchResultBytes_def)
  let ?r = "advance (4 + length ?body) r"
  have loop: "parse_loop (\<lambda>_. ParseBatchResult st) 0 (length os) (advance 4 r) =
      Inr (map outcome_result os, ?r)"
    using parsesD [OF parses_batch_loop [OF assms(2) refl] ok4 rem4] by simp
  have "reader_ok ?r" and "rem_bytes ?r = ?shard @ tail"
    using ok rem by (simp_all add: batch_bytes_def)
  note fin = parsesD [OF parses_batch_tail this]
  show "ParseBatchResponse ver st r =
      Inr (map outcome_result os, advance (length (batch_bytes ver st os)) r)"
    unfolding ParseBatchResponse_def i bindE.simps prod.case n
    using g by (simp add: loop fin batch_bytes_def add.assoc)
qed

end
