(* ===== verification/Wire_Frame.thy ===== *)
theory Wire_Frame
  imports Wire_Parser
begin

section \<open>Framing (protocol/frame.go)\<close>

text \<open>
  Every message is an 8-byte header (big-endian payload length, four \<^verbatim>\<open>casInfo\<close> bytes) followed by
  the payload. The incoming side of a socket is a \<open>stream\<close>: the bytes that will arrive, then the
  error a further read gets (\<^verbatim>\<open>io.EOF\<close>, a timeout, a reset). \<^verbatim>\<open>io.ReadFull\<close> is modelled on it.
\<close>

subsection \<open>Streams\<close>

record stream =
  s_in :: bytes
  s_end :: error

definition ReadFull :: "stream \<Rightarrow> nat \<Rightarrow> (error + bytes) \<times> stream" where
  "ReadFull s n =
     (if n \<le> length (s_in s) then (Inr (take n (s_in s)), s\<lparr>s_in := drop n (s_in s)\<rparr>)
      else (Inl (if s_end s = EOF \<and> s_in s \<noteq> [] then ErrUnexpectedEOF else s_end s), s\<lparr>s_in := []\<rparr>))"

lemma ReadFull_append: "length a = n \<Longrightarrow> ReadFull (s\<lparr>s_in := a @ b\<rparr>) n = (Inr a, s\<lparr>s_in := b\<rparr>)"
  by (auto simp: ReadFull_def)

subsection \<open>Requests and responses\<close>

definition maxPayloadSize :: nat where
  "maxPayloadSize = 2 ^ 28"

definition CASInfoFlagAutocommit :: byte where
  "CASInfoFlagAutocommit = 1"

text \<open>The bytes \<^verbatim>\<open>WriteRequest\<close> hands to the single \<^verbatim>\<open>w.Write\<close> call.\<close>

definition WriteRequest :: "bytes \<Rightarrow> bytes \<Rightarrow> bytes" where
  "WriteRequest payload casInfo =
     (let hdr = put_u32 (of_nat (length payload)) @ casInfo in hdr @ payload)"

definition ReadResponse :: "stream \<Rightarrow> (error + bytes \<times> bytes) \<times> stream" where
  "ReadResponse s =
     (case ReadFull s 8 of
        (Inl e, s) \<Rightarrow> (Inl e, s)
      | (Inr hdr, s) \<Rightarrow>
          (let n = unat (get_u32 (take 4 hdr))
           in if n > maxPayloadSize
              then (Inl (Errorf ''cubrid/protocol: payload length %d exceeds limit'' [EInt (int n)]), s)
              else let casInfo = drop 4 hdr in
                (case ReadFull s n of
                   (Inl e, s) \<Rightarrow> (Inl e, s)
                 | (Inr payload, s) \<Rightarrow> (Inr (payload, casInfo), s))))"

lemma length_WriteRequest: "length casInfo = 4 \<Longrightarrow> length (WriteRequest p casInfo) = 8 + length p"
  by (simp add: WriteRequest_def)

lemma ReadResponse_frame:
  assumes "length casInfo = 4" and "length payload \<le> maxPayloadSize"
  shows "ReadResponse (s\<lparr>s_in := WriteRequest payload casInfo @ rest\<rparr>) =
    (Inr (payload, casInfo), s\<lparr>s_in := rest\<rparr>)"
proof -
  let ?hdr = "put_u32 (of_nat (length payload)) @ casInfo"
  have bytes: "WriteRequest payload casInfo @ rest = ?hdr @ payload @ rest"
    by (simp add: WriteRequest_def)
  have h: "ReadFull (s\<lparr>s_in := ?hdr @ payload @ rest\<rparr>) 8 = (Inr ?hdr, s\<lparr>s_in := payload @ rest\<rparr>)"
    using assms(1) by (intro ReadFull_append) simp
  have n: "unat (of_nat (length payload) :: int32) = length payload"
    using assms(2) by (simp add: maxPayloadSize_def)
  have p: "ReadFull (s\<lparr>s_in := payload @ rest\<rparr>) (length payload) = (Inr payload, s\<lparr>s_in := rest\<rparr>)"
    by (rule ReadFull_append) simp
  show ?thesis
    unfolding ReadResponse_def bytes h
    using assms(2) by (simp add: n p Let_def)
qed

text \<open>
  The error branches: a header announcing more than the limit is refused before any payload byte
  is read or any payload buffer made.
\<close>

lemma ReadResponse_oversized:
  assumes "length hdr = 8" and "unat (get_u32 (take 4 hdr)) > maxPayloadSize"
  shows "ReadResponse (s\<lparr>s_in := hdr @ rest\<rparr>) =
    (Inl (Errorf ''cubrid/protocol: payload length %d exceeds limit''
            [EInt (int (unat (get_u32 (take 4 hdr))))]), s\<lparr>s_in := rest\<rparr>)"
  unfolding ReadResponse_def ReadFull_append [OF assms(1)] using assms(2) by (simp add: Let_def)

lemma ReadResponse_bounded:
  assumes "ReadResponse s = (Inr (payload, ci), s')"
  shows "length payload \<le> maxPayloadSize \<and> length ci = 4 \<and>
    s_in s = put_u32 (of_nat (length payload)) @ ci @ payload @ s_in s'"
proof -
  define hdr where hdr: "hdr = take 8 (s_in s)"
  from assms have len: "8 \<le> length (s_in s)"
    by (auto simp: ReadResponse_def ReadFull_def split: if_splits)
  let ?n = "unat (get_u32 (take 4 hdr))"
  have h: "ReadFull s 8 = (Inr hdr, s\<lparr>s_in := drop 8 (s_in s)\<rparr>)"
    using len by (simp add: ReadFull_def hdr)
  from assms have small: "?n \<le> maxPayloadSize" and enough: "?n \<le> length (s_in s) - 8"
    and payload: "payload = take ?n (drop 8 (s_in s))" and ci: "ci = drop 4 hdr"
    and s': "s_in s' = drop ?n (drop 8 (s_in s))"
    by (auto simp: ReadResponse_def h Let_def ReadFull_def [of "s\<lparr>s_in := x\<rparr>" for x] split: if_splits)
  have l: "length payload = ?n" using enough by (simp add: payload)
  have "put_u32 (of_nat ?n) = take 4 hdr"
    using len be32.put_get [of "take 4 hdr"] by (simp add: hdr)
  moreover have "s_in s = take 4 hdr @ drop 4 hdr @ payload @ s_in s'"
    by (simp only: hdr payload s' append_take_drop_id append_assoc [symmetric])
  ultimately have "s_in s = put_u32 (of_nat ?n) @ ci @ payload @ s_in s'"
    by (simp only: ci)
  moreover have "length ci = 4" using len by (simp add: ci hdr)
  ultimately show ?thesis using small by (simp only: l)
qed

end
