(* ===== verification/Go_Strings.thy ===== *)
theory Go_Strings
  imports Go_Prelude
begin

section \<open>Strings: decimal numbers and byte search (strconv, strings)\<close>

text \<open>
  The parts of Go's \<^verbatim>\<open>strconv\<close> and \<^verbatim>\<open>strings\<close> that the driver uses: \<^verbatim>\<open>Itoa\<close>, \<^verbatim>\<open>Atoi\<close>,
  \<^verbatim>\<open>IndexByte\<close>, \<^verbatim>\<open>LastIndexByte\<close>, \<^verbatim>\<open>Split\<close>.
\<close>

subsection \<open>Decimal rendering and parsing\<close>

definition digit_char :: "nat \<Rightarrow> char" where
  "digit_char d = char_of (48 + d)"

definition char_digit :: "char \<Rightarrow> nat option" where
  "char_digit c = (let k = of_char c in if 48 \<le> k \<and> k \<le> (57 :: nat) then Some (k - 48) else None)"

fun nat_decimal :: "nat \<Rightarrow> string" where
  "nat_decimal n = (if n < 10 then [digit_char n] else nat_decimal (n div 10) @ [digit_char (n mod 10)])"

declare nat_decimal.simps [simp del]

definition Itoa :: "int \<Rightarrow> string" where
  "Itoa i = (if i < 0 then CHR ''-'' # nat_decimal (nat (- i)) else nat_decimal (nat i))"

fun digits_value :: "nat \<Rightarrow> string \<Rightarrow> nat option" where
  "digits_value acc [] = Some acc"
| "digits_value acc (c # cs) =
     (case char_digit c of None \<Rightarrow> None | Some d \<Rightarrow> digits_value (10 * acc + d) cs)"

text \<open>\<^verbatim>\<open>strconv.Atoi\<close>: an optional sign, at least one digit, and a value in the range of int.\<close>

definition Atoi :: "string \<Rightarrow> int option" where
  "Atoi s =
     (let (neg, ds) = (case s of
         c # cs \<Rightarrow> if c = CHR ''-'' then (True, cs) else if c = CHR ''+'' then (False, cs) else (False, s)
       | [] \<Rightarrow> (False, []))
      in if ds = [] then None
         else case digits_value 0 ds of
           None \<Rightarrow> None
         | Some n \<Rightarrow> (let i = (if neg then - int n else int n)
                      in if - (2 ^ 63) \<le> i \<and> i < 2 ^ 63 then Some i else None))"

lemma char_digit_digit_char [simp]: "d < 10 \<Longrightarrow> char_digit (digit_char d) = Some d"
  by (simp add: char_digit_def digit_char_def Let_def)

lemma digits_value_append:
  "digits_value acc (a @ b) = (case digits_value acc a of None \<Rightarrow> None | Some v \<Rightarrow> digits_value v b)"
  by (induction a arbitrary: acc) (simp_all split: option.split)

lemma digits_value_decimal: "digits_value 0 (nat_decimal n) = Some n"
proof (induction n rule: nat_decimal.induct)
  case (1 n)
  then show ?case
    by (cases "n < 10") (simp_all add: nat_decimal.simps [of n] digits_value_append)
qed

lemma nat_decimal_not_Nil [simp]: "nat_decimal n \<noteq> []"
  by (subst nat_decimal.simps) simp

definition is_decimal :: "char \<Rightarrow> bool" where
  "is_decimal c \<longleftrightarrow> 48 \<le> (of_char c :: nat) \<and> (of_char c :: nat) \<le> 57"

lemma digit_char_range: "d < 10 \<Longrightarrow> is_decimal (digit_char d)"
  by (simp add: is_decimal_def digit_char_def)

lemma set_nat_decimal: "c \<in> set (nat_decimal n) \<Longrightarrow> is_decimal c"
proof (induction n rule: nat_decimal.induct)
  case (1 n)
  then show ?case
    by (cases "n < 10") (auto simp: nat_decimal.simps [of n] digit_char_range)
qed

lemma not_decimal [simp]:
  "\<not> is_decimal (CHR ''-'')" "\<not> is_decimal (CHR ''+'')" "\<not> is_decimal (CHR '':'')"
  "\<not> is_decimal (CHR ''['')" "\<not> is_decimal (CHR '']'')"
  by (simp_all add: is_decimal_def)

lemma hd_nat_decimal_not_sign: "hd (nat_decimal n) \<noteq> CHR ''-'' \<and> hd (nat_decimal n) \<noteq> CHR ''+''"
  using set_nat_decimal [of "hd (nat_decimal n)" n] by (auto simp: hd_in_set)

lemma Atoi_Itoa: "- (2 ^ 63) \<le> i \<Longrightarrow> i < 2 ^ 63 \<Longrightarrow> Atoi (Itoa i) = Some i"
proof (cases "i < 0")
  case True
  assume "- (2 ^ 63) \<le> i" "i < 2 ^ 63"
  with True show ?thesis by (simp add: Itoa_def Atoi_def digits_value_decimal)
next
  case False
  assume r: "- (2 ^ 63) \<le> i" "i < 2 ^ 63"
  obtain c cs where d: "nat_decimal (nat i) = c # cs"
    by (cases "nat_decimal (nat i)") simp_all
  with hd_nat_decimal_not_sign [of "nat i"] have c: "c \<noteq> CHR ''-''" "c \<noteq> CHR ''+''" by simp_all
  have v: "digits_value 0 (c # cs) = Some (nat i)"
    using digits_value_decimal [of "nat i"] by (simp only: d)
  from False r show ?thesis
    unfolding Itoa_def Atoi_def using c v by (simp add: d del: digits_value.simps)
qed

text \<open>\<^verbatim>\<open>%03d\<close>.\<close>

definition pad3 :: "nat \<Rightarrow> string" where
  "pad3 n = (let s = nat_decimal n in replicate (3 - length s) (CHR ''0'') @ s)"

subsection \<open>Searching\<close>

fun IndexByte :: "string \<Rightarrow> char \<Rightarrow> int" where
  "IndexByte [] c = -1"
| "IndexByte (x # xs) c =
     (if x = c then 0 else let i = IndexByte xs c in if i < 0 then -1 else i + 1)"

definition LastIndexByte :: "string \<Rightarrow> char \<Rightarrow> int" where
  "LastIndexByte s c =
     (let i = IndexByte (rev s) c in if i < 0 then -1 else int (length s) - 1 - i)"

lemma IndexByte_neg: "IndexByte s c < 0 \<longleftrightarrow> c \<notin> set s"
  by (induction s) (auto simp: Let_def)

lemma IndexByte_ge: "IndexByte s c \<ge> 0 \<longleftrightarrow> c \<in> set s"
  using IndexByte_neg [of s c] by linarith

lemma IndexByte_append: "c \<notin> set a \<Longrightarrow> IndexByte (a @ c # b) c = int (length a)"
  by (induction a) (auto simp: Let_def)

lemma IndexByte_first: "0 \<le> IndexByte s c \<Longrightarrow> c \<notin> set (take (nat (IndexByte s c)) s)"
  by (induction s) (auto simp: Let_def nat_add_distrib split: if_splits)

lemma LastIndexByte_append: "c \<notin> set b \<Longrightarrow> LastIndexByte (a @ c # b) c = int (length a)"
  by (simp add: LastIndexByte_def IndexByte_append Let_def)

lemma LastIndexByte_neg: "LastIndexByte s c < 0 \<longleftrightarrow> c \<notin> set s"
proof (cases "c \<in> set s")
  case True
  then obtain a b where "s = a @ c # b" "c \<notin> set b" by (meson split_list_last)
  then show ?thesis by (simp add: LastIndexByte_append)
next
  case False
  then show ?thesis by (simp add: LastIndexByte_def Let_def IndexByte_neg)
qed

text \<open>\<^verbatim>\<open>strings.Split(s, sep)\<close> for a one-byte separator.\<close>

fun Split :: "string \<Rightarrow> char \<Rightarrow> string list" where
  "Split [] sep = [[]]"
| "Split (c # cs) sep =
     (if c = sep then [] # Split cs sep
      else case Split cs sep of [] \<Rightarrow> [[c]] | p # ps \<Rightarrow> (c # p) # ps)"

subsection \<open>strings.TrimSpace\<close>

text \<open>
  The UTF-8 encodings of the code points for which \<^verbatim>\<open>unicode.IsSpace\<close> holds.
\<close>

definition space_runes :: "string list" where
  "space_runes =
     [[CHR 0x09], [CHR 0x0A], [CHR 0x0B], [CHR 0x0C], [CHR 0x0D], [CHR 0x20],
      [CHR 0xC2, CHR 0x85], [CHR 0xC2, CHR 0xA0], [CHR 0xE1, CHR 0x9A, CHR 0x80],
      [CHR 0xE2, CHR 0x80, CHR 0x80], [CHR 0xE2, CHR 0x80, CHR 0x81], [CHR 0xE2, CHR 0x80, CHR 0x82],
      [CHR 0xE2, CHR 0x80, CHR 0x83], [CHR 0xE2, CHR 0x80, CHR 0x84], [CHR 0xE2, CHR 0x80, CHR 0x85],
      [CHR 0xE2, CHR 0x80, CHR 0x86], [CHR 0xE2, CHR 0x80, CHR 0x87], [CHR 0xE2, CHR 0x80, CHR 0x88],
      [CHR 0xE2, CHR 0x80, CHR 0x89], [CHR 0xE2, CHR 0x80, CHR 0x8A], [CHR 0xE2, CHR 0x80, CHR 0xA8],
      [CHR 0xE2, CHR 0x80, CHR 0xA9], [CHR 0xE2, CHR 0x80, CHR 0xAF], [CHR 0xE2, CHR 0x81, CHR 0x9F],
      [CHR 0xE3, CHR 0x80, CHR 0x80]]"

definition space_prefix :: "string list \<Rightarrow> string \<Rightarrow> string option" where
  "space_prefix runes s = List.find (\<lambda>r. r \<noteq> [] \<and> take (length r) s = r) runes"

lemma space_prefix_length: "space_prefix runes s = Some r \<Longrightarrow> 0 < length r \<and> length r \<le> length s"
  unfolding space_prefix_def by (auto simp: find_Some_iff) (metis length_take min.bounded_iff order_refl)

function trim_left :: "string list \<Rightarrow> string \<Rightarrow> string" where
  "trim_left runes s =
     (case space_prefix runes s of None \<Rightarrow> s | Some r \<Rightarrow> trim_left runes (drop (length r) s))"
  by auto
termination
proof (relation "measure (\<lambda>(_, s). length s)")
  fix runes s r
  assume "space_prefix runes s = Some r"
  then show "((runes, drop (length r) s), runes, s) \<in> measure (\<lambda>(_, s). length s)"
    using space_prefix_length [of runes s r] by (cases r; cases s) simp_all
qed simp

declare trim_left.simps [simp del]

definition TrimSpace :: "string \<Rightarrow> string" where
  "TrimSpace s = rev (trim_left (map rev space_runes) (rev (trim_left space_runes s)))"

end
