(* ===== verification/Config.thy ===== *)
theory Config
  imports Go_Strings "HOL-Library.Multiset"
begin

section \<open>Connection configuration (cubrid/config.go)\<close>

text \<open>
  The configuration record and the parsing of standby broker addresses, with the parts of Go's
  \<^verbatim>\<open>net\<close> package they use (\<^verbatim>\<open>SplitHostPort\<close>, \<^verbatim>\<open>JoinHostPort\<close>).
\<close>

definition DefaultPort :: int where "DefaultPort = 33000"
definition DefaultFetchSize :: int where "DefaultFetchSize = 100"

text \<open>Durations are in nanoseconds, as in Go.\<close>

record config =
  cfg_Host :: string
  cfg_Port :: int
  cfg_Database :: string
  cfg_User :: string
  cfg_Password :: string
  cfg_FetchSize :: int
  cfg_ConnectTimeout :: int
  cfg_AltHosts :: "string list"
  cfg_SSL :: bool
  cfg_SSLVerify :: bool

subsection \<open>net.SplitHostPort and net.JoinHostPort\<close>

text \<open>The error is the text of Go's \<^verbatim>\<open>net.AddrError\<close>.\<close>

definition SplitHostPort :: "string \<Rightarrow> string + string \<times> string" where
  "SplitHostPort hostport =
     (let i = LastIndexByte hostport (CHR '':'') in
      if i < 0 then Inl ''missing port in address''
      else
       bindE
        (if hd hostport = CHR ''['' then
           (let e = IndexByte hostport (CHR '']'') in
            if e < 0 then Inl ''missing ']' in address''
            else if e + 1 = int (length hostport) then Inl ''missing port in address''
            else if e + 1 = i then Inr (take (nat e - 1) (drop 1 hostport), 1, nat (e + 1))
            else if hostport ! nat (e + 1) = CHR '':'' then Inl ''too many colons in address''
            else Inl ''missing port in address'')
         else
           (let host = take (nat i) hostport in
            if IndexByte host (CHR '':'') \<ge> 0 then Inl ''too many colons in address''
            else Inr (host, 0, 0)))
        (\<lambda>(host, j, k).
          if IndexByte (drop j hostport) (CHR ''['') \<ge> 0 then Inl ''unexpected '[' in address''
          else if IndexByte (drop k hostport) (CHR '']'') \<ge> 0 then Inl ''unexpected ']' in address''
          else Inr (host, drop (nat (i + 1)) hostport)))"

definition JoinHostPort :: "string \<Rightarrow> string \<Rightarrow> string" where
  "JoinHostPort host p =
     (if IndexByte host (CHR '':'') \<ge> 0 then ''['' @ host @ '']:'' @ p else host @ '':'' @ p)"

text \<open>\<^verbatim>\<open>strings.Contains(aerr.Err, "missing port")\<close>: only one of the reasons has that text.\<close>

definition is_missing_port :: "string \<Rightarrow> bool" where
  "is_missing_port why \<longleftrightarrow> (\<exists>n \<le> length why. take 12 (drop n why) = ''missing port'')"

subsection \<open>splitAltHost\<close>

definition splitAltHost :: "string \<Rightarrow> error + string \<times> int" where
  "splitAltHost s =
     (case SplitHostPort s of
        Inl why \<Rightarrow>
          if \<not> is_missing_port why then Inl (Errorf ''cubrid: invalid altHosts entry %q'' [EStr s])
          else let host = (if s \<noteq> [] \<and> hd s = CHR ''['' \<and> last s = CHR '']''
                           then butlast (tl s) else s)
               in if host = [] then Inl (Errorf ''cubrid: invalid altHosts entry %q: empty host'' [EStr s])
                  else if CHR ''['' \<in> set host \<or> CHR '']'' \<in> set host
                  then Inl (Errorf ''cubrid: invalid altHosts entry %q: stray bracket'' [EStr s])
                  else Inr (host, DefaultPort)
      | Inr (host, portStr) \<Rightarrow>
          if host = [] then Inl (Errorf ''cubrid: invalid altHosts entry %q: empty host'' [EStr s])
          else case Atoi portStr of
            None \<Rightarrow> Inl (Errorf ''cubrid: invalid altHosts entry %q: bad port'' [EStr s])
          | Some p \<Rightarrow> if p \<le> 0 \<or> p > 65535
                      then Inl (Errorf ''cubrid: invalid altHosts entry %q: bad port'' [EStr s])
                      else Inr (host, p))"

subsection \<open>ParseDSN\<close>

text \<open>
  The result of \<^verbatim>\<open>url.Parse\<close>, as its accessors give it. \<^verbatim>\<open>u_Query\<close> lists the entries of the
  map \<^verbatim>\<open>u.Query()\<close> in the order in which one run of Go's \<^verbatim>\<open>range\<close> visits them, which the language
  leaves open.
\<close>

record url =
  u_Scheme :: string
  u_Hostname :: string
  u_Port :: string
  u_Path :: string
  u_User :: "(string \<times> string option) option"
  u_Query :: "(string \<times> string list) list"

definition TrimPrefix :: "string \<Rightarrow> string \<Rightarrow> string" where
  "TrimPrefix s pre = (if take (length pre) s = pre then drop (length pre) s else s)"

definition ParseBool :: "string \<Rightarrow> bool option" where
  "ParseBool s =
     (if s \<in> {''1'', ''t'', ''T'', ''true'', ''TRUE'', ''True''} then Some True
      else if s \<in> {''0'', ''f'', ''F'', ''false'', ''FALSE'', ''False''} then Some False
      else None)"

text \<open>
  One entry of the query. \<^verbatim>\<open>dur\<close> stands for \<^verbatim>\<open>time.ParseDuration\<close>, whose fraction arithmetic is in
  floating point: only whether it succeeds, and its result, matter here.
\<close>

fun parse_altHosts :: "string list \<Rightarrow> error + string list" where
  "parse_altHosts [] = Inr []"
| "parse_altHosts (e # es) =
     bindE (splitAltHost (TrimSpace e)) (\<lambda>(host, port).
     bindE (parse_altHosts es) (\<lambda>rest.
       Inr (JoinHostPort host (Itoa port) # rest)))"

definition dsn_param :: "(string \<Rightarrow> int option) \<Rightarrow> string \<Rightarrow> string list \<Rightarrow> config \<Rightarrow> error + config" where
  "dsn_param dur k vs cfg =
     bindE (go_index vs (int (length vs) - 1)) (\<lambda>v.
       if k = ''fetch_size'' then
         (case Atoi v of
            None \<Rightarrow> Inl (Errorf ''cubrid: invalid fetch_size %q'' [EStr v])
          | Some n \<Rightarrow> if n \<le> 0 then Inl (Errorf ''cubrid: invalid fetch_size %q'' [EStr v])
                      else Inr (cfg\<lparr>cfg_FetchSize := n\<rparr>))
       else if k = ''connect_timeout'' then
         (case dur v of
            None \<Rightarrow> Inl (Errorf ''cubrid: invalid connect_timeout %q'' [EStr v])
          | Some d \<Rightarrow> if d < 0 then Inl (Errorf ''cubrid: invalid connect_timeout %q'' [EStr v])
                      else Inr (cfg\<lparr>cfg_ConnectTimeout := d\<rparr>))
       else if k = ''ssl'' then
         (case ParseBool v of
            None \<Rightarrow> Inl (Errorf ''cubrid: invalid ssl %q'' [EStr v])
          | Some b \<Rightarrow> Inr (cfg\<lparr>cfg_SSL := b\<rparr>))
       else if k = ''altHosts'' then
         bindE (parse_altHosts (Split v (CHR '',''))) (\<lambda>hs.
           Inr (cfg\<lparr>cfg_AltHosts := cfg_AltHosts cfg @ hs\<rparr>))
       else if k = ''ssl_verify'' then
         (case ParseBool v of
            None \<Rightarrow> Inl (Errorf ''cubrid: invalid ssl_verify %q'' [EStr v])
          | Some b \<Rightarrow> Inr (cfg\<lparr>cfg_SSLVerify := b\<rparr>))
       else Inl (Errorf ''cubrid: unknown DSN parameter %q'' [EStr k]))"

fun dsn_params :: "(string \<Rightarrow> int option) \<Rightarrow> (string \<times> string list) list \<Rightarrow> config \<Rightarrow> error + config" where
  "dsn_params dur [] cfg = Inr cfg"
| "dsn_params dur ((k, vs) # q) cfg = bindE (dsn_param dur k vs cfg) (dsn_params dur q)"

definition ParseDSN :: "(string \<Rightarrow> error + url) \<Rightarrow> (string \<Rightarrow> int option) \<Rightarrow> string \<Rightarrow> error + config" where
  "ParseDSN url_Parse dur dsn =
     bindE (wrapE ''cubrid: invalid DSN: %w'' [] (url_Parse dsn)) (\<lambda>u.
     if u_Scheme u \<noteq> ''cubrid''
     then Inl (Errorf ''cubrid: DSN scheme must be cubrid://, got %q'' [EStr (u_Scheme u)])
     else if u_Hostname u = [] then Inl (Errorf ''cubrid: DSN missing host'' [])
     else
      bindE (if u_Port u = [] then Inr DefaultPort
             else case Atoi (u_Port u) of
               None \<Rightarrow> Inl (Errorf ''cubrid: invalid port %q'' [EStr (u_Port u)])
             | Some p \<Rightarrow> Inr p) (\<lambda>port.
      let database = TrimPrefix (u_Path u) ''/'' in
      if database = [] \<or> CHR ''/'' \<in> set database
      then Inl (Errorf ''cubrid: DSN must name exactly one database, got path %q'' [EStr (u_Path u)])
      else
       let (user, password) = (case u_User u of
           None \<Rightarrow> (''public'', [])
         | Some (name, pw) \<Rightarrow> (name, case pw of None \<Rightarrow> [] | Some p \<Rightarrow> p))
       in dsn_params dur (u_Query u)
            \<lparr>cfg_Host = u_Hostname u, cfg_Port = port, cfg_Database = database, cfg_User = user,
             cfg_Password = password, cfg_FetchSize = DefaultFetchSize, cfg_ConnectTimeout = 0,
             cfg_AltHosts = [], cfg_SSL = False, cfg_SSLVerify = False\<rparr>))"

subsection \<open>Addresses round-trip\<close>

lemma nat_decimal_no_punct [simp]:
  "CHR '':'' \<notin> set (nat_decimal n)" "CHR ''['' \<notin> set (nat_decimal n)" "CHR '']'' \<notin> set (nat_decimal n)"
  using set_nat_decimal not_decimal by blast+

lemma SplitHostPort_Join:
  assumes h: "h \<noteq> []" "CHR ''['' \<notin> set h" "CHR '']'' \<notin> set h"
    and p: "CHR '':'' \<notin> set p" "CHR ''['' \<notin> set p" "CHR '']'' \<notin> set p"
  shows "SplitHostPort (JoinHostPort h p) = Inr (h, p)"
proof (cases "CHR '':'' \<in> set h")
  case True
  let ?a = "CHR ''['' # h @ [CHR '']'']"
  have j: "JoinHostPort h p = ?a @ CHR '':'' # p"
    using True by (simp add: JoinHostPort_def IndexByte_ge)
  have i: "LastIndexByte (?a @ CHR '':'' # p) (CHR '':'') = int (length h) + 2"
    using LastIndexByte_append [OF p(1), of ?a] by simp
  have e: "IndexByte (?a @ CHR '':'' # p) (CHR '']'') = int (length h) + 1"
    using IndexByte_append [of "CHR '']''" "CHR ''['' # h" "CHR '':'' # p"] h(3) by simp
  show ?thesis
    unfolding j SplitHostPort_def i e Let_def using h p
    by (simp add: IndexByte_ge nat_add_distrib numeral_3_eq_3)
next
  case False
  have j: "JoinHostPort h p = h @ CHR '':'' # p"
    using False by (simp add: JoinHostPort_def IndexByte_ge)
  have i: "LastIndexByte (h @ CHR '':'' # p) (CHR '':'') = int (length h)"
    by (rule LastIndexByte_append [OF p(1)])
  have "hd (h @ CHR '':'' # p) \<noteq> CHR ''[''"
    using h by (cases h) auto
  then show ?thesis
    unfolding j SplitHostPort_def i Let_def using h p False
    by (simp add: IndexByte_ge nat_add_distrib)
qed

lemma splitAltHost_Join:
  assumes "h \<noteq> []" and "CHR ''['' \<notin> set h" and "CHR '']'' \<notin> set h" and "0 < p" and "p \<le> 65535"
  shows "splitAltHost (JoinHostPort h (Itoa p)) = Inr (h, p)"
proof -
  have "Atoi (Itoa p) = Some p" using assms by (simp add: Atoi_Itoa)
  moreover have "SplitHostPort (JoinHostPort h (Itoa p)) = Inr (h, Itoa p)"
    using assms by (intro SplitHostPort_Join) (simp_all add: Itoa_def)
  ultimately show ?thesis using assms by (simp add: splitAltHost_def)
qed

lemma SplitHostPort_host_plain:
  assumes "SplitHostPort s = Inr (h, p)"
  shows "CHR ''['' \<notin> set h" and "CHR '']'' \<notin> set h"
proof -
  let ?e = "nat (IndexByte s (CHR '']''))"
  have first: "CHR '']'' \<notin> set (take ?e s)" if "\<not> IndexByte s (CHR '']'') < 0"
    using that IndexByte_first by simp
  have mid: "set (take (?e - 1) (drop 1 s)) \<subseteq> set (drop 1 s) \<inter> set (take ?e s)"
    by (cases ?e; cases s) (auto dest: in_set_takeD)
  have "(CHR ''['' \<notin> set h) \<and> (CHR '']'' \<notin> set h)"
    using assms first mid unfolding SplitHostPort_def Let_def
    by (auto simp: bindE_Inr_iff IndexByte_ge split: if_splits dest: in_set_takeD)
  then show "CHR ''['' \<notin> set h" and "CHR '']'' \<notin> set h" by simp_all
qed

lemma splitAltHost_result:
  assumes "splitAltHost s = Inr (h, p)"
  shows "h \<noteq> [] \<and> CHR ''['' \<notin> set h \<and> CHR '']'' \<notin> set h \<and> 0 < p \<and> p \<le> 65535"
proof (cases "SplitHostPort s")
  case (Inl why)
  with assms show ?thesis
    by (auto simp: splitAltHost_def DefaultPort_def Let_def split: if_splits)
next
  case (Inr hp)
  obtain h' ps where hp: "hp = (h', ps)" by (cases hp)
  show ?thesis
    using assms Inr SplitHostPort_host_plain [of s h' ps] unfolding hp
    by (auto simp: splitAltHost_def split: if_splits option.splits)
qed

lemma splitAltHost_fixed_point:
  assumes "splitAltHost s = Inr (h, p)"
  shows "splitAltHost (JoinHostPort h (Itoa p)) = Inr (h, p)"
  using splitAltHost_result [OF assms] by (intro splitAltHost_Join) simp_all

subsection \<open>What an accepted DSN guarantees\<close>

text \<open>
  A configuration whose values the rest of the driver may rely on: \<^verbatim>\<open>Connect\<close> re-parses each
  standby address, and \<^verbatim>\<open>Rows\<close> asks for \<^verbatim>\<open>FetchSize\<close> tuples at a time.
\<close>

definition config_ok :: "config \<Rightarrow> bool" where
  "config_ok cfg \<longleftrightarrow> cfg_Host cfg \<noteq> [] \<and> cfg_Database cfg \<noteq> [] \<and> CHR ''/'' \<notin> set (cfg_Database cfg)
     \<and> 0 < cfg_FetchSize cfg \<and> 0 \<le> cfg_ConnectTimeout cfg
     \<and> (\<forall>a \<in> set (cfg_AltHosts cfg). \<exists>h p. splitAltHost a = Inr (h, p) \<and> a = JoinHostPort h (Itoa p))"

lemma parse_altHosts_ok:
  "parse_altHosts es = Inr hs \<Longrightarrow>
    length hs = length es \<and> (\<forall>a \<in> set hs. \<exists>h p. splitAltHost a = Inr (h, p) \<and> a = JoinHostPort h (Itoa p))"
proof (induction es arbitrary: hs)
  case (Cons e es)
  then show ?case
    by (auto simp: bindE_Inr_iff split: prod.splits) (blast intro: splitAltHost_fixed_point)
qed simp

lemma dsn_param_ok:
  assumes "dsn_param dur k vs cfg = Inr cfg'" and "config_ok cfg"
  shows "config_ok cfg'"
  using assms parse_altHosts_ok unfolding dsn_param_def
  by (auto simp: bindE_Inr_iff config_ok_def split: if_splits option.splits)

lemma dsn_params_ok: "dsn_params dur q cfg = Inr cfg' \<Longrightarrow> config_ok cfg \<Longrightarrow> config_ok cfg'"
  by (induction dur q cfg rule: dsn_params.induct) (auto simp: bindE_Inr_iff dest: dsn_param_ok)

text \<open>
  Two parameters with different names write different fields, so the order in which \<^verbatim>\<open>range\<close>
  visits the query does not show in the result.
\<close>

lemma dsn_param_commute:
  assumes "k \<noteq> k'" and "dsn_param dur k vs cfg = Inr c1" and "dsn_param dur k' vs' c1 = Inr c2"
  shows "\<exists>c1'. dsn_param dur k' vs' cfg = Inr c1' \<and> dsn_param dur k vs c1' = Inr c2"
  using assms unfolding dsn_param_def
  by (auto simp: bindE_Inr_iff split: if_splits option.splits)

lemma dsn_params_pull:
  assumes "k \<notin> fst ` set a" and "dsn_params dur (a @ (k, vs) # b) cfg = Inr c"
  shows "dsn_params dur ((k, vs) # a @ b) cfg = Inr c"
  using assms
proof (induction a arbitrary: cfg)
  case (Cons e a)
  obtain k' vs' where e: "e = (k', vs')" by (cases e)
  from Cons.prems(2) obtain c1 where c1: "dsn_param dur k' vs' cfg = Inr c1"
    and r: "dsn_params dur (a @ (k, vs) # b) c1 = Inr c"
    by (auto simp: e bindE_Inr_iff)
  from Cons.IH [OF _ r] Cons.prems(1) obtain c2 where c2: "dsn_param dur k vs c1 = Inr c2"
    and t: "dsn_params dur (a @ b) c2 = Inr c"
    by (auto simp: bindE_Inr_iff)
  from dsn_param_commute [OF _ c1 c2] Cons.prems(1) t show ?case
    by (auto simp: e)
qed simp

lemma dsn_params_order:
  assumes "mset q = mset q'" and "distinct (map fst q)" and "dsn_params dur q cfg = Inr c"
  shows "dsn_params dur q' cfg = Inr c"
  using assms
proof (induction q' arbitrary: q cfg)
  case (Cons e q')
  obtain k vs where e: "e = (k, vs)" by (cases e)
  from Cons.prems(1) obtain a b where q: "q = a @ e # b"
    by (metis list.set_intros(1) set_mset_mset split_list)
  from Cons.prems(1) have m: "mset (a @ b) = mset q'" by (simp add: q)
  from Cons.prems(2) have d: "k \<notin> fst ` set a" "distinct (map fst (a @ b))" by (auto simp: q e)
  from dsn_params_pull [OF d(1)] Cons.prems(3)
  have "dsn_params dur ((k, vs) # a @ b) cfg = Inr c" by (simp add: q e)
  then show ?case by (auto simp: e bindE_Inr_iff intro: Cons.IH [OF m d(2)])
qed simp

lemma ParseDSN_ok: "ParseDSN url_Parse dur dsn = Inr cfg \<Longrightarrow> config_ok cfg"
  unfolding ParseDSN_def Let_def
  by (auto simp: bindE_Inr_iff elim!: dsn_params_ok split: if_splits option.splits prod.splits)
    (simp_all add: config_ok_def DefaultFetchSize_def)

end
