(* ===== verification/Conn.thy ===== *)
theory Conn
  imports Config Wire_Frame Wire_Requests
begin

section \<open>Connections (cubrid/conn.go)\<close>

text \<open>
  A \<^verbatim>\<open>Conn\<close> owns one socket. The peer at the other end is a function of everything written so far
  on the socket: for each write it either makes the write fail, or accepts it and delivers some
  bytes, after which a further read gets an error (end of file, reset, or a timeout when the
  deadline of the operation passes). Deadlines and cancellation are part of this: a cancelled
  context shows as a failing read or write and as \<open>ctx_Err\<close>.
\<close>

subsection \<open>The network\<close>

datatype net_event = Delivered bytes error | WriteFails error

type_synonym peer = "bytes list \<Rightarrow> net_event"

text \<open>
  A context: its deadline, and its error at each logical time (the number of writes the
  connection has made, or of dials during \<^verbatim>\<open>Connect\<close>).
\<close>

record ctx =
  ctx_Deadline :: "int option"
  ctx_Err :: "nat \<Rightarrow> error option"

definition contextBackground :: ctx where
  "contextBackground = \<lparr>ctx_Deadline = None, ctx_Err = \<lambda>_. None\<rparr>"

definition WithTimeout :: "(nat \<Rightarrow> int) \<Rightarrow> nat \<Rightarrow> ctx \<Rightarrow> int \<Rightarrow> ctx" where
  "WithTimeout clock now ctx timeout =
     (let d = (case ctx_Deadline ctx of
                 None \<Rightarrow> clock now + timeout
               | Some d \<Rightarrow> min d (clock now + timeout))
      in \<lparr>ctx_Deadline = Some d,
          ctx_Err = (\<lambda>t. case ctx_Err ctx t of
             Some e \<Rightarrow> Some e
           | None \<Rightarrow> if clock t \<ge> d then Some DeadlineExceeded else None)\<rparr>)"

subsection \<open>The connection state\<close>

record frame_sink =
  fs_dir :: string
  fs_seq :: nat
  fs_files :: "(string \<times> bytes) list"

record conn =
  c_cfg :: config
  c_host :: string
  c_port :: int
  c_nc :: nat
  c_open :: bool
  c_peer :: peer
  c_sent :: "bytes list"
  c_br :: stream
  c_deadline :: "int option"
  c_clock :: "nat \<Rightarrow> int"
  c_version :: version
  c_broker :: broker_info
  c_casPid :: int32
  c_sessionID :: bytes
  c_autoCommit :: bool
  c_bad :: bool
  c_closed :: bool
  c_frames :: "frame_sink option"

text \<open>\<open>c_nc\<close> is the identity of the socket, \<open>c_sent\<close> every write made on it.\<close>

type_synonym 'a conn_m = "conn \<Rightarrow> (error + 'a) \<times> conn"

definition bindC :: "'a conn_m \<Rightarrow> ('a \<Rightarrow> 'b conn_m) \<Rightarrow> 'b conn_m" where
  "bindC m f c = (case m c of (Inl e, c) \<Rightarrow> (Inl e, c) | (Inr x, c) \<Rightarrow> f x c)"

definition returnC :: "error + 'a \<Rightarrow> 'a conn_m" where
  "returnC r c = (r, c)"

definition nc_Write :: "bytes \<Rightarrow> unit conn_m" where
  "nc_Write b c =
     (if \<not> c_open c then (Inl (NetError ''use of closed network connection''), c)
      else let sent = c_sent c @ [b]; c = c\<lparr>c_sent := sent\<rparr> in
        (case c_peer c sent of
           WriteFails e \<Rightarrow> (Inl e, c)
         | Delivered d e \<Rightarrow> (Inr (), c\<lparr>c_br := \<lparr>s_in = s_in (c_br c) @ d, s_end = e\<rparr>\<rparr>)))"

definition dumpFrame :: "string \<Rightarrow> bytes \<Rightarrow> conn \<Rightarrow> conn" where
  "dumpFrame kind payload c =
     (case c_frames c of
        None \<Rightarrow> c
      | Some fs \<Rightarrow>
          (let fs = fs\<lparr>fs_seq := fs_seq fs + 1\<rparr>;
               name = pad3 (fs_seq fs) @ ''-'' @ kind @ ''.bin''
           in c\<lparr>c_frames := Some (fs\<lparr>fs_files := fs_files fs @ [(name, payload)]\<rparr>)\<rparr>))"

subsection \<open>One request and its response\<close>

text \<open>
  \<^verbatim>\<open>guard\<close> sets the deadline when an operation starts; the function it returns clears it. The peer
  decides how reads and writes end, an expired deadline among the ways; how the deadline is moved by a
  cancellation is the subject of \<open>Guard\<close>.
\<close>

definition guard_begin :: "ctx \<Rightarrow> conn \<Rightarrow> conn" where
  "guard_begin ctx c = c\<lparr>c_deadline := ctx_Deadline ctx\<rparr>"

definition guard_end :: "conn \<Rightarrow> conn" where
  "guard_end c = c\<lparr>c_deadline := None\<rparr>"

definition requestCasInfo :: "conn \<Rightarrow> bytes" where
  "requestCasInfo c = (let ci = [0, 0, 0, 0] in if c_autoCommit c then ci[3 := CASInfoFlagAutocommit] else ci)"

definition ctx_or :: "ctx \<Rightarrow> conn \<Rightarrow> error \<Rightarrow> error" where
  "ctx_or ctx c e = (case ctx_Err ctx (length (c_sent c)) of Some ce \<Rightarrow> ce | None \<Rightarrow> e)"

definition roundTrip_io :: "ctx \<Rightarrow> bytes \<Rightarrow> reader conn_m" where
  "roundTrip_io ctx payload c =
     (let c = dumpFrame ''req'' payload c in
      case nc_Write (WriteRequest payload (requestCasInfo c)) c of
        (Inl e, c) \<Rightarrow>
          (let c = c\<lparr>c_bad := True\<rparr> in (Inl (ctx_or ctx c (Wrapf ''cubrid: write: %w'' [] e)), c))
      | (Inr _, c) \<Rightarrow>
          (case ReadResponse (c_br c) of
             (Inl e, s) \<Rightarrow>
               (let c = c\<lparr>c_br := s, c_bad := True\<rparr>
                in (Inl (ctx_or ctx c (Wrapf ''cubrid: read: %w'' [] e)), c))
           | (Inr (resp, _), s) \<Rightarrow>
               (let c = dumpFrame ''res'' resp (c\<lparr>c_br := s\<rparr>) in (Inr (NewReader resp), c))))"

definition roundTrip :: "ctx \<Rightarrow> bytes \<Rightarrow> reader conn_m" where
  "roundTrip ctx payload c =
     (if c_closed c \<or> c_bad c then (Inl ErrBadConn, c)
      else case roundTrip_io ctx payload (guard_begin ctx c) of (r, c) \<Rightarrow> (r, guard_end c))"

subsection \<open>Liveness, version, close\<close>

definition ConnProtocolVersion :: "conn \<Rightarrow> int" where
  "ConnProtocolVersion c = c_version c"

definition Valid :: "conn \<Rightarrow> bool" where
  "Valid c \<longleftrightarrow> \<not> c_bad c \<and> \<not> c_closed c"

text \<open>\<open>status_only\<close> is the \<^verbatim>\<open>_, err = protocol.ReadStatus(r); return err\<close> of many operations.\<close>

definition status_only :: "reader \<Rightarrow> error + unit" where
  "status_only r = bindE (ReadStatus r) (\<lambda>_. Inr ())"

definition Ping :: "ctx \<Rightarrow> unit conn_m" where
  "Ping ctx =
     (let w = RawByte NewWriter FnCheckCAS in
      bindC (roundTrip ctx (Writer_Bytes w)) (\<lambda>r.
        returnC (if Remaining r = 0 then Inr () else status_only r)))"

definition boolByte :: "bool \<Rightarrow> byte" where
  "boolByte b = (if b then 1 else 0)"

definition ServerVersion :: "ctx \<Rightarrow> string conn_m" where
  "ServerVersion ctx c =
     (let w = RawByte NewWriter FnGetDBVersion; w = ArgByte w (boolByte (c_autoCommit c)) in
      bindC (roundTrip ctx (Writer_Bytes w)) (\<lambda>r.
        returnC (bindE (ReadStatus r) (\<lambda>(_, r).
                 bindE (Reader_Bytes r (Remaining r)) (\<lambda>(b, r). Inr (bytes_string (trimNul b)))))) c)"

definition nc_Close :: "conn \<Rightarrow> conn" where
  "nc_Close c = c\<lparr>c_open := False\<rparr>"

definition Conn_Close :: "unit conn_m" where
  "Conn_Close c =
     (if c_closed c then (Inr (), c)
      else
       let c = (if \<not> c_bad c then
                  let ctx = WithTimeout (c_clock c) (length (c_sent c)) contextBackground (2 * 1000000000);
                      w = RawByte NewWriter FnConClose
                  in snd (roundTrip ctx (Writer_Bytes w) c)
                else c);
           c = c\<lparr>c_closed := True\<rparr>
       in (if c_open c then Inr () else Inl (NetError ''use of closed network connection''), nc_Close c))"

subsection \<open>Steps of a connection\<close>

text \<open>
  Every operation on an established connection is a sequence of three primitive steps: a request
  with its response, a change of the client-side autocommit flag, and closing the socket.
\<close>

inductive conn_step :: "conn \<Rightarrow> conn \<Rightarrow> bool" where
  request: "conn_step c (snd (roundTrip ctx p c))"
| autocommit: "conn_step c (c\<lparr>c_autoCommit := b\<rparr>)"
| hangup: "conn_step c (nc_Close (c\<lparr>c_closed := True\<rparr>))"

inductive_cases conn_stepE: "conn_step c c'"

abbreviation conn_steps :: "conn \<Rightarrow> conn \<Rightarrow> bool" where
  "conn_steps \<equiv> conn_step\<^sup>*\<^sup>*"

text \<open>What no step undoes, and what a step may write.\<close>

definition is_request :: "bytes \<Rightarrow> bool" where
  "is_request b \<longleftrightarrow> (\<exists>p ci. length ci = 4 \<and> b = WriteRequest p ci)"

definition same_session :: "conn \<Rightarrow> conn \<Rightarrow> bool" where
  "same_session c c' \<longleftrightarrow>
     c_cfg c' = c_cfg c \<and> c_host c' = c_host c \<and> c_port c' = c_port c \<and> c_nc c' = c_nc c \<and>
     c_peer c' = c_peer c \<and> c_clock c' = c_clock c \<and> c_version c' = c_version c \<and>
     c_broker c' = c_broker c \<and> c_casPid c' = c_casPid c \<and> c_sessionID c' = c_sessionID c"

definition evolves :: "conn \<Rightarrow> conn \<Rightarrow> bool" where
  "evolves c c' \<longleftrightarrow> same_session c c' \<and> (c_bad c \<longrightarrow> c_bad c') \<and> (c_closed c \<longrightarrow> c_closed c') \<and>
     (\<not> c_open c \<longrightarrow> \<not> c_open c') \<and> (c_deadline c = None \<longrightarrow> c_deadline c' = None) \<and>
     (\<exists>ws. c_sent c' = c_sent c @ ws \<and> list_all is_request ws \<and> (Valid c \<or> ws = []))"

lemma Valid_antimono: "evolves c c' \<Longrightarrow> Valid c' \<Longrightarrow> Valid c"
  by (auto simp: evolves_def Valid_def)

lemma evolves_refl [simp]: "evolves c c"
  by (simp add: evolves_def same_session_def)

lemma evolves_trans: "evolves a b \<Longrightarrow> evolves b c \<Longrightarrow> evolves a c"
  by (auto simp: evolves_def same_session_def Valid_def)

lemma length_requestCasInfo [simp]: "length (requestCasInfo c) = 4"
  by (simp add: requestCasInfo_def Let_def)

lemma is_request_WriteRequest [simp]: "is_request (WriteRequest p (requestCasInfo c))"
  by (auto simp: is_request_def intro!: exI)

lemma evolves_dumpFrame: "evolves c (dumpFrame k p c)"
  by (simp add: evolves_def same_session_def dumpFrame_def Let_def split: option.split)

lemma Valid_dumpFrame [simp]: "Valid (dumpFrame k p c) = Valid c"
  by (simp add: Valid_def dumpFrame_def Let_def split: option.split)

lemma evolves_write:
  assumes "Valid c" and "is_request b"
  shows "evolves c (snd (nc_Write b c))"
  using assms by (simp add: nc_Write_def evolves_def same_session_def Let_def split: net_event.split)

lemma evolves_update:
  "evolves c (c\<lparr>c_br := s\<rparr>)" "evolves c (c\<lparr>c_bad := True\<rparr>)" "evolves c (c\<lparr>c_br := s, c_bad := True\<rparr>)"
  by (simp_all add: evolves_def same_session_def)

lemma evolves_roundTrip_io:
  assumes "Valid c"
  shows "evolves c (snd (roundTrip_io ctx p c))"
proof -
  let ?d = "dumpFrame ''req'' p c"
  obtain r c1 where w: "nc_Write (WriteRequest p (requestCasInfo ?d)) ?d = (r, c1)"
    by (cases "nc_Write (WriteRequest p (requestCasInfo ?d)) ?d")
  have "evolves ?d c1"
    using evolves_write [of ?d "WriteRequest p (requestCasInfo ?d)"] assms by (simp add: w)
  then have c1: "evolves c c1" by (rule evolves_trans [OF evolves_dumpFrame])
  have "evolves c1 (snd (roundTrip_io ctx p c))"
    by (auto simp: roundTrip_io_def w Let_def evolves_update split: sum.split prod.split
        intro: evolves_trans [OF evolves_update(1) evolves_dumpFrame])
  with c1 show ?thesis by (rule evolves_trans)
qed

lemma evolves_guard:
  assumes "evolves (guard_begin ctx c) c'"
  shows "evolves c (guard_end c')"
  using assms by (simp add: guard_begin_def guard_end_def evolves_def same_session_def Valid_def)

lemma evolves_roundTrip: "evolves c (snd (roundTrip ctx p c))"
proof (cases "c_closed c \<or> c_bad c")
  case False
  then have "Valid (guard_begin ctx c)" by (simp add: Valid_def guard_begin_def)
  then have "evolves c (guard_end (snd (roundTrip_io ctx p (guard_begin ctx c))))"
    by (rule evolves_guard [OF evolves_roundTrip_io])
  with False show ?thesis by (simp add: roundTrip_def split_beta)
qed (simp add: roundTrip_def)

lemma evolves_step: "conn_step c c' \<Longrightarrow> evolves c c'"
  by (auto elim!: conn_stepE simp: evolves_roundTrip)
    (simp_all add: evolves_def same_session_def nc_Close_def)

lemma evolves_steps: "conn_steps c c' \<Longrightarrow> evolves c c'"
  by (induction rule: rtranclp_induct) (auto intro: evolves_trans evolves_step)

subsection \<open>The contract of an operation on a connection\<close>

locale conn_op =
  fixes m :: "conn \<Rightarrow> 'r \<times> conn"
  assumes steps: "conn_steps c (snd (m c))"
begin

lemma op_evolves: "evolves c (snd (m c))"
  by (rule evolves_steps) (rule steps)

lemma keeps_session: "same_session c (snd (m c))"
  using op_evolves by (simp add: evolves_def)

lemma stays_invalid: "\<not> Valid c \<Longrightarrow> \<not> Valid (snd (m c))"
  using op_evolves Valid_antimono by blast

lemma invalid_is_silent: "\<not> Valid c \<Longrightarrow> c_sent (snd (m c)) = c_sent c"
  using op_evolves [of c] by (auto simp: evolves_def)

lemma sends_requests: "\<exists>ws. c_sent (snd (m c)) = c_sent c @ ws \<and> list_all is_request ws"
  using op_evolves [of c] by (auto simp: evolves_def)

lemma clears_deadline: "c_deadline c = None \<Longrightarrow> c_deadline (snd (m c)) = None"
  using op_evolves [of c] by (simp add: evolves_def)

end

text \<open>An operation whose first act is a request fails at once on an unusable connection.\<close>

locale conn_request = conn_op m for m :: "conn \<Rightarrow> (error + 'a) \<times> conn" +
  assumes fails_fast: "\<not> Valid c \<Longrightarrow> m c = (Inl ErrBadConn, c)"
begin

lemma success_was_valid: "m c = (Inr x, c') \<Longrightarrow> Valid c"
  using fails_fast [of c] by (cases "Valid c") auto

end

lemma conn_op_roundTrip [conn_rules]: "conn_op (roundTrip ctx p)"
  by unfold_locales (blast intro: conn_step.request)

lemma conn_op_return [conn_rules]: "conn_op (returnC r)"
  by unfold_locales (simp add: returnC_def)

lemma conn_op_bind [conn_rules]:
  assumes "conn_op m" and "\<And>x. conn_op (f x)"
  shows "conn_op (bindC m f)"
proof
  fix c
  obtain r c1 where m: "m c = (r, c1)" by (cases "m c")
  have "conn_steps c c1" using conn_op.steps [OF assms(1), of c] by (simp add: m)
  moreover have "conn_steps c1 (snd (f x c1))" for x by (rule conn_op.steps [OF assms(2)])
  ultimately show "conn_steps c (snd (bindC m f c))"
    by (cases r) (auto simp: bindC_def m intro: rtranclp_trans)
qed

lemma conn_op_if [conn_rules]: "conn_op m \<Longrightarrow> conn_op m' \<Longrightarrow> conn_op (if b then m else m')"
  by simp

lemma conn_op_read:
  assumes "\<And>x. conn_op (f x)"
  shows "conn_op (\<lambda>c. f (g c) c)"
  by unfold_locales (rule conn_op.steps [OF assms])

lemma conn_request_roundTrip: "conn_request (roundTrip ctx p)"
  by (intro conn_request.intro conn_op_roundTrip conn_request_axioms.intro)
    (auto simp: roundTrip_def Valid_def)

lemma conn_request_bind [conn_rules]:
  assumes "conn_request m" and "\<And>x. conn_op (f x)"
  shows "conn_request (bindC m f)"
proof (intro conn_request.intro conn_request_axioms.intro)
  show "conn_op (bindC m f)" using assms by (intro conn_op_bind) (simp_all add: conn_request_def)
  show "bindC m f c = (Inl ErrBadConn, c)" if "\<not> Valid c" for c
    using conn_request.fails_fast [OF assms(1) that] by (simp add: bindC_def)
qed

lemma conn_request_read:
  assumes "\<And>x. conn_request (f x)"
  shows "conn_request (\<lambda>c. f (g c) c)"
proof (intro conn_request.intro conn_request_axioms.intro)
  show "conn_op (\<lambda>c. f (g c) c)"
    by (rule conn_op_read) (rule conn_request.axioms(1) [OF assms])
  show "f (g c) c = (Inl ErrBadConn, c)" if "\<not> Valid c" for c
    by (rule conn_request.fails_fast [OF assms that])
qed

interpretation roundTrip: conn_request "roundTrip ctx p"
  by (rule conn_request_roundTrip)

interpretation Ping: conn_request "Ping ctx"
  unfolding Ping_def Let_def by (intro conn_rules conn_request_roundTrip)

interpretation ServerVersion: conn_request "ServerVersion ctx"
  unfolding ServerVersion_def Let_def
  by (rule conn_request_read [where g = c_autoCommit]) (intro conn_rules conn_request_roundTrip)

lemma conn_op_Close: "conn_op Conn_Close"
proof
  fix c
  let ?rt = "\<lambda>c. snd (roundTrip (WithTimeout (c_clock c) (length (c_sent c)) contextBackground 2000000000)
      (Writer_Bytes (RawByte NewWriter FnConClose)) c)"
  have "conn_steps c (nc_Close (c\<lparr>c_closed := True\<rparr>))" by (blast intro: conn_step.hangup)
  moreover have "conn_steps c (nc_Close ((?rt c)\<lparr>c_closed := True\<rparr>))"
    by (blast intro: conn_step.request conn_step.hangup rtranclp.intros)
  ultimately show "conn_steps c (snd (Conn_Close c))"
    by (simp add: Conn_Close_def Let_def)
qed

interpretation Conn_Close: conn_op Conn_Close
  by (rule conn_op_Close)

subsection \<open>A transport failure poisons the connection\<close>

lemma roundTrip_failure:
  assumes "Valid c" and "roundTrip ctx p c = (Inl e, c')"
  shows "c_bad c'"
  using assms
  by (auto simp: roundTrip_def Valid_def roundTrip_io_def guard_end_def Let_def split: prod.splits sum.splits)

lemma bad_update [simp]: "c_bad (dumpFrame k p c) = c_bad c" "c_closed (dumpFrame k p c) = c_closed c"
  "c_autoCommit (dumpFrame k p c) = c_autoCommit c" "c_open (dumpFrame k p c) = c_open c"
  "c_peer (dumpFrame k p c) = c_peer c" "c_sent (dumpFrame k p c) = c_sent c" "c_br (dumpFrame k p c) = c_br c"
  "requestCasInfo (dumpFrame k p c) = requestCasInfo c"
  by (simp_all add: dumpFrame_def requestCasInfo_def Let_def split: option.split)

lemma nc_Write_keeps: "nc_Write b c = (r, c') \<Longrightarrow>
    c_bad c' = c_bad c \<and> c_closed c' = c_closed c \<and> c_autoCommit c' = c_autoCommit c \<and> c_open c' = c_open c"
  by (auto simp: nc_Write_def Let_def split: if_splits net_event.splits)

lemma roundTrip_success:
  assumes "roundTrip ctx p c = (Inr r, c')"
  shows "Valid c \<and> Valid c' \<and> c_autoCommit c' = c_autoCommit c \<and> r_off r = 0"
  using assms
  by (auto simp: roundTrip_def Valid_def roundTrip_io_def guard_end_def guard_begin_def Let_def NewReader_def
      split: prod.splits sum.splits if_splits dest!: nc_Write_keeps)

end
