(* ===== verification/Broker.thy ===== *)
theory Broker
  imports Conn
begin

section \<open>A serving broker\<close>

text \<open>
  The abstract view of the other end of a connection: a state machine \<open>srv\<close> that answers each
  request payload (with its casInfo bytes) by a response payload. A connection \<open>serves\<close> it when
  the peer answers every framed request with exactly one framed response. On such a connection
  \<^verbatim>\<open>roundTrip\<close> is one step of the state machine, which is how the client operations are related to
  what the server does.
\<close>

type_synonym 's srv = "'s \<Rightarrow> bytes \<times> bytes \<Rightarrow> bytes \<times> 's"

fun srv_run :: "'s srv \<Rightarrow> 's \<Rightarrow> (bytes \<times> bytes) list \<Rightarrow> 's" where
  "srv_run srv \<sigma> [] = \<sigma>"
| "srv_run srv \<sigma> (q # qs) = srv_run srv (snd (srv \<sigma> q)) qs"

definition frame :: "bytes \<times> bytes \<Rightarrow> bytes" where
  "frame q = WriteRequest (fst q) (snd q)"

definition answers :: "'s srv \<Rightarrow> 's \<Rightarrow> peer \<Rightarrow> bytes list \<Rightarrow> bool" where
  "answers srv \<sigma> peer sent \<longleftrightarrow>
     (\<forall>qs q. list_all (\<lambda>q. length (snd q) = 4) (qs @ [q]) \<longrightarrow>
        (let resp = fst (srv (srv_run srv \<sigma> qs) q) in
         length resp \<le> maxPayloadSize \<and>
         (\<exists>ci e. length ci = 4 \<and> peer (sent @ map frame (qs @ [q])) = Delivered (WriteRequest resp ci) e)))"

definition serves :: "'s srv \<Rightarrow> 's \<Rightarrow> conn \<Rightarrow> bool" where
  "serves srv \<sigma> c \<longleftrightarrow> Valid c \<and> c_open c \<and> s_in (c_br c) = [] \<and> answers srv \<sigma> (c_peer c) (c_sent c)"

lemma answers_next:
  assumes "answers srv \<sigma> peer sent" and "length (snd q) = 4"
  shows "answers srv (snd (srv \<sigma> q)) peer (sent @ [frame q])"
  unfolding answers_def
proof (intro allI impI)
  fix qs and q' :: "bytes \<times> bytes"
  assume "list_all (\<lambda>q. length (snd q) = 4) (qs @ [q'])"
  with assms(2) have "list_all (\<lambda>q. length (snd q) = 4) ((q # qs) @ [q'])" by simp
  from assms(1) [unfolded answers_def, rule_format, OF this]
  show "let resp = fst (srv (srv_run srv (snd (srv \<sigma> q)) qs) q') in
      length resp \<le> maxPayloadSize \<and>
      (\<exists>ci e. length ci = 4 \<and>
        peer ((sent @ [frame q]) @ map frame (qs @ [q'])) = Delivered (WriteRequest resp ci) e)"
    by simp
qed

lemma answers_first:
  assumes "answers srv \<sigma> peer sent" and "length (snd q) = 4"
  obtains ci e where "length ci = 4" and "length (fst (srv \<sigma> q)) \<le> maxPayloadSize"
    and "peer (sent @ [frame q]) = Delivered (WriteRequest (fst (srv \<sigma> q)) ci) e"
proof -
  from assms have "list_all (\<lambda>q. length (snd q) = 4) ([] @ [q])" by simp
  from assms(1) [unfolded answers_def, rule_format, OF this] that show ?thesis
    by (auto simp: Let_def)
qed

text \<open>A request the peer answers with one frame: the response, and the connection after it.\<close>

lemma roundTrip_delivered:
  assumes "Valid c" and "c_open c" and "s_in (c_br c) = []"
    and ci: "length ci = 4" and len: "length resp \<le> maxPayloadSize"
    and peer: "c_peer c (c_sent c @ [frame (p, requestCasInfo c)]) = Delivered (WriteRequest resp ci) e"
  obtains c' where "roundTrip ctx p c = (Inr (NewReader resp), c')"
    and "same_session c c'" and "c_autoCommit c' = c_autoCommit c" and "c_deadline c' = None"
    and "Valid c'" and "c_open c'" and "s_in (c_br c') = []" and "c_peer c' = c_peer c"
    and "c_sent c' = c_sent c @ [frame (p, requestCasInfo c)]"
proof -
  let ?f = "frame (p, requestCasInfo c)"
  from assms have V: "\<not> c_closed c" "\<not> c_bad c" "c_open c" "s_in (c_br c) = []" by (simp_all add: Valid_def)
  let ?g = "dumpFrame ''req'' p (guard_begin ctx c)"
  let ?c1 = "?g\<lparr>c_sent := c_sent c @ [?f], c_br := \<lparr>s_in = WriteRequest resp ci, s_end = e\<rparr>\<rparr>"
  let ?c2 = "dumpFrame ''res'' resp (?c1\<lparr>c_br := \<lparr>s_in = [], s_end = e\<rparr>\<rparr>)"
  have ca: "requestCasInfo (guard_begin ctx c) = requestCasInfo c"
    by (simp add: requestCasInfo_def guard_begin_def)
  have w: "nc_Write (WriteRequest p (requestCasInfo ?g)) ?g = (Inr (), ?c1)"
    using V peer by (simp add: nc_Write_def ca frame_def Let_def) (simp add: guard_begin_def)
  have rd: "ReadResponse (c_br ?c1) = (Inr (resp, ci), \<lparr>s_in = [], s_end = e\<rparr>)"
    using ReadResponse_frame [OF ci len, of "[]" "\<lparr>s_in = [], s_end = e\<rparr>"] by simp
  have rt: "roundTrip ctx p c = (Inr (NewReader resp), guard_end ?c2)"
    using V w rd by (simp add: roundTrip_def roundTrip_io_def Let_def)
  have ses: "same_session c (guard_end ?c2)"
    using roundTrip.keeps_session [of c ctx p] by (simp add: rt)
  show ?thesis
    using V by (intro that [OF rt ses]) (simp_all add: guard_end_def guard_begin_def Valid_def)
qed

text \<open>One request on a serving connection is one step of the server.\<close>

lemma serves_roundTrip:
  assumes "serves srv \<sigma> c"
  obtains c' where "roundTrip ctx p c = (Inr (NewReader (fst (srv \<sigma> (p, requestCasInfo c)))), c')"
    and "serves srv (snd (srv \<sigma> (p, requestCasInfo c))) c'"
    and "same_session c c'" and "c_autoCommit c' = c_autoCommit c"
    and "c_deadline c' = None"
proof -
  let ?q = "(p, requestCasInfo c)"
  from assms have V: "Valid c" "c_open c" "s_in (c_br c) = []" and A: "answers srv \<sigma> (c_peer c) (c_sent c)"
    by (simp_all add: serves_def)
  from answers_first [OF A, of ?q] obtain ci e where ci: "length ci = 4"
    and len: "length (fst (srv \<sigma> ?q)) \<le> maxPayloadSize"
    and peer: "c_peer c (c_sent c @ [frame ?q]) = Delivered (WriteRequest (fst (srv \<sigma> ?q)) ci) e"
    by auto
  have A': "answers srv (snd (srv \<sigma> ?q)) (c_peer c) (c_sent c @ [frame ?q])"
    by (rule answers_next [OF A]) simp
  show ?thesis
    by (rule roundTrip_delivered [OF V ci len peer, of ctx]) (rule that, use A' in \<open>simp_all add: serves_def\<close>)
qed

text \<open>Requests one after the other, and the payloads a server answers them with.\<close>

fun roundTrips :: "ctx \<Rightarrow> bytes list \<Rightarrow> conn \<Rightarrow> (error + reader) list \<times> conn" where
  "roundTrips ctx [] c = ([], c)"
| "roundTrips ctx (p # ps) c =
     (case roundTrip ctx p c of (r, c) \<Rightarrow> (case roundTrips ctx ps c of (rs, c) \<Rightarrow> (r # rs, c)))"

fun srv_outs :: "'s srv \<Rightarrow> 's \<Rightarrow> (bytes \<times> bytes) list \<Rightarrow> bytes list" where
  "srv_outs srv \<sigma> [] = []"
| "srv_outs srv \<sigma> (q # qs) = fst (srv \<sigma> q) # srv_outs srv (snd (srv \<sigma> q)) qs"

subsection \<open>A concrete peer\<close>

text \<open>The peer that runs a state machine, reading each write as one frame.\<close>

definition unframe :: "bytes \<Rightarrow> bytes \<times> bytes" where
  "unframe b = (drop 8 b, take 4 (drop 4 b))"

definition srv_peer :: "'s srv \<Rightarrow> 's \<Rightarrow> peer" where
  "srv_peer srv \<sigma> sent =
     Delivered (WriteRequest (fst (srv (srv_run srv \<sigma> (map unframe (butlast sent))) (unframe (last sent))))
       [0, 0, 0, 0]) EOF"

lemma unframe_frame: "length (snd q) = 4 \<Longrightarrow> unframe (frame q) = q"
  by (cases q) (simp add: unframe_def frame_def WriteRequest_def Let_def)

lemma answers_srv_peer:
  assumes "\<And>\<sigma> q. length (fst (srv \<sigma> q)) \<le> maxPayloadSize"
  shows "answers srv \<sigma> (srv_peer srv \<sigma>) []"
  unfolding answers_def
proof (intro allI impI)
  fix qs and q :: "bytes \<times> bytes"
  assume "list_all (\<lambda>q. length (snd q) = 4) (qs @ [q])"
  then have "map (unframe \<circ> frame) qs = qs" and "unframe (frame q) = q"
    by (auto simp: list_all_iff unframe_frame intro!: map_idI)
  then show "let resp = fst (srv (srv_run srv \<sigma> qs) q) in length resp \<le> maxPayloadSize \<and>
      (\<exists>ci e. length ci = 4 \<and> srv_peer srv \<sigma> ([] @ map frame (qs @ [q])) = Delivered (WriteRequest resp ci) e)"
    using assms
    by (auto simp: srv_peer_def butlast_append Let_def intro!: exI [of _ "[0, 0, 0, 0] :: bytes"])
qed

end
