(* ===== verification/Connect.thy ===== *)
theory Connect
  imports Broker
begin

section \<open>Establishing a connection (cubrid/conn.go: Connect, connectHost, handshake)\<close>

text \<open>
  Dialling, the greeting with its optional port redirect, the TLS upgrade, authentication, and the
  sweep over standby brokers. The environment is a parameter: what each dial yields (given all
  dials so far and the deadline each ran under), what a TLS handshake makes of a socket, the clock,
  and \<^verbatim>\<open>CUBRID_FRAME_DIR\<close>. The world keeps the dials made and the sockets that are open.
\<close>

record net =
  n_dial :: "(string \<times> int option) list \<Rightarrow> error + peer"
  n_tls :: "string \<Rightarrow> bool \<Rightarrow> peer \<Rightarrow> error + peer"
  n_clock :: "nat \<Rightarrow> int"
  n_frame_dir :: string

record world =
  w_dials :: "(string \<times> int option) list"
  w_open :: "nat list"

definition DialContext :: "net \<Rightarrow> ctx \<Rightarrow> string \<Rightarrow> world \<Rightarrow> (error + nat \<times> peer) \<times> world" where
  "DialContext net ctx addr w =
     (let w = w\<lparr>w_dials := w_dials w @ [(addr, ctx_Deadline ctx)]\<rparr> in
      case n_dial net (w_dials w) of
        Inl e \<Rightarrow> (Inl e, w)
      | Inr peer \<Rightarrow> (let sock = length (w_dials w)
                     in (Inr (sock, peer), w\<lparr>w_open := sock # w_open w\<rparr>)))"

definition close_socket :: "nat \<Rightarrow> world \<Rightarrow> world" where
  "close_socket sock w = w\<lparr>w_open := removeAll sock (w_open w)\<rparr>"

text \<open>A new \<^verbatim>\<open>bufio.Reader\<close> holds nothing; nothing is read before the first write.\<close>

definition no_bytes :: stream where
  "no_bytes = \<lparr>s_in = [], s_end = EOF\<rparr>"

subsection \<open>The handshake\<close>

type_synonym 'a hs_m = "conn \<Rightarrow> world \<Rightarrow> (error + 'a) \<times> conn \<times> world"

definition bindH :: "'a hs_m \<Rightarrow> ('a \<Rightarrow> 'b hs_m) \<Rightarrow> 'b hs_m" where
  "bindH m f c w = (case m c w of (Inl e, c, w) \<Rightarrow> (Inl e, c, w) | (Inr x, c, w) \<Rightarrow> f x c w)"

definition liftH :: "'a conn_m \<Rightarrow> 'a hs_m" where
  "liftH m c w = (case m c of (r, c) \<Rightarrow> (r, c, w))"

definition returnH :: "error + 'a \<Rightarrow> 'a hs_m" where
  "returnH r c w = (r, c, w)"

definition wrapC :: "string \<Rightarrow> 'a conn_m \<Rightarrow> 'a conn_m" where
  "wrapC f m c = (case m c of (r, c) \<Rightarrow> (wrapE f [] r, c))"

text \<open>\<^verbatim>\<open>binary.Read(c.br, binary.BigEndian, &port)\<close> and \<^verbatim>\<open>protocol.ReadResponse(c.br)\<close>.\<close>

definition read_int32 :: "int32 conn_m" where
  "read_int32 c = (case ReadFull (c_br c) 4 of (r, s) \<Rightarrow>
     (bindE r (\<lambda>b. Inr (get_u32 b)), c\<lparr>c_br := s\<rparr>))"

definition read_response :: "bytes conn_m" where
  "read_response c = (case ReadResponse (c_br c) of (r, s) \<Rightarrow>
     (bindE r (\<lambda>(payload, _). Inr payload), c\<lparr>c_br := s\<rparr>))"

definition handshake_greet :: "int32 conn_m" where
  "handshake_greet c =
     bindC (wrapC ''cubrid: greeting: %w'' (nc_Write (Greeting (cfg_SSL (c_cfg c))))) (\<lambda>_.
       wrapC ''cubrid: greeting reply: %w'' read_int32) c"

definition rejection :: "int32 \<Rightarrow> error" where
  "rejection port = ServerError port
     (if port = CASErrSSLTypeNotAllowed
      then ''broker rejected the connection's SSL mode (ssl=true against an SSL=OFF broker, or plaintext against SSL=ON)''
      else ''broker rejected connection'')"

text \<open>
  After a redirect the new socket gets a guard of its own. Both guards end with the handshake, and the
  cleanup of either clears the deadline of the socket that is then in use.
\<close>

definition handshake_redirect :: "net \<Rightarrow> ctx \<Rightarrow> int32 \<Rightarrow> unit hs_m" where
  "handshake_redirect net ctx port c w =
     (let w = close_socket (c_nc c) w; c = nc_Close c in
      case DialContext net ctx (JoinHostPort (c_host c) (Itoa (sint port))) w of
        (Inl e, w) \<Rightarrow> (Inl (Wrapf ''cubrid: redirect dial: %w'' [] e), c, w)
      | (Inr (sock, peer), w) \<Rightarrow>
          (Inr (), guard_begin ctx (c\<lparr>c_nc := sock, c_open := True, c_peer := peer, c_sent := [],
                                      c_br := no_bytes\<rparr>), w))"

definition handshake_tls :: "net \<Rightarrow> unit conn_m" where
  "handshake_tls net c =
     (case n_tls net (c_host c) (cfg_SSLVerify (c_cfg c)) (c_peer c) of
        Inl e \<Rightarrow> (Inl (Wrapf ''cubrid: TLS handshake: %w'' [] e), c)
      | Inr peer \<Rightarrow> (Inr (), c\<lparr>c_peer := peer, c_sent := [], c_br := no_bytes\<rparr>))"

definition handshake_auth :: "unit conn_m" where
  "handshake_auth c =
     (let cfg = c_cfg c;
          url = ''cubrid://'' @ cfg_User cfg @ ''@'' @ c_host c @ '':'' @ Itoa (c_port c) @ ''/'' @ cfg_Database cfg
      in bindC (returnC (DBInfo (cfg_Database cfg) (cfg_User cfg) (cfg_Password cfg) url None)) (\<lambda>db.
         bindC (wrapC ''cubrid: auth: %w'' (nc_Write db)) (\<lambda>_.
         bindC (wrapC ''cubrid: auth reply: %w'' read_response) (\<lambda>payload.
         bindC (returnC (ParseConnectReply payload)) (\<lambda>rep c.
           (Inr (), c\<lparr>c_version := cr_Version rep, c_broker := cr_Broker rep,
                      c_casPid := cr_CASPid rep, c_sessionID := cr_SessionID rep\<rparr>))))) c)"

definition handshake :: "net \<Rightarrow> ctx \<Rightarrow> unit hs_m" where
  "handshake net ctx c w =
     (case bindH (liftH handshake_greet) (\<lambda>port.
             if sint port < 0 then returnH (Inl (rejection port))
             else bindH (if sint port > 0 then handshake_redirect net ctx port else returnH (Inr ())) (\<lambda>_ c.
                  bindH (if cfg_SSL (c_cfg c) then liftH (handshake_tls net) else returnH (Inr ())) (\<lambda>_.
                    liftH handshake_auth) c)) (guard_begin ctx c) w
      of (r, c, w) \<Rightarrow> (r, guard_end c, w))"

subsection \<open>One address, and the sweep\<close>

definition new_conn :: "net \<Rightarrow> config \<Rightarrow> string \<Rightarrow> int \<Rightarrow> nat \<Rightarrow> peer \<Rightarrow> conn" where
  "new_conn net cfg host port sock peer =
     \<lparr>c_cfg = cfg, c_host = host, c_port = port, c_nc = sock, c_open = True, c_peer = peer, c_sent = [],
      c_br = no_bytes, c_deadline = None, c_clock = n_clock net, c_version = 0, c_broker = replicate 8 0,
      c_casPid = 0, c_sessionID = replicate SessionIDSize 0, c_autoCommit = True, c_bad = False,
      c_closed = False,
      c_frames = (if n_frame_dir net \<noteq> [] then Some \<lparr>fs_dir = n_frame_dir net, fs_seq = 0, fs_files = []\<rparr>
                  else None)\<rparr>"

definition connectHost ::
    "net \<Rightarrow> ctx \<Rightarrow> config \<Rightarrow> string \<Rightarrow> int \<Rightarrow> int \<Rightarrow> world \<Rightarrow> (error + conn) \<times> world" where
  "connectHost net ctx cfg host port timeout w =
     (let ctx = (if timeout > 0 then WithTimeout (n_clock net) (length (w_dials w)) ctx timeout else ctx);
          addr = JoinHostPort host (Itoa port)
      in case DialContext net ctx addr w of
           (Inl e, w) \<Rightarrow> (Inl (Wrapf ''cubrid: dial %s: %w'' [EStr addr] e), w)
         | (Inr (sock, peer), w) \<Rightarrow>
             (case handshake net ctx (new_conn net cfg host port sock peer) w of
                (Inl e, c, w) \<Rightarrow> (Inl e, close_socket (c_nc c) w)
              | (Inr _, c, w) \<Rightarrow> (Inr c, w)))"

definition defaultFailoverTimeout :: int where
  "defaultFailoverTimeout = 5 * 1000000000"

fun alt_targets :: "string list \<Rightarrow> error + (string \<times> int) list" where
  "alt_targets [] = Inr []"
| "alt_targets (alt # alts) =
     bindE (splitAltHost alt) (\<lambda>tg. bindE (alt_targets alts) (\<lambda>tgs. Inr (tg # tgs)))"

fun sweep :: "net \<Rightarrow> ctx \<Rightarrow> config \<Rightarrow> int \<Rightarrow> (string \<times> int) list \<Rightarrow> error list \<Rightarrow> world \<Rightarrow>
    (error list + conn) \<times> world" where
  "sweep net ctx cfg timeout [] errs w = (Inl errs, w)"
| "sweep net ctx cfg timeout ((host, port) # tgs) errs w =
     (case connectHost net ctx cfg host port timeout w of
        (Inr c, w) \<Rightarrow> (Inr c, w)
      | (Inl e, w) \<Rightarrow>
          (let errs = errs @ [Wrapf ''%s: %w'' [EStr (JoinHostPort host (Itoa port))] e] in
           if ctx_Err ctx (length (w_dials w)) \<noteq> None then (Inl errs, w)
           else sweep net ctx cfg timeout tgs errs w))"

definition Connect :: "net \<Rightarrow> ctx \<Rightarrow> config \<Rightarrow> world \<Rightarrow> (error + conn) \<times> world" where
  "Connect net ctx cfg w =
     (if cfg_AltHosts cfg = []
      then connectHost net ctx cfg (cfg_Host cfg) (cfg_Port cfg) (cfg_ConnectTimeout cfg) w
      else
       let timeout = (if cfg_ConnectTimeout cfg \<le> 0 then defaultFailoverTimeout else cfg_ConnectTimeout cfg) in
       case alt_targets (cfg_AltHosts cfg) of
         Inl e \<Rightarrow> (Inl e, w)
       | Inr alts \<Rightarrow>
           (case sweep net ctx cfg timeout ((cfg_Host cfg, cfg_Port cfg) # alts) [] w of
              (Inr c, w) \<Rightarrow> (Inr c, w)
            | (Inl errs, w) \<Rightarrow> (Inl (Wrapf ''cubrid: all hosts unreachable: %w'' [] (Joined errs)), w)))"

end
