(* ===== verification/Connect_Facts.thy ===== *)
theory Connect_Facts
  imports Connect
begin

section \<open>Facts about establishing a connection\<close>

text \<open>
  Socket accounting (no attempt leaks a socket), the state of an established connection, the
  deadline of every dial, and the order of the failover sweep.
\<close>

subsection \<open>The connect reply\<close>

lemma ParseConnectReply_reply:
  assumes "0 \<le> sint pid" and "length bi = 8" and "length sid = 20"
  shows "ParseConnectReply (reply_bytes pid bi casid sid) = Inr
    \<lparr>cr_CASPid = pid, cr_Broker = bi, cr_Version = ProtocolVersion bi,
     cr_CASID = (if ProtocolVersion bi \<ge> 4 then casid else 0),
     cr_SessionID = (if ProtocolVersion bi \<ge> 3 then sid else replicate 20 0)\<rparr>"
  using assms
  by (auto simp: ParseConnectReply_def reply_bytes_def ReadStatus_eq Reader_Bytes_def Reader_take_eq
      ParseBrokerInfo_def AtLeast_def proto_versions Int32_eq Remaining_eq SessionIDSize_def Let_def)

subsection \<open>Sockets\<close>

definition world_ok :: "world \<Rightarrow> bool" where
  "world_ok w \<longleftrightarrow> (\<forall>s \<in> set (w_open w). s \<le> length (w_dials w))"

lemma DialContext_cases:
  assumes "DialContext net ctx addr w = (r, w')"
  shows "w_dials w' = w_dials w @ [(addr, ctx_Deadline ctx)]"
    and "case r of Inl _ \<Rightarrow> w_open w' = w_open w
         | Inr (sock, peer) \<Rightarrow> w_open w' = sock # w_open w \<and> sock = Suc (length (w_dials w))"
  using assms by (auto simp: DialContext_def Let_def split: sum.splits)

text \<open>The steps of the handshake on the connection alone keep its socket, target and flags.\<close>

definition same_target :: "conn \<Rightarrow> conn \<Rightarrow> bool" where
  "same_target c c' \<longleftrightarrow> c_cfg c' = c_cfg c \<and> c_host c' = c_host c \<and> c_port c' = c_port c \<and>
     c_clock c' = c_clock c \<and> c_autoCommit c' = c_autoCommit c \<and> c_bad c' = c_bad c \<and>
     c_closed c' = c_closed c \<and> c_frames c' = c_frames c"

lemma same_target_refl [simp]: "same_target c c"
  by (simp add: same_target_def)

lemma same_target_trans: "same_target a b \<Longrightarrow> same_target b c \<Longrightarrow> same_target a c"
  by (simp add: same_target_def)

locale socket_op =
  fixes m :: "conn \<Rightarrow> (error + 'a) \<times> conn"
  assumes keeps_target: "m c = (r, c') \<Longrightarrow> same_target c c'"
    and keeps_socket: "m c = (r, c') \<Longrightarrow> c_nc c' = c_nc c \<and> c_open c' = c_open c"
begin

lemma lift_keeps:
  "liftH m c w = (r, c', w') \<Longrightarrow> w' = w \<and> same_target c c' \<and> c_nc c' = c_nc c \<and> c_open c' = c_open c"
  using keeps_target keeps_socket by (auto simp: liftH_def split: prod.splits)

end

lemma socket_op_bind:
  assumes "socket_op m" and "\<And>x. socket_op (f x)"
  shows "socket_op (bindC m f)"
proof
  fix c r c'
  assume b: "bindC m f c = (r, c')"
  obtain q c1 where m: "m c = (q, c1)" by (cases "m c")
  note 1 = socket_op.keeps_target [OF assms(1) m] socket_op.keeps_socket [OF assms(1) m]
  show "same_target c c'"
    using b 1 by (cases q) (auto simp: bindC_def m intro: same_target_trans socket_op.keeps_target [OF assms(2)])
  show "c_nc c' = c_nc c \<and> c_open c' = c_open c"
    using b 1 by (cases q) (auto simp: bindC_def m dest: socket_op.keeps_socket [OF assms(2)])
qed

lemma socket_op_wrap: "socket_op m \<Longrightarrow> socket_op (wrapC f m)"
  unfolding socket_op_def wrapC_def by (auto split: prod.splits)

lemma socket_op_return: "socket_op (returnC r)"
  by unfold_locales (auto simp: returnC_def)

lemma socket_op_io: "socket_op (nc_Write b)" "socket_op read_int32" "socket_op read_response"
  by (unfold_locales; auto simp: nc_Write_def read_int32_def read_response_def same_target_def Let_def
      split: if_splits net_event.splits prod.splits)+

lemma socket_op_read: "(\<And>x. socket_op (f x)) \<Longrightarrow> socket_op (\<lambda>c. f (g c) c)"
  unfolding socket_op_def by blast

interpretation handshake_greet: socket_op handshake_greet
  unfolding handshake_greet_def
  by (rule socket_op_read [where g = c_cfg]) (intro socket_op_bind socket_op_wrap socket_op_io)

interpretation handshake_tls: socket_op "handshake_tls net"
  by unfold_locales (auto simp: handshake_tls_def same_target_def split: sum.splits)

lemma socket_op_auth_done:
  "socket_op (\<lambda>c. (Inr (), c\<lparr>c_version := v, c_broker := b, c_casPid := p, c_sessionID := s\<rparr>))"
  by unfold_locales (auto simp: same_target_def)

interpretation handshake_auth: socket_op handshake_auth
proof -
  let ?f = "\<lambda>(cfg, host, port). bindC (returnC (DBInfo (cfg_Database cfg) (cfg_User cfg) (cfg_Password cfg)
      (''cubrid://'' @ cfg_User cfg @ ''@'' @ host @ '':'' @ Itoa port @ ''/'' @ cfg_Database cfg) None)) (\<lambda>db.
         bindC (wrapC ''cubrid: auth: %w'' (nc_Write db)) (\<lambda>_.
         bindC (wrapC ''cubrid: auth reply: %w'' read_response) (\<lambda>payload.
         bindC (returnC (ParseConnectReply payload)) (\<lambda>rep c.
           (Inr (), c\<lparr>c_version := cr_Version rep, c_broker := cr_Broker rep,
                      c_casPid := cr_CASPid rep, c_sessionID := cr_SessionID rep\<rparr>)))))"
  have "socket_op (?f x)" for x
    by (cases x) (simp only: prod.case, intro socket_op_bind socket_op_wrap socket_op_io socket_op_return
        socket_op_auth_done)
  then have "socket_op (\<lambda>c. ?f (c_cfg c, c_host c, c_port c) c)" by (rule socket_op_read)
  then show "socket_op handshake_auth"
    by (simp add: handshake_auth_def [abs_def] Let_def)
qed

text \<open>
  What every phase of a connection attempt does to the world: it only adds dials, all under the
  attempt's own deadline, and the open sockets stay those of before plus at most the attempt's own.
\<close>

definition attempt :: "ctx \<Rightarrow> nat list \<Rightarrow> conn \<Rightarrow> world \<Rightarrow> conn \<Rightarrow> world \<Rightarrow> bool" where
  "attempt ctx others c w c' w' \<longleftrightarrow> same_target c c' \<and>
     (\<exists>ds. w_dials w' = w_dials w @ ds \<and> list_all (\<lambda>d. snd d = ctx_Deadline ctx) ds) \<and>
     (if c_open c' then w_open w' = c_nc c' # others else w_open w' = others) \<and> c_nc c' \<notin> set others \<and>
     (\<forall>s \<in> set (c_nc c' # others). s \<le> length (w_dials w'))"

definition attempt_ok :: "nat list \<Rightarrow> conn \<Rightarrow> world \<Rightarrow> bool" where
  "attempt_ok others c w \<longleftrightarrow> c_open c \<and> w_open w = c_nc c # others \<and> c_nc c \<notin> set others \<and>
     (\<forall>s \<in> set (c_nc c # others). s \<le> length (w_dials w))"

locale attempt_op =
  fixes ctx :: ctx and m :: "conn \<Rightarrow> world \<Rightarrow> (error + 'a) \<times> conn \<times> world"
  assumes accounts: "attempt_ok others c w \<Longrightarrow> m c w = (r, c', w') \<Longrightarrow> attempt ctx others c w c' w'"
    and stays_open: "attempt_ok others c w \<Longrightarrow> m c w = (Inr x, c', w') \<Longrightarrow> c_open c'"
begin

lemma success_ok: "attempt_ok others c w \<Longrightarrow> m c w = (Inr x, c', w') \<Longrightarrow> attempt_ok others c' w'"
  using accounts [of others c w "Inr x" c' w'] stays_open [of others c w x c' w']
  by (auto simp: attempt_def attempt_ok_def)

end

lemma attempt_trans:
  assumes "attempt ctx others c w c1 w1" and "attempt ctx others c1 w1 c2 w2"
  shows "attempt ctx others c w c2 w2"
  using assms by (auto simp: attempt_def intro: same_target_trans)

lemma attempt_op_bind:
  assumes "attempt_op ctx m" and "\<And>x. attempt_op ctx (f x)"
  shows "attempt_op ctx (bindH m f)"
proof
  fix others c w r c' w' x
  assume ok: "attempt_ok others c w"
  obtain q c1 w1 where m: "m c w = (q, c1, w1)" by (cases "m c w") auto
  note 1 = attempt_op.accounts [OF assms(1) ok m]
  have 2: "attempt_ok others c1 w1" if "q = Inr y" for y
    using attempt_op.success_ok [OF assms(1) ok] m that by blast
  show "attempt ctx others c w c' w'" if "bindH m f c w = (r, c', w')"
    using that 1 2
    by (cases q) (auto simp: bindH_def m intro: attempt_trans attempt_op.accounts [OF assms(2)])
  show "c_open c'" if "bindH m f c w = (Inr x, c', w')"
    using that 2 by (cases q) (auto simp: bindH_def m dest: attempt_op.stays_open [OF assms(2)])
qed

lemma attempt_op_lift:
  assumes "socket_op m"
  shows "attempt_op ctx (liftH m)"
proof
  fix others c w r c' w' x
  assume ok: "attempt_ok others c w"
  show "attempt ctx others c w c' w'" if "liftH m c w = (r, c', w')"
    using ok socket_op.lift_keeps [OF assms that] by (auto simp: attempt_def attempt_ok_def)
  show "c_open c'" if "liftH m c w = (Inr x, c', w')"
    using ok socket_op.lift_keeps [OF assms that] by (auto simp: attempt_ok_def)
qed

lemma attempt_op_return: "attempt_op ctx (returnH r)"
  by unfold_locales (auto simp: returnH_def attempt_def attempt_ok_def)

lemma attempt_op_read: "(\<And>x. attempt_op ctx (f x)) \<Longrightarrow> attempt_op ctx (\<lambda>c. f (g c) c)"
  unfolding attempt_op_def by blast

interpretation handshake_redirect: attempt_op ctx "handshake_redirect net ctx port"
proof
  fix others c w r c' w' x
  assume ok: "attempt_ok others c w"
  let ?w = "close_socket (c_nc c) w" and ?a = "JoinHostPort (c_host c) (Itoa (sint port))"
  have cl: "w_open ?w = others" "w_dials ?w = w_dials w"
    using ok by (simp_all add: close_socket_def attempt_ok_def)
  obtain q w1 where d: "DialContext net ctx ?a ?w = (q, w1)" by (cases "DialContext net ctx ?a ?w")
  note D = DialContext_cases [OF d, unfolded cl]
  have fresh: "Suc (length (w_dials w)) \<notin> set others" "\<forall>s \<in> set others. s \<le> Suc (length (w_dials w))"
    using ok by (auto simp: attempt_ok_def)
  have h: "handshake_redirect net ctx port c w = (case q of
      Inl e \<Rightarrow> (Inl (Wrapf ''cubrid: redirect dial: %w'' [] e), nc_Close c, w1)
    | Inr (sock, peer) \<Rightarrow> (Inr (), guard_begin ctx ((nc_Close c)\<lparr>c_nc := sock, c_open := True,
        c_peer := peer, c_sent := [], c_br := no_bytes\<rparr>), w1))"
    using d by (simp add: handshake_redirect_def Let_def nc_Close_def split: sum.split)
  show "attempt ctx others c w c' w'" if "handshake_redirect net ctx port c w = (r, c', w')"
    using that D fresh ok
    by (cases q) (auto simp: h attempt_def attempt_ok_def same_target_def guard_begin_def nc_Close_def)
  show "c_open c'" if "handshake_redirect net ctx port c w = (Inr x, c', w')"
    using that by (cases q) (auto simp: h guard_begin_def)
qed

lemma attempt_op_guard:
  assumes "attempt_op ctx m"
  shows "attempt_op ctx (\<lambda>c w. case m (guard_begin ctx c) w of (r, c, w) \<Rightarrow> (r, guard_end c, w))"
proof
  fix others c w r c' w' x
  assume ok: "attempt_ok others c w"
  then have ok': "attempt_ok others (guard_begin ctx c) w" by (simp add: attempt_ok_def guard_begin_def)
  obtain q c1 w1 where m: "m (guard_begin ctx c) w = (q, c1, w1)" by (cases "m (guard_begin ctx c) w") auto
  show "attempt ctx others c w c' w'"
    if "(case m (guard_begin ctx c) w of (r, c, w) \<Rightarrow> (r, guard_end c, w)) = (r, c', w')"
  proof -
    from that m have "c' = guard_end c1" "w' = w1" by simp_all
    with attempt_op.accounts [OF assms ok' m] show ?thesis
      by (simp add: attempt_def same_target_def guard_begin_def guard_end_def)
  qed
  show "c_open c'" if "(case m (guard_begin ctx c) w of (r, c, w) \<Rightarrow> (r, guard_end c, w)) = (Inr x, c', w')"
  proof -
    from that m have "c' = guard_end c1" "q = Inr x" by simp_all
    with attempt_op.stays_open [OF assms ok'] m show ?thesis by (simp add: guard_end_def)
  qed
qed

interpretation handshake: attempt_op ctx "handshake net ctx"
  unfolding handshake_def
proof (rule attempt_op_guard, rule attempt_op_bind)
  show "attempt_op ctx (liftH handshake_greet)"
    by (rule attempt_op_lift) (rule handshake_greet.socket_op_axioms)
  show "attempt_op ctx (if sint port < 0 then returnH (Inl (rejection port))
      else bindH (if 0 < sint port then handshake_redirect net ctx port else returnH (Inr ()))
        (\<lambda>_ c. bindH (if cfg_SSL (c_cfg c) then liftH (handshake_tls net) else returnH (Inr ()))
           (\<lambda>_. liftH handshake_auth) c))" for port
  proof -
    have tls: "attempt_op ctx (bindH (if ssl then liftH (handshake_tls net) else returnH (Inr ()))
        (\<lambda>_. liftH handshake_auth))" for ssl
      by (cases ssl) (simp_all add: attempt_op_bind attempt_op_lift attempt_op_return
          handshake_tls.socket_op_axioms handshake_auth.socket_op_axioms)
    have rest: "attempt_op ctx (\<lambda>c. bindH (if cfg_SSL (c_cfg c) then liftH (handshake_tls net)
        else returnH (Inr ())) (\<lambda>_. liftH handshake_auth) c)"
      by (rule attempt_op_read [where g = "\<lambda>c. cfg_SSL (c_cfg c)"]) (rule tls)
    have "attempt_op ctx (if 0 < sint port then handshake_redirect net ctx port else returnH (Inr ()))"
      by (simp add: attempt_op_return handshake_redirect.attempt_op_axioms)
    from attempt_op_bind [OF this rest] show ?thesis by (cases "sint port < 0") (simp_all add: attempt_op_return)
  qed
qed

subsection \<open>One attempt, and the sweep\<close>

lemma handshake_deadline: "handshake net ctx c w = (r, c', w') \<Longrightarrow> c_deadline c' = None"
  by (auto simp: handshake_def guard_end_def split: prod.splits)

text \<open>A ready connection: usable, in autocommit mode, bound to its target, no deadline armed.\<close>

definition ready :: "config \<Rightarrow> string \<Rightarrow> int \<Rightarrow> conn \<Rightarrow> bool" where
  "ready cfg host port c \<longleftrightarrow> Valid c \<and> c_open c \<and> c_autoCommit c \<and> c_deadline c = None \<and>
     c_cfg c = cfg \<and> c_host c = host \<and> c_port c = port"

definition dial_bound :: "net \<Rightarrow> int \<Rightarrow> nat \<Rightarrow> nat \<Rightarrow> int option \<Rightarrow> bool" where
  "dial_bound net timeout lo hi dl \<longleftrightarrow>
     (\<exists>d t. dl = Some d \<and> lo \<le> t \<and> t < hi \<and> d \<le> n_clock net t + timeout)"

text \<open>Every dial made from world \<open>w\<close> to \<open>w'\<close> ran under a deadline at most the timeout after a
  moment in between.\<close>

definition bounded_dials :: "net \<Rightarrow> int \<Rightarrow> world \<Rightarrow> world \<Rightarrow> bool" where
  "bounded_dials net timeout w w' \<longleftrightarrow>
     (\<exists>ds. w_dials w' = w_dials w @ ds \<and>
       (timeout > 0 \<longrightarrow>
         list_all (\<lambda>d. dial_bound net timeout (length (w_dials w)) (length (w_dials w')) (snd d)) ds))"

lemma bounded_dials_refl: "bounded_dials net timeout w w"
  by (simp add: bounded_dials_def)

lemma dial_bound_mono:
  "dial_bound net timeout lo hi dl \<Longrightarrow> lo' \<le> lo \<Longrightarrow> hi \<le> hi' \<Longrightarrow> dial_bound net timeout lo' hi' dl"
  unfolding dial_bound_def by (elim exE conjE) (intro exI conjI; (assumption | simp))

lemma bounded_dials_trans:
  assumes "bounded_dials net timeout w w1" and "bounded_dials net timeout w1 w2"
  shows "bounded_dials net timeout w w2"
proof -
  let ?P = "\<lambda>w w' d. dial_bound net timeout (length (w_dials w)) (length (w_dials w')) (snd d)"
  obtain ds where ds: "w_dials w1 = w_dials w @ ds" "timeout > 0 \<longrightarrow> list_all (?P w w1) ds"
    using assms(1) by (auto simp: bounded_dials_def)
  obtain es where es: "w_dials w2 = w_dials w1 @ es" "timeout > 0 \<longrightarrow> list_all (?P w1 w2) es"
    using assms(2) by (auto simp: bounded_dials_def)
  have w: "?P w w1 d \<Longrightarrow> ?P w w2 d" "?P w1 w2 d \<Longrightarrow> ?P w w2 d" for d :: "string \<times> int option"
    by (erule dial_bound_mono; simp add: ds(1) es(1))+
  have "timeout > 0 \<longrightarrow> list_all (?P w w2) (ds @ es)"
    using ds(2) es(2) w unfolding list_all_iff by (metis Un_iff set_append)
  moreover have "w_dials w2 = w_dials w @ (ds @ es)" using ds(1) es(1) by simp
  ultimately show ?thesis unfolding bounded_dials_def by blast
qed

text \<open>An attempt that runs under one deadline, set from the clock at its start.\<close>

lemma bounded_dials_attempt:
  assumes "w_dials w' = w_dials w @ ds" and "ds \<noteq> []" and "list_all (\<lambda>d. snd d = dl) ds"
    and "timeout > 0 \<longrightarrow> (\<exists>e. dl = Some e \<and> e \<le> n_clock net (length (w_dials w)) + timeout)"
  shows "bounded_dials net timeout w w'"
proof -
  have "length (w_dials w) < length (w_dials w')" using assms(1,2) by simp
  with assms(4) have "timeout > 0 \<longrightarrow> dial_bound net timeout (length (w_dials w)) (length (w_dials w')) dl"
    unfolding dial_bound_def by blast
  with assms(1,3) show ?thesis
    unfolding bounded_dials_def by (intro exI [of _ ds]) (auto simp: list_all_iff)
qed

lemma WithTimeout_deadline:
  "\<exists>d. ctx_Deadline (WithTimeout clock t ctx timeout) = Some d \<and> d \<le> clock t + timeout"
  by (simp add: WithTimeout_def Let_def split: option.split)

definition attempt_ctx :: "net \<Rightarrow> ctx \<Rightarrow> int \<Rightarrow> world \<Rightarrow> ctx" where
  "attempt_ctx net ctx timeout w =
     (if timeout > 0 then WithTimeout (n_clock net) (length (w_dials w)) ctx timeout else ctx)"

lemma attempt_ctx_deadline:
  "timeout > 0 \<longrightarrow> (\<exists>e. ctx_Deadline (attempt_ctx net ctx timeout w) = Some e \<and>
     e \<le> n_clock net (length (w_dials w)) + timeout)"
  using WithTimeout_deadline by (simp add: attempt_ctx_def)

text \<open>The three outcomes of an attempt: no socket, a failed handshake, a connection.\<close>

lemma connectHost_cases:
  assumes "connectHost net ctx cfg host port timeout w = (r, w')"
  obtains (refused) e where "DialContext net (attempt_ctx net ctx timeout w) (JoinHostPort host (Itoa port)) w = (Inl e, w')"
      and "r = Inl (Wrapf ''cubrid: dial %s: %w'' [EStr (JoinHostPort host (Itoa port))] e)"
  | (dialled) sock peer w1 h c2 w2
    where "DialContext net (attempt_ctx net ctx timeout w) (JoinHostPort host (Itoa port)) w = (Inr (sock, peer), w1)"
      and "handshake net (attempt_ctx net ctx timeout w) (new_conn net cfg host port sock peer) w1 = (h, c2, w2)"
      and "r = (case h of Inl e \<Rightarrow> Inl e | Inr _ \<Rightarrow> Inr c2)"
      and "w' = (case h of Inl e \<Rightarrow> close_socket (c_nc c2) w2 | Inr _ \<Rightarrow> w2)"
  using assms by (auto simp: connectHost_def Let_def attempt_ctx_def [symmetric] split: sum.splits prod.splits)

definition accounted :: "net \<Rightarrow> config \<Rightarrow> string \<Rightarrow> int \<Rightarrow> int \<Rightarrow> world \<Rightarrow> error + conn \<Rightarrow> world \<Rightarrow> bool" where
  "accounted net cfg host port timeout w r w' \<longleftrightarrow> world_ok w' \<and> bounded_dials net timeout w w' \<and>
     (case r of Inl _ \<Rightarrow> w_open w' = w_open w
      | Inr c \<Rightarrow> w_open w' = c_nc c # w_open w \<and> ready cfg host port c)"

lemma connectHost_accounted:
  assumes "world_ok w" and "connectHost net ctx cfg host port timeout w = (r, w')"
  shows "accounted net cfg host port timeout w r w'"
  using assms(2)
proof (cases rule: connectHost_cases)
  case (refused e)
  note D = DialContext_cases [OF refused(1)]
  have "bounded_dials net timeout w w'"
    by (rule bounded_dials_attempt [OF D(1) _ _ attempt_ctx_deadline [where ctx = ctx]]) simp_all
  with assms(1) D show ?thesis by (auto simp: accounted_def refused(2) world_ok_def)
next
  case (dialled sock peer w1 h c2 w2)
  let ?ctx = "attempt_ctx net ctx timeout w" and ?c = "new_conn net cfg host port sock peer"
  note D = DialContext_cases [OF dialled(1)]
  have ok: "attempt_ok (w_open w) ?c w1"
    using D assms(1) by (auto simp: attempt_ok_def new_conn_def world_ok_def)
  note A = handshake.accounts [OF ok dialled(2)]
  obtain ds where ds: "w_dials w2 = w_dials w1 @ ds" "list_all (\<lambda>d. snd d = ctx_Deadline ?ctx) ds"
    using A by (auto simp: attempt_def)
  have dials: "w_dials w' = w_dials w @ (JoinHostPort host (Itoa port), ctx_Deadline ?ctx) # ds"
    using ds D(1) by (simp add: dialled(4) close_socket_def split: sum.split)
  have B: "bounded_dials net timeout w w'"
    by (rule bounded_dials_attempt [OF dials _ _ attempt_ctx_deadline [where ctx = ctx]])
      (simp_all add: ds(2))
  have O: "case h of Inl _ \<Rightarrow> w_open w' = w_open w | Inr _ \<Rightarrow> w_open w' = c_nc c2 # w_open w \<and> c_open c2"
    using A handshake.stays_open [OF ok] dialled(2)
    by (cases h) (auto simp: dialled(4) attempt_def close_socket_def split: if_splits)
  have W: "world_ok w'"
    using O A by (cases h) (auto simp: world_ok_def attempt_def dialled(4) close_socket_def)
  have R: "ready cfg host port c2" if "h = Inr u" for u
    using that A O handshake_deadline [OF dialled(2)]
    by (simp add: ready_def attempt_def same_target_def new_conn_def Valid_def)
  from B O W R show ?thesis by (cases h) (simp_all add: accounted_def dialled(3))
qed

text \<open>The first target whose attempt succeeds wins; the error lists every failed attempt in order.\<close>

fun attempt_error :: "(string \<times> int) \<times> error \<Rightarrow> error" where
  "attempt_error ((host, port), e) = Wrapf ''%s: %w'' [EStr (JoinHostPort host (Itoa port))] e"

inductive sweeps :: "net \<Rightarrow> ctx \<Rightarrow> config \<Rightarrow> int \<Rightarrow> (string \<times> int) list \<Rightarrow> world \<Rightarrow>
    ((string \<times> int) \<times> error) list \<Rightarrow> (string \<times> int) option \<Rightarrow> conn option \<Rightarrow> world \<Rightarrow> bool"
  for net ctx cfg timeout
where
  exhausted: "sweeps net ctx cfg timeout [] w [] None None w"
| connected: "connectHost net ctx cfg host port timeout w = (Inr c, w') \<Longrightarrow>
    sweeps net ctx cfg timeout ((host, port) # tgs) w [] (Some (host, port)) (Some c) w'"
| gave_up: "connectHost net ctx cfg host port timeout w = (Inl e, w') \<Longrightarrow>
    ctx_Err ctx (length (w_dials w')) \<noteq> None \<Longrightarrow>
    sweeps net ctx cfg timeout ((host, port) # tgs) w [((host, port), e)] None None w'"
| next_host: "connectHost net ctx cfg host port timeout w = (Inl e, w1) \<Longrightarrow>
    ctx_Err ctx (length (w_dials w1)) = None \<Longrightarrow>
    sweeps net ctx cfg timeout tgs w1 fails tg r w' \<Longrightarrow>
    sweeps net ctx cfg timeout ((host, port) # tgs) w (((host, port), e) # fails) tg r w'"

lemma sweep_sweeps:
  "\<exists>fails tg r. sweeps net ctx cfg timeout tgs w fails tg r (snd (sweep net ctx cfg timeout tgs errs w)) \<and>
     fst (sweep net ctx cfg timeout tgs errs w) =
       (case r of None \<Rightarrow> Inl (errs @ map attempt_error fails) | Some c \<Rightarrow> Inr c)"
proof (induction tgs arbitrary: errs w)
  case Nil
  show ?case by (auto intro!: exI sweeps.exhausted)
next
  case (Cons tg tgs)
  obtain host port where tg: "tg = (host, port)" by (cases tg)
  obtain q w1 where q: "connectHost net ctx cfg host port timeout w = (q, w1)"
    by (cases "connectHost net ctx cfg host port timeout w")
  show ?case
  proof (cases q)
    case (Inr c)
    with q show ?thesis by (auto simp: tg intro!: exI sweeps.connected)
  next
    case (Inl e)
    let ?errs = "errs @ [attempt_error ((host, port), e)]"
    from Cons.IH [of w1 ?errs] obtain fails tg' r
      where IH: "sweeps net ctx cfg timeout tgs w1 fails tg' r (snd (sweep net ctx cfg timeout tgs ?errs w1))"
        "fst (sweep net ctx cfg timeout tgs ?errs w1) =
           (case r of None \<Rightarrow> Inl (?errs @ map attempt_error fails) | Some c \<Rightarrow> Inr c)"
      by blast
    show ?thesis
    proof (cases "ctx_Err ctx (length (w_dials w1))")
      case None
      from sweeps.next_host [OF q [unfolded Inl] None IH(1)] IH(2) q None Inl show ?thesis
        by (intro exI conjI) (auto simp: tg split: option.split)
    next
      case (Some ce)
      with sweeps.gave_up [OF q [unfolded Inl]] q Inl show ?thesis
        by (intro exI [of _ "[((host, port), e)]"] exI [of _ None]) (auto simp: tg)
    qed
  qed
qed

text \<open>By rule induction: the attempts form a prefix of the target list.\<close>

lemma sweeps_order:
  "sweeps net ctx cfg timeout tgs w fails tg r w' \<Longrightarrow>
    (case tg of None \<Rightarrow> r = None \<and> map fst fails = take (length fails) tgs \<and>
        (length fails < length tgs \<longrightarrow> ctx_Err ctx (length (w_dials w')) \<noteq> None)
      | Some t \<Rightarrow> r \<noteq> None \<and> length fails < length tgs \<and> tgs ! length fails = t \<and>
        map fst fails = take (length fails) tgs)"
  by (induction rule: sweeps.induct) (auto split: option.splits)

lemma sweeps_accounted:
  "sweeps net ctx cfg timeout tgs w fails tg r w' \<Longrightarrow> world_ok w \<Longrightarrow>
    world_ok w' \<and> bounded_dials net timeout w w' \<and>
    (case r of None \<Rightarrow> w_open w' = w_open w
     | Some c \<Rightarrow> w_open w' = c_nc c # w_open w \<and> (\<exists>host port. tg = Some (host, port) \<and> ready cfg host port c))"
proof (induction rule: sweeps.induct)
  case (exhausted w)
  then show ?case by (simp add: bounded_dials_refl)
next
  case (connected host port w c w' tgs)
  from connectHost_accounted [OF connected(2,1)] show ?case by (simp add: accounted_def)
next
  case (gave_up host port w e w' tgs)
  from connectHost_accounted [OF gave_up(3,1)] show ?case by (simp add: accounted_def)
next
  case (next_host host port w e w1 tgs fails tg r w')
  from connectHost_accounted [OF next_host(5,1)]
  have 1: "world_ok w1" "bounded_dials net timeout w w1" "w_open w1 = w_open w"
    by (simp_all add: accounted_def)
  with next_host.IH bounded_dials_trans [OF 1(2)] show ?case by (simp split: option.splits)
qed

end
