(* ===== verification/Protocol_Properties.thy ===== *)
theory Protocol_Properties
  imports Param_Facts Wire_Lob Wire_Batch Wire_Frame Connect_Facts "HOL-Library.Sublist"
begin

section \<open>Properties of the wire protocol\<close>

text \<open>
  What the protocol package promises to the client above it: exact framing, decoders that are
  bounded by their input, bind parameters the server reads back as the values they stand for, and
  the layouts of the handshake and of batch responses.
\<close>

subsection \<open>Reading the layouts\<close>

text \<open>What a C reader sees in a NUL-padded slot, and the sign of a big-endian int32.\<close>

definition c_string :: "bytes \<Rightarrow> string" where
  "c_string b = bytes_string (takeWhile (\<lambda>x. x \<noteq> 0) b)"

lemma get_u32_nonneg:
  assumes "a < 128"
  shows "0 \<le> sint (get_u32 [a, b, c, d])"
proof -
  have "a div 128 = 0" using assms by (simp add: word_less_def word_div_def uint_div)
  then have "\<not> bit a 7" by (simp add: bit_iff_odd)
  then have "\<not> bit (get_u32 [a, b, c, d]) 31"
    by (auto simp: get_u32_def be_get_def bit_simps dest: bit_imp_le_length)
  then show ?thesis using bit_last_iff [of "get_u32 [a, b, c, d]"] by (simp add: not_less)
qed

subsection \<open>Framing\<close>

text \<open>
  C7. \<^verbatim>\<open>ReadResponse\<close> accepts exactly the frames \<^verbatim>\<open>WriteRequest\<close> lays out within the payload limit:
  it returns a payload and its casInfo bytes if and only if the stream starts with their frame, and
  it leaves the stream right behind that frame.
\<close>

theorem frame_exact:
  "ReadResponse s = (Inr (payload, ci), s') \<longleftrightarrow>
    length ci = 4 \<and> length payload \<le> maxPayloadSize \<and> s = s'\<lparr>s_in := WriteRequest payload ci @ s_in s'\<rparr>"
    (is "?L \<longleftrightarrow> ?R")
proof
  assume L: ?L
  have "s_end s' = s_end s"
    using L by (auto simp: ReadResponse_def ReadFull_def Let_def split: if_splits prod.splits sum.splits)
  with ReadResponse_bounded [OF L] show ?R
    by (cases s; cases s') (simp add: WriteRequest_def)
next
  assume ?R
  with ReadResponse_frame [of ci payload "s_in s'" s'] show ?L by simp
qed

text \<open>
  C28. A response cut short is never taken for one: on a stream that ends inside a frame
  \<^verbatim>\<open>ReadResponse\<close> fails, with \<^verbatim>\<open>io.EOF\<close> exactly when the cut is at a boundary of \<^verbatim>\<open>io.ReadFull\<close>
  (before the header, or between the header and the payload) and \<^verbatim>\<open>io.ErrUnexpectedEOF\<close> otherwise.
\<close>

theorem truncated_frame:
  assumes "strict_prefix b (WriteRequest payload ci)" and "length ci = 4" and "length payload \<le> maxPayloadSize"
  shows "ReadResponse \<lparr>s_in = b, s_end = EOF\<rparr> =
    (Inl (if length b = 0 \<or> length b = 8 then EOF else ErrUnexpectedEOF), \<lparr>s_in = [], s_end = EOF\<rparr>)"
proof -
  have short: "length b < 8 + length payload"
    using prefix_length_less [OF assms(1)] assms(2) by (simp add: length_WriteRequest)
  have b: "b = take (length b) (WriteRequest payload ci)"
    using assms(1) by (auto simp: strict_prefix_def prefix_def)
  show ?thesis
  proof (cases "length b < 8")
    case True
    then show ?thesis by (auto simp: ReadResponse_def ReadFull_def)
  next
    case False
    then have "take 4 b = take 4 (WriteRequest payload ci)" by (subst b) (simp add: min_def)
    then have n: "unat (get_u32 (take 4 b)) = length payload"
      using assms(3) by (simp add: WriteRequest_def maxPayloadSize_def)
    with False short assms(3) show ?thesis by (auto simp: ReadResponse_def ReadFull_def Let_def)
  qed
qed

theorem truncated_frame_witness:
  "ReadResponse \<lparr>s_in = put_u32 2 @ [0, 0, 0, 1, 7], s_end = EOF\<rparr> = (Inl ErrUnexpectedEOF, \<lparr>s_in = [], s_end = EOF\<rparr>)"
  using truncated_frame [of "put_u32 2 @ [0, 0, 0, 1, 7]" "[7, 8]" "[0, 0, 0, 1]"]
  by (simp add: WriteRequest_def strict_prefix_def maxPayloadSize_def)

subsection \<open>Decoding values\<close>

text \<open>
  C20. The nesting cap of collections is exact: a collection wrapped in \<open>k\<close> others decodes to its
  value for every \<open>k\<close> below 32 and is refused with the nesting error from 32 on, however deep the
  peer nests it.
\<close>

theorem nesting_cap_exact:
  assumes "5 + 9 * k < 2147483648"
  shows "DecodeValue tz TypeSequence (nest_bytes k) =
    (if k < 32 then Inr (nest_value k) else Inl depth_error)"
  using assms nest_within_cap [of 0 k tz] nest_beyond_cap [of 0 k tz]
  by (auto simp: DecodeValue_def maxCollectionDepth_def)

theorem nesting_cap_exact_witness:
  "DecodeValue (\<lambda>_. None) TypeSequence (nest_bytes 31) = Inr (nest_value 31) \<and>
   DecodeValue (\<lambda>_. None) TypeSequence (nest_bytes 1000) = Inl depth_error"
  using nesting_cap_exact [of 31 "\<lambda>_. None"] nesting_cap_exact [of 1000 "\<lambda>_. None"] by simp

text \<open>
  C21. What a value decodes to is bounded by the bytes it came from: at most 32 levels of
  collections, and at most one value per four bytes beyond the first, whatever element counts and
  sizes the bytes announce.
\<close>

theorem decoded_size_bounded:
  assumes "DecodeValue tz t data = Inr v"
  shows "vdepth v \<le> 32 \<and> 4 * vnodes v \<le> length data + 4"
  using decode_depth(1) [of tz t data 0 v] decode_nodes(1) [of tz t data 0 v] assms
  by (simp add: DecodeValue_def)

theorem decoded_size_bounded_witness:
  "vdepth (nest_value 2) \<le> 32 \<and> 4 * vnodes (nest_value 2) \<le> length (nest_bytes 2) + 4"
  using decoded_size_bounded [of "\<lambda>_. None" TypeSequence "nest_bytes 2" "nest_value 2"]
    nest_within_cap [of 0 2 "\<lambda>_. None"]
  by (simp add: DecodeValue_def maxCollectionDepth_def)

text \<open>
  C18. A SET, MULTISET or SEQUENCE in the response layout decodes to exactly its elements, in order,
  NULL elements (announced with a size of zero or below) included, whatever follows it.
\<close>

theorem collection_decodes:
  assumes "t \<in> {TypeSet, TypeMultiset, TypeSequence}" and "sint nullsize \<le> 0" and "length es < 2147483648"
    and "list_all2 (elem_decodes (\<lambda>b. decodeValue tz et b 1)) es vs"
  shows "DecodeValue tz t (coll_bytes nullsize et es @ tail) = Inr (VSlice vs)"
  using decodeCollection_layout [OF assms(2,3), of 0 tz et vs tail] assms(1,4)
  by (simp add: DecodeValue_def decodeValue_collection maxCollectionDepth_def)

theorem collection_decodes_witness:
  "DecodeValue (\<lambda>_. None) TypeMultiset (coll_bytes (-1) TypeInt [Some (put_u32 7), None, Some (put_u32 9)] @ [1, 2]) =
    Inr (VSlice [VInt32 7, VNil, VInt32 9])"
proof -
  have "decodeValue tz TypeInt (put_u32 v) 1 = Inr (VInt32 v)" for tz v
    by (subst decodeValue.simps) (simp add: type_codes BE_Uint32_def)
  then show ?thesis
    by (intro collection_decodes) simp_all
qed

subsection \<open>Bind parameters\<close>

text \<open>
  C17. A bound scalar reaches the server as two arguments, a wire type and the value's bytes, and a
  receiver that follows the convention of request arguments, length zero for NULL and otherwise a
  value of the announced type, reads the value from them: integers and floats exactly, booleans as
  SMALLINT, text up to trailing NULs, times as their wall clock to the millisecond. Only nil is
  written with length zero, with one exception that loses a value: an empty, non-nil []byte is
  written that way too, so it arrives as NULL. The empty string does not, because of its NUL.
\<close>

theorem scalar_bind_roundtrip:
  assumes "paramWireType v = Inr t" and "bindable v"
  shows "\<exists>w' content. EncodeParam w v = Inr w' \<and> w_buf w' = w_buf w @ encode_args [[t], content] \<and>
    read_arg tz t content = Inr (decoded_as v) \<and> (content = [] \<longleftrightarrow> v = VNil \<or> v = VBytes [])"
proof -
  have "scalar v" using assms(1) by (simp add: scalar_def)
  then have "w_buf (encodeScalarValue (ArgByte w t) v) = w_buf w @ encode_args [[t], scalar_content v]"
    by (simp add: w_buf_scalar wire_simps)
  moreover have "EncodeParam w v = Inr (encodeScalarValue (ArgByte w t) v)"
    using assms(1) by (cases v) (simp_all add: EncodeParam_def)
  ultimately show ?thesis using scalar_decodes [OF assms] scalar_content_Nil [OF \<open>scalar v\<close>] by blast
qed

theorem scalar_bind_roundtrip_witness:
  "\<exists>w' content. EncodeParam NewWriter (VBool True) = Inr w' \<and>
    w_buf w' = w_buf NewWriter @ encode_args [[TypeShort], content] \<and>
    read_arg (\<lambda>_. None) TypeShort content = Inr (VInt16 1) \<and> content \<noteq> []"
  using scalar_bind_roundtrip [of "VBool True" TypeShort NewWriter "\<lambda>_. None"] by simp

text \<open>
  C19. A collection is accepted as a bind parameter exactly when it is empty or its non-NULL
  elements, of which there is one at least, are scalars of one wire type; it is then written as a
  SEQUENCE of that type with one argument per element. Nested, mixed and all-NULL collections are
  errors and write nothing.
\<close>

theorem collection_bind_iff:
  "EncodeParam w (VSlice vs) = Inr w' \<longleftrightarrow>
    (\<exists>t. homogeneous vs t \<and>
      w_buf w' = w_buf w @ encode_args [[TypeSequence], t # encode_args (map scalar_content vs)])"
proof -
  have bytes: "w_buf (ArgBytes (ArgByte w TypeSequence) (Writer_Bytes (encodeElems (RawByte NewWriter t) vs))) =
      w_buf w @ encode_args [[TypeSequence], t # encode_args (map scalar_content vs)]"
    if "homogeneous vs t" for t
    using w_buf_encodeElems [OF homogeneous_scalar [OF that], of vs] by (simp add: wire_simps)
  have ext: "v = v' \<longleftrightarrow> w_buf v = w_buf v'" for v v' :: writer by (cases v; cases v') simp
  show ?thesis
    using bytes by (simp add: EncodeParam_def encodeCollectionParam_iff) (metis ext)
qed

subsection \<open>The handshake\<close>

text \<open>
  C36. The authentication block is built exactly when each field fits its slot with a terminating
  NUL: a block means that all four do, an error that one does not. The block is then 628 bytes long,
  and a server that reads each slot up to its first NUL gets the database, user, password and URL
  back.
\<close>

theorem auth_block_fields:
  assumes "0 \<notin> set (string_bytes db)" and "0 \<notin> set (string_bytes user)" and "0 \<notin> set (string_bytes password)"
    and "0 \<notin> set (string_bytes url)"
  shows "case DBInfo db user password url None of
      Inl e \<Rightarrow> 32 \<le> length db \<or> 32 \<le> length user \<or> 32 \<le> length password \<or> 512 \<le> length url
    | Inr b \<Rightarrow> length db < 32 \<and> length user < 32 \<and> length password < 32 \<and> length url < 512 \<and> length b = 628 \<and>
        c_string (take 32 b) = db \<and> c_string (take 32 (drop 32 b)) = user \<and>
        c_string (take 32 (drop 64 b)) = password \<and> c_string (take 512 (drop 96 b)) = url"
proof (cases "length db < 32 \<and> length user < 32 \<and> length password < 32 \<and> length url < 512")
  case True
  let ?d = "pad_field 32 (string_bytes db)" and ?u = "pad_field 32 (string_bytes user)"
    and ?p = "pad_field 32 (string_bytes password)" and ?w = "pad_field 512 (string_bytes url)"
  have len: "length ?d = 32" "length ?u = 32" "length ?p = 32" "length ?w = 512"
    using True by (simp_all add: length_pad_field)
  have "DBInfo db user password url None = Inr (?d @ ?u @ ?p @ ?w @ replicate 20 0)"
    using True by (simp add: DBInfo_layout)
  with assms len True show ?thesis by (simp add: c_string_def takeWhile_pad_field)
next
  case False
  then show ?thesis
    by (auto simp: DBInfo_def DBInfo_put_def Let_def split: sum.split)
qed

theorem auth_block_fields_witness:
  "case DBInfo ''demodb'' ''dba'' ''pw'' ''cubrid://dba@h:1/demodb'' None of
     Inl e \<Rightarrow> False
   | Inr b \<Rightarrow> length b = 628 \<and> c_string (take 32 b) = ''demodb'' \<and> c_string (take 32 (drop 32 b)) = ''dba''"
  using auth_block_fields [of "''demodb''" "''dba''" "''pw''" "''cubrid://dba@h:1/demodb''"]
  by (auto simp: string_bytes_def byte_of_char_def split: sum.splits)

subsection \<open>Status codes\<close>

text \<open>
  C40. The fallback for brokers that send the code and then the message loses the start of the
  message: a message of four bytes or more whose first byte is below 128 (ASCII text) is reported
  without its first four bytes, because the read that looks for a second code has consumed them.
\<close>

theorem legacy_message_lost:
  assumes "sint code < 0" and "4 \<le> length msg" and "hd msg < 128"
  shows "ReadStatus (NewReader (put_u32 code @ msg)) = Inl (ServerError code (bytes_string (trimNul (drop 4 msg))))"
proof -
  obtain a b c d rest where "msg = a # b # c # d # rest"
    using assms(2) by (auto simp: numeral_eq_Suc Suc_le_length_iff)
  with assms(3) have "0 \<le> sint (get_u32 (take 4 msg))" by (simp add: get_u32_nonneg)
  with assms(1,2) show ?thesis by (simp add: ReadStatus_eq Let_def)
qed

theorem legacy_message_lost_witness:
  "ReadStatus (NewReader (put_u32 (-493) @ string_bytes ''Syntax error'')) = Inl (ServerError (-493) ''ax error'')"
proof -
  have "trimNul (drop 4 (string_bytes ''Syntax error'')) = string_bytes ''ax error''"
    by (simp add: string_bytes_def byte_of_char_def trimNul.simps)
  then have "bytes_string (trimNul (drop 4 (string_bytes ''Syntax error''))) = ''ax error''"
    by (simp only: bytes_string_of_string_bytes)
  moreover have "hd (string_bytes ''Syntax error'') < 128" "4 \<le> length (string_bytes ''Syntax error'')"
    by (simp_all add: string_bytes_def byte_of_char_def)
  ultimately show ?thesis
    using legacy_message_lost [of "-493" "string_bytes ''Syntax error''"] by simp
qed

end
