(* ===== verification/Lob.thy ===== *)
theory Lob
  imports Broker Wire_Lob Param_Facts
begin

section \<open>Large objects (cubrid/lob.go)\<close>

text \<open>
  A \<^verbatim>\<open>Lob\<close> is a locator with its packed handle. Reads and writes are loops of requests of at most
  128 KiB; the server may serve less than asked. The buffer \<^verbatim>\<open>p\<close> of \<^verbatim>\<open>ReadAt\<close> is given by its length
  and what was read into it.
\<close>

subsection \<open>Creation\<close>

definition newLob :: "ctx \<Rightarrow> int32 \<Rightarrow> lob conn_m" where
  "newLob ctx ty =
     (let w = NewLobRequest NewWriter ty in
      bindC (roundTrip ctx (Writer_Bytes w)) (\<lambda>r.
        returnC (bindE (ReadStatus r) (\<lambda>(n, r).
                 bindE (Reader_Bytes r (sint n)) (\<lambda>(raw, r).
                 bindE (ParseLobHandle raw) (\<lambda>h.
                   Inr \<lparr>lob_handle = h, lob_isClob = (ty = ucast TypeClob), lob_writable = True\<rparr>))))))"

definition NewBlob :: "ctx \<Rightarrow> lob conn_m" where
  "NewBlob ctx = newLob ctx (ucast TypeBlob)"

definition NewClob :: "ctx \<Rightarrow> lob conn_m" where
  "NewClob ctx = newLob ctx (ucast TypeClob)"

definition resultLob :: "byte \<Rightarrow> bytes \<Rightarrow> error + lob" where
  "resultLob ty packed =
     bindE (ParseLobHandle packed) (\<lambda>h.
       Inr \<lparr>lob_handle = h, lob_isClob = (ty = TypeClob), lob_writable = False\<rparr>)"

definition Lob_Size :: "lob \<Rightarrow> int64" where
  "Lob_Size l = lh_Size (lob_handle l)"

definition IsClob :: "lob \<Rightarrow> bool" where
  "IsClob l = lob_isClob l"

subsection \<open>ReadAt\<close>

text \<open>The reply to one read request: the status is the number of bytes read.\<close>

definition ReadLobReply :: "int \<Rightarrow> reader \<Rightarrow> error + bytes" where
  "ReadLobReply chunk r =
     bindE (ReadStatus r) (\<lambda>(rc, r).
       if sint rc > chunk
       then Inl (Errorf ''cubrid: READ_LOB returned %d bytes for a %d-byte request'' [EInt (sint rc), EInt chunk])
       else if sint rc = 0 then Inl EOF
       else bindE (Reader_Bytes r (sint rc)) (\<lambda>(b, r). Inr b))"

lemma ReadStatus_nonneg: "ReadStatus r = Inr (rc, r') \<Longrightarrow> 0 \<le> sint rc"
  by (auto simp: ReadStatus_def bindE_Inr_iff Let_def split: if_splits prod.splits)

lemma ReadLobReply_nonempty:
  assumes "ReadLobReply chunk r = Inr b"
  shows "b \<noteq> [] \<and> int (length b) \<le> chunk"
proof -
  from assms obtain rc r1 r2 where s: "ReadStatus r = Inr (rc, r1)" "\<not> sint rc > chunk" "sint rc \<noteq> 0"
    and b: "Reader_take r1 (sint rc) = Inr (b, r2)"
    by (auto simp: ReadLobReply_def bindE_Inr_iff Reader_Bytes_def split: if_splits)
  from ReadStatus_nonneg [OF s(1)] s(2,3) Reader_take_Inr [OF b] show ?thesis by auto
qed

lemma fill_progress: "n < len \<Longrightarrow> b \<noteq> [] \<Longrightarrow> len - (n + min (length b) (len - n)) < len - (n :: nat)"
  by (cases b) auto

function ReadAt_loop :: "ctx \<Rightarrow> lob \<Rightarrow> int64 \<Rightarrow> nat \<Rightarrow> bytes \<Rightarrow> conn \<Rightarrow> (bytes \<times> error option) \<times> conn" where
  "ReadAt_loop ctx l off len p c =
     (if length p < len then
        let chunk = min (int len - int (length p)) LobMaxChunk;
            w = ReadLobRequest NewWriter (lob_handle l) (off + of_nat (length p)) (of_int chunk)
        in case roundTrip ctx (Writer_Bytes w) c of
             (Inl e, c) \<Rightarrow> ((p, Some e), c)
           | (Inr r, c) \<Rightarrow>
               (case ReadLobReply chunk r of
                  Inl e \<Rightarrow> ((p, Some e), c)
                | Inr b \<Rightarrow> ReadAt_loop ctx l off len (p @ take (len - length p) b) c)
      else ((p, None), c))"
  by pat_completeness auto
termination
  by (relation "measure (\<lambda>(ctx, l, off, len, p, c). len - length p)")
    (auto dest!: ReadLobReply_nonempty intro: fill_progress)

declare ReadAt_loop.simps [simp del]

definition ReadAt :: "ctx \<Rightarrow> lob \<Rightarrow> nat \<Rightarrow> int64 \<Rightarrow> conn \<Rightarrow> (bytes \<times> error option) \<times> conn" where
  "ReadAt ctx l len off c =
     (if sint off < 0 then (([], Some (Errorf ''cubrid: negative LOB read offset %d'' [EInt (sint off)])), c)
      else ReadAt_loop ctx l off len [] c)"

subsection \<open>Append\<close>

definition WriteLobReply :: "int \<Rightarrow> reader \<Rightarrow> error + int32" where
  "WriteLobReply chunk r =
     bindE (ReadStatus r) (\<lambda>(rc, r).
       if sint rc \<le> 0 \<or> sint rc > chunk
       then Inl (Errorf ''cubrid: WRITE_LOB wrote %d bytes of a %d-byte chunk'' [EInt (sint rc), EInt chunk])
       else Inr rc)"

lemma WriteLobReply_range: "WriteLobReply chunk r = Inr rc \<Longrightarrow> 0 < sint rc \<and> sint rc \<le> chunk"
  by (auto simp: WriteLobReply_def bindE_Inr_iff split: if_splits)

function Append_loop :: "ctx \<Rightarrow> bytes \<Rightarrow> nat \<Rightarrow> lob \<Rightarrow> conn \<Rightarrow> (nat \<times> error option) \<times> lob \<times> conn" where
  "Append_loop ctx p n l c =
     (if n < length p then
        let chunk = min (int (length p) - int n) LobMaxChunk;
            w = WriteLobRequest NewWriter (lob_handle l) (lh_Size (lob_handle l)) (take (nat chunk) (drop n p))
        in case roundTrip ctx (Writer_Bytes w) c of
             (Inl e, c) \<Rightarrow> ((n, Some e), l, c)
           | (Inr r, c) \<Rightarrow>
               (case WriteLobReply chunk r of
                  Inl e \<Rightarrow> ((n, Some e), l, c)
                | Inr rc \<Rightarrow>
                    (case SetSize (lob_handle l) (lh_Size (lob_handle l) + scast rc) of
                       Inl e \<Rightarrow> ((n + nat (sint rc), Some e), l, c)
                     | Inr h \<Rightarrow> Append_loop ctx p (n + nat (sint rc)) (l\<lparr>lob_handle := h\<rparr>) c))
      else ((n, None), l, c))"
  by pat_completeness auto
termination
  by (relation "measure (\<lambda>(ctx, p, n, l, c). length p - n)") (auto dest!: WriteLobReply_range)

declare Append_loop.simps [simp del]

definition Append :: "ctx \<Rightarrow> bytes \<Rightarrow> lob \<Rightarrow> conn \<Rightarrow> (nat \<times> error option) \<times> lob \<times> conn" where
  "Append ctx p l c =
     (if \<not> lob_writable l
      then ((0, Some (Errorf ''cubrid: LOB is read-only (locators from result sets cannot be written)'' [])), l, c)
      else Append_loop ctx p 0 l c)"

subsection \<open>The io.ReaderAt contract\<close>

lemma ReadAt_loop_contract:
  "length p \<le> len \<Longrightarrow> ReadAt_loop ctx l off len p c = ((q, err), c') \<Longrightarrow>
    length q \<le> len \<and> (err = None \<longrightarrow> length q = len) \<and> take (length p) q = p"
proof (induction ctx l off len p c rule: ReadAt_loop.induct)
  case (1 ctx l off len p c)
  let ?chunk = "min (int len - int (length p)) LobMaxChunk"
  let ?w = "ReadLobRequest NewWriter (lob_handle l) (off + of_nat (length p)) (of_int ?chunk)"
  show ?case
  proof (cases "length p < len")
    case False
    with "1.prems" show ?thesis by (simp add: ReadAt_loop.simps [of ctx l off len p c])
  next
    case True
    obtain a c1 where rt: "roundTrip ctx (Writer_Bytes ?w) c = (a, c1)"
      by (cases "roundTrip ctx (Writer_Bytes ?w) c")
    show ?thesis
    proof (cases "\<exists>r b. a = Inr r \<and> ReadLobReply ?chunk r = Inr b")
      case False
      with True rt "1.prems" show ?thesis
        by (auto simp: ReadAt_loop.simps [of ctx l off len p c] Let_def split: sum.splits)
    next
      case more: True
      then obtain r b where a: "a = Inr r" and b: "ReadLobReply ?chunk r = Inr b" by blast
      let ?p = "p @ take (len - length p) b"
      have "ReadAt_loop ctx l off len ?p c1 = ((q, err), c')"
        using True rt a b "1.prems"(2) by (simp add: ReadAt_loop.simps [of ctx l off len p c] Let_def)
      moreover have "length ?p \<le> len" using True by simp
      ultimately have "length q \<le> len \<and> (err = None \<longrightarrow> length q = len) \<and> take (length ?p) q = ?p"
        using "1.IH" [OF True refl refl rt [symmetric] a b] by blast
      moreover have "take (length p) q = take (length p) (take (length ?p) q)" by (simp add: min_def)
      ultimately show ?thesis by simp
    qed
  qed
qed

subsection \<open>ReadAll, String, and binding\<close>

text \<open>
  The offset of \<^verbatim>\<open>ReadAll\<close> stays at or below the locator's size, so it is kept as an integer.
\<close>

lemma ReadAt_contract:
  assumes "ReadAt ctx l len off c = ((q, err), c')"
  shows "length q \<le> len \<and> (err = None \<longrightarrow> length q = len)"
  using assms ReadAt_loop_contract [of "[]" len ctx l off c q err c']
  by (auto simp: ReadAt_def split: if_splits)

function ReadAll_loop :: "ctx \<Rightarrow> lob \<Rightarrow> bytes \<Rightarrow> int \<Rightarrow> conn \<Rightarrow> (error + bytes) \<times> conn" where
  "ReadAll_loop ctx l out off c =
     (if off < sint (lh_Size (lob_handle l)) then
        let chunk = min (sint (lh_Size (lob_handle l)) - off) LobMaxChunk
        in case ReadAt ctx l (nat chunk) (of_int off) c of
             ((buf, err), c) \<Rightarrow>
               (let out = out @ buf; off = off + int (length buf) in
                if err = Some EOF \<or> (err = None \<and> buf = []) then (Inr out, c)
                else case err of
                  Some e \<Rightarrow> (Inl e, c)
                | None \<Rightarrow> ReadAll_loop ctx l out off c)
      else (Inr out, c))"
  by pat_completeness auto
termination
proof (relation "measure (\<lambda>(ctx, l, out, off, c). nat (sint (lh_Size (lob_handle l)) - off))", goal_cases)
  case (2 ctx l out off c chunk re c' buf err out' off')
  then show ?case by (cases buf) auto
qed simp

declare ReadAll_loop.simps [simp del]

definition ReadAll :: "ctx \<Rightarrow> lob \<Rightarrow> bytes conn_m" where
  "ReadAll ctx l = ReadAll_loop ctx l [] 0"

definition Lob_String :: "ctx \<Rightarrow> lob \<Rightarrow> string conn_m" where
  "Lob_String ctx l = bindC (ReadAll ctx l) (\<lambda>b. returnC (Inr (bytes_string b)))"

definition Lob_encodeParam :: "writer \<Rightarrow> lob option \<Rightarrow> error + writer" where
  "Lob_encodeParam w l =
     (case l of
        None \<Rightarrow> EncodeParam w VNil
      | Some l \<Rightarrow>
          (let ty = (if lob_isClob l then TypeClob else TypeBlob);
               w = ArgByte w ty
           in Inr (ArgBytes w (Packed (lob_handle l)))))"

subsection \<open>Operations on the connection\<close>

interpretation newLob: conn_request "newLob ctx ty"
  unfolding newLob_def Let_def by (intro conn_rules conn_request_roundTrip)

lemma conn_steps_request: "conn_steps c c1 \<Longrightarrow> roundTrip ctx p c1 = (r, c2) \<Longrightarrow> conn_steps c c2"
  by (metis conn_step.request rtranclp.rtrancl_into_rtrancl snd_conv)

lemma ReadAt_loop_steps: "conn_steps c0 c \<Longrightarrow> conn_steps c0 (snd (ReadAt_loop ctx l off len p c))"
proof (induction ctx l off len p c rule: ReadAt_loop.induct)
  case (1 ctx l off len p c)
  show ?case
    by (subst ReadAt_loop.simps)
      (auto simp: Let_def "1.prems" split: prod.split sum.split intro: "1.IH" conn_steps_request [OF "1.prems"])
qed

interpretation ReadAt: conn_op "ReadAt ctx l len off"
  by unfold_locales (simp add: ReadAt_def ReadAt_loop_steps)

lemma ReadAll_loop_steps: "conn_steps c0 c \<Longrightarrow> conn_steps c0 (snd (ReadAll_loop ctx l out off c))"
proof (induction ctx l out off c rule: ReadAll_loop.induct)
  case (1 ctx l out off c)
  have step: "conn_steps c0 c'" if "ReadAt ctx l n i c = (r, c')" for n i r c'
    using rtranclp_trans [OF "1.prems" ReadAt.steps] that by (metis snd_conv)
  show ?case
    by (subst ReadAll_loop.simps)
      (auto simp: Let_def "1.prems" split: prod.split option.split intro: "1.IH" step)
qed

interpretation ReadAll: conn_op "ReadAll ctx l"
  by unfold_locales (simp add: ReadAll_def ReadAll_loop_steps)

lemma Append_loop_steps:
  "conn_steps c0 c \<Longrightarrow> conn_steps c0 (snd (snd (Append_loop ctx p n l c)))"
proof (induction ctx p n l c rule: Append_loop.induct)
  case (1 ctx p n l c)
  show ?case
    by (subst Append_loop.simps)
      (auto simp: Let_def "1.prems" split: prod.split sum.split intro: "1.IH" conn_steps_request [OF "1.prems"])
qed

interpretation Append: conn_op "\<lambda>c. case Append ctx p l c of (r, l', c') \<Rightarrow> ((r, l'), c')"
  by unfold_locales (simp add: Append_def Append_loop_steps split_beta)

end
