(* ===== verification/Stmt.thy ===== *)
theory Stmt
  imports Lob
begin

section \<open>Prepared statements: metadata and requests (cubrid/stmt.go)\<close>

text \<open>
  Column metadata, the statement record, parsing of the PREPARE response with its guards against
  hostile counts, OUT parameters, and the EXECUTE request. Execution itself needs the row iterator
  and is in \<open>Exec\<close>.
\<close>

subsection \<open>Columns\<close>

record column =
  col_Name :: string
  col_TypeCode :: byte
  col_Collection :: byte
  col_Charset :: byte
  col_Scale :: int16
  col_Precision :: int32
  col_AttrName :: string
  col_TableName :: string
  col_Nullable :: bool
  col_DefaultValue :: string
  col_AutoIncrement :: bool
  col_UniqueKey :: bool
  col_PrimaryKey :: bool
  col_ForeignKey :: bool

definition zero_column :: column where
  "zero_column = \<lparr>col_Name = [], col_TypeCode = 0, col_Collection = 0, col_Charset = 0, col_Scale = 0,
     col_Precision = 0, col_AttrName = [], col_TableName = [], col_Nullable = False, col_DefaultValue = [],
     col_AutoIncrement = False, col_UniqueKey = False, col_PrimaryKey = False, col_ForeignKey = False\<rparr>"

definition decodeType :: "column \<Rightarrow> byte" where
  "decodeType c =
     (if col_Collection c = 1 then TypeSet
      else if col_Collection c = 2 then TypeMultiset
      else if col_Collection c = 3 then TypeSequence
      else col_TypeCode c)"

definition type_names :: "(byte \<times> string) list" where
  "type_names =
     [(TypeNull, ''NULL''), (TypeChar, ''CHAR''), (TypeVarchar, ''VARCHAR''), (TypeNchar, ''NCHAR''),
      (TypeVarNchar, ''NCHAR VARYING''), (TypeBit, ''BIT''), (TypeVarbit, ''BIT VARYING''),
      (TypeNumeric, ''NUMERIC''), (TypeInt, ''INTEGER''), (TypeUInt, ''INTEGER''),
      (TypeShort, ''SMALLINT''), (TypeUShort, ''SMALLINT''), (TypeMonetary, ''MONETARY''),
      (TypeFloat, ''FLOAT''), (TypeDouble, ''DOUBLE''), (TypeDate, ''DATE''), (TypeTime, ''TIME''),
      (TypeTimestamp, ''TIMESTAMP''), (TypeSet, ''SET''), (TypeMultiset, ''MULTISET''),
      (TypeSequence, ''SEQUENCE''), (TypeObject, ''OBJECT''), (TypeResultset, ''RESULTSET''),
      (TypeBigint, ''BIGINT''), (TypeUBigint, ''BIGINT''), (TypeDatetime, ''DATETIME''),
      (TypeBlob, ''BLOB''), (TypeClob, ''CLOB''), (TypeEnum, ''ENUM''),
      (TypeTimestampTZ, ''TIMESTAMPTZ''), (TypeTimestampLTZ, ''TIMESTAMPLTZ''),
      (TypeDatetimeTZ, ''DATETIMETZ''), (TypeDatetimeLTZ, ''DATETIMELTZ''), (TypeJSON, ''JSON'')]"

definition TypeName :: "column \<Rightarrow> string" where
  "TypeName c =
     (if col_Collection c = 1 then ''SET''
      else if col_Collection c = 2 then ''MULTISET''
      else if col_Collection c = 3 then ''SEQUENCE''
      else case map_of type_names (col_TypeCode c) of Some s \<Rightarrow> s | None \<Rightarrow> [])"

definition minColumnWireBytes :: nat where
  "minColumnWireBytes = 28"

definition readColumnType :: "reader \<Rightarrow> error + column \<times> reader" where
  "readColumnType r =
     bindE (Reader_Byte r) (\<lambda>(tb, r).
       if tb AND 0x80 \<noteq> 0 then
         bindE (Reader_Byte r) (\<lambda>(tc, r).
           Inr (zero_column\<lparr>col_Charset := tb AND 0x07, col_Collection := drop_bit 5 (tb AND 0x60),
                            col_TypeCode := tc\<rparr>, r))
       else Inr (zero_column\<lparr>col_TypeCode := tb AND 0x1F, col_Collection := drop_bit 5 tb\<rparr>, r))"

definition readColumn :: "reader \<Rightarrow> error + column \<times> reader" where
  "readColumn r =
     bindE (readColumnType r) (\<lambda>(col, r).
     bindE (Int16 r) (\<lambda>(scale, r).
     bindE (Int32 r) (\<lambda>(precision, r).
     bindE (Reader_String r) (\<lambda>(name, r).
     bindE (Reader_String r) (\<lambda>(attrName, r).
     bindE (Reader_String r) (\<lambda>(tableName, r).
     bindE (Reader_Byte r) (\<lambda>(nb, r).
     bindE (Reader_String r) (\<lambda>(defaultValue, r).
     bindE (parse_loop (\<lambda>_. Reader_Byte) 0 7 r) (\<lambda>(flags, r).
       Inr (col\<lparr>col_Scale := scale, col_Precision := precision, col_Name := name, col_AttrName := attrName,
                col_TableName := tableName, col_Nullable := (nb = 0), col_DefaultValue := defaultValue,
                col_AutoIncrement := (flags ! 0 = 1), col_UniqueKey := (flags ! 1 = 1),
                col_PrimaryKey := (flags ! 2 = 1), col_ForeignKey := (flags ! 5 = 1)\<rparr>, r))))))))))"

subsection \<open>Statements\<close>

definition cmdTypeInsert :: byte where "cmdTypeInsert = 20"
definition cmdTypeSelect :: byte where "cmdTypeSelect = 21"
definition cmdTypeUpdate :: byte where "cmdTypeUpdate = 22"
definition cmdTypeDelete :: byte where "cmdTypeDelete = 23"
definition cmdTypeCall :: byte where "cmdTypeCall = 24"
definition cmdTypeCallSP :: byte where "cmdTypeCallSP = 126"
definition prepareCallFlag :: byte where "prepareCallFlag = 0x40"
definition paramModeIn :: byte where "paramModeIn = 1"
definition paramModeOut :: byte where "paramModeOut = 2"

lemmas cmd_types = cmdTypeInsert_def cmdTypeSelect_def cmdTypeUpdate_def cmdTypeDelete_def
  cmdTypeCall_def cmdTypeCallSP_def

text \<open>\<open>None\<close> for \<^verbatim>\<open>outParams\<close> and \<^verbatim>\<open>outRow\<close> is Go's nil slice.\<close>

record stmt =
  st_sql :: string
  st_handle :: int32
  st_cmdType :: byte
  st_paramCount :: nat
  st_cols :: "column list"
  st_closed :: bool
  st_outParams :: "bool list option"
  st_outRow :: "value list option"

definition isCall :: "stmt \<Rightarrow> bool" where
  "isCall s \<longleftrightarrow> st_cmdType s = cmdTypeCall \<or> st_cmdType s = cmdTypeCallSP"

text \<open>
  The part of \<^verbatim>\<open>prepare\<close> that reads the response. The parameter count is bounded by the length of
  the statement, the column count by the bytes left.
\<close>

definition prepareColumn :: "nat \<Rightarrow> reader \<Rightarrow> error + column \<times> reader" where
  "prepareColumn i r = wrapE ''cubrid: prepare column %d: %w'' [EInt (int i)] (readColumn r)"

text \<open>\<^verbatim>\<open>cols := make([]Column, n); copy(cols, s.cols)\<close>.\<close>

definition forceWidth :: "nat \<Rightarrow> column list \<Rightarrow> column list" where
  "forceWidth n cols = take n cols @ replicate (n - length cols) zero_column"

lemma length_forceWidth [simp]: "length (forceWidth n cols) = n"
  by (simp add: forceWidth_def)

definition parsePrepare :: "string \<Rightarrow> reader \<Rightarrow> error + stmt \<times> reader" where
  "parsePrepare sql r =
     bindE (ReadStatus r) (\<lambda>(hdl, r).
     bindE (Int32 r) (\<lambda>(_, r).
     bindE (Reader_Byte r) (\<lambda>(cmdType, r).
     bindE (Int32 r) (\<lambda>(pc, r).
       if sint pc < 0 \<or> sint pc > int (length sql)
       then Inl (Errorf ''cubrid: prepare: invalid parameter count %d (statement is %d bytes)''
                   [EInt (sint pc), EInt (int (length sql))])
       else let paramCount = nat (sint pc) in
       bindE (Reader_Byte r) (\<lambda>(_, r).
       bindE (Int32 r) (\<lambda>(nCols, r).
         if sint nCols < 0 \<or> sint nCols * int minColumnWireBytes > Remaining r
         then Inl (Errorf ''cubrid: prepare: invalid column count %d (%d bytes remaining)''
                     [EInt (sint nCols), EInt (Remaining r)])
         else bindE (parse_loop prepareColumn 0 (nat (sint nCols)) r) (\<lambda>(cols, r).
           let cols = (if cmdType = cmdTypeCallSP then forceWidth (paramCount + 1) cols else cols)
           in Inr (\<lparr>st_sql = sql, st_handle = hdl, st_cmdType = cmdType, st_paramCount = paramCount,
                    st_cols = cols, st_closed = False, st_outParams = None, st_outRow = None\<rparr>, r))))))))"

definition prepare :: "ctx \<Rightarrow> string \<Rightarrow> byte \<Rightarrow> stmt conn_m" where
  "prepare ctx sql flag c =
     (let w = RawByte NewWriter FnPrepare;
          w = ArgString w sql;
          w = ArgByte w flag;
          w = ArgByte w (boolByte (c_autoCommit c))
      in bindC (roundTrip ctx (Writer_Bytes w)) (\<lambda>r.
           returnC (bindE (parsePrepare sql r) (\<lambda>(s, _). Inr s))) c)"

definition Prepare :: "ctx \<Rightarrow> string \<Rightarrow> stmt conn_m" where
  "Prepare ctx sql = prepare ctx sql 0"

definition PrepareCall :: "ctx \<Rightarrow> string \<Rightarrow> stmt conn_m" where
  "PrepareCall ctx sql = prepare ctx sql prepareCallFlag"

subsection \<open>OUT parameters\<close>

definition RegisterOutParam :: "int \<Rightarrow> stmt \<Rightarrow> error + stmt" where
  "RegisterOutParam index s =
     (if \<not> isCall s
      then Inl (Errorf ''cubrid: RegisterOutParam on a non-CALL statement (command type %d)''
                  [EInt (uint (st_cmdType s))])
      else if index < 1 \<or> index > int (st_paramCount s)
      then Inl (Errorf ''cubrid: OUT parameter index %d out of range [1, %d]''
                  [EInt index, EInt (int (st_paramCount s))])
      else
       let outs = (case st_outParams s of None \<Rightarrow> replicate (st_paramCount s) False | Some bs \<Rightarrow> bs) in
       bindE (go_index outs (index - 1)) (\<lambda>_.
         Inr (s\<lparr>st_outParams := Some (outs[nat (index - 1) := True])\<rparr>)))"

fun outValuesFrom :: "nat \<Rightarrow> bool list \<Rightarrow> value list \<Rightarrow> value list" where
  "outValuesFrom i [] outRow = []"
| "outValuesFrom i (isOut # outs) outRow =
     (if isOut then (if i + 1 < length outRow then outRow ! (i + 1) else VNil) # outValuesFrom (i + 1) outs outRow
      else outValuesFrom (i + 1) outs outRow)"

definition OutValues :: "stmt \<Rightarrow> value list" where
  "OutValues s =
     (case st_outRow s of
        None \<Rightarrow> []
      | Some outRow \<Rightarrow> (case st_outParams s of None \<Rightarrow> [] | Some outs \<Rightarrow> outValuesFrom 0 outs outRow))"

fun paramModesFrom :: "nat \<Rightarrow> nat \<Rightarrow> bool list \<Rightarrow> value list \<Rightarrow> error + byte list" where
  "paramModesFrom i 0 outs args = Inr []"
| "paramModesFrom i (Suc n) outs args =
     bindE (if i < length outs \<and> outs ! i then
              bindE (go_index args (int i)) (\<lambda>a.
                Inr (if a = VNil then paramModeOut else paramModeIn OR paramModeOut))
            else Inr paramModeIn) (\<lambda>m.
     bindE (paramModesFrom (i + 1) n outs args) (\<lambda>ms. Inr (m # ms)))"

definition paramModes :: "stmt \<Rightarrow> value list \<Rightarrow> error + byte list" where
  "paramModes s args =
     paramModesFrom 0 (st_paramCount s) (case st_outParams s of None \<Rightarrow> [] | Some outs \<Rightarrow> outs) args"

subsection \<open>The EXECUTE request\<close>

definition encodeArg :: "writer \<Rightarrow> value \<Rightarrow> error + writer" where
  "encodeArg w a =
     (case a of
        VLob l \<Rightarrow> Lob_encodeParam w l
      | VNumeric s \<Rightarrow> EncodeParam w (VString s)
      | _ \<Rightarrow> EncodeParam w a)"

fun encodeArgs :: "nat \<Rightarrow> writer \<Rightarrow> value list \<Rightarrow> error + writer" where
  "encodeArgs i w [] = Inr w"
| "encodeArgs i w (a # as) =
     bindE (wrapE ''cubrid: bind %d: %w'' [EInt (int i + 1)] (encodeArg w a)) (\<lambda>w. encodeArgs (i + 1) w as)"

definition executeRequest :: "stmt \<Rightarrow> value list \<Rightarrow> bool \<Rightarrow> version \<Rightarrow> error + writer" where
  "executeRequest s args autoCommit ver =
     (let isQuery = (st_cmdType s = cmdTypeSelect);
          w = RawByte NewWriter FnExecute;
          w = ArgInt w (st_handle s);
          w = ArgByte w 0;
          w = ArgInt w 0;
          w = ArgInt w 0
      in bindE (if st_cmdType s = cmdTypeCallSP \<and> st_paramCount s > 0
                then bindE (paramModes s args) (\<lambda>ms. Inr (ArgBytes w ms))
                else Inr (ArgNull w)) (\<lambda>w.
         let w = ArgByte w (boolByte isQuery);
             w = ArgByte w (boolByte autoCommit);
             w = ArgByte w 1;
             w = ArgBytes w (replicate 8 0);
             w = (if AtLeast ver ProtoV4 then ArgInt w 0 else w)
         in encodeArgs 0 w args))"

definition ParamCount :: "stmt \<Rightarrow> int" where
  "ParamCount s = int (st_paramCount s)"

definition Stmt_Columns :: "stmt \<Rightarrow> column list" where
  "Stmt_Columns s = st_cols s"

definition Stmt_Close :: "ctx \<Rightarrow> stmt \<Rightarrow> conn \<Rightarrow> (error + unit) \<times> stmt \<times> conn" where
  "Stmt_Close ctx s c =
     (if st_closed s then (Inr (), s, c)
      else
       let s = s\<lparr>st_closed := True\<rparr>;
           w = RawByte NewWriter FnCloseStatement;
           w = ArgInt w (st_handle s);
           w = ArgByte w (boolByte (c_autoCommit c))
       in case bindC (roundTrip ctx (Writer_Bytes w)) (\<lambda>r. returnC (status_only r)) c of
            (res, c) \<Rightarrow> (res, s, c))"

end
