(* ===== verification/Rows.thy ===== *)
theory Rows
  imports Stmt
begin

section \<open>Row iteration (cubrid/rows.go)\<close>

text \<open>
  The iterator over a result: a batch of decoded tuples and a position in it, the cursor index of
  the next row to fetch, and flags. Decoding errors leave the iterator as far as it got, so the
  operations return the iterator beside the error.
\<close>

record rows =
  rs_stmt :: stmt
  rs_cols :: "column list"
  rs_tuples :: "value list list"
  rs_pos :: nat
  rs_nextIndex :: int32
  rs_totalRows :: int32
  rs_fetchedAll :: bool
  rs_closed :: bool
  rs_ownsStmt :: bool

definition new_rows :: "stmt \<Rightarrow> int32 \<Rightarrow> rows" where
  "new_rows s n = \<lparr>rs_stmt = s, rs_cols = st_cols s, rs_tuples = [], rs_pos = 0, rs_nextIndex = 0,
     rs_totalRows = n, rs_fetchedAll = False, rs_closed = False, rs_ownsStmt = False\<rparr>"

definition Rows_Columns :: "rows \<Rightarrow> column list" where
  "Rows_Columns r = rs_cols r"

subsection \<open>Decoding a fetch block\<close>

text \<open>One column value of \<^verbatim>\<open>consumeFetch\<close>: a negative size is NULL.\<close>

definition decodeCell :: "tzdb \<Rightarrow> bool \<Rightarrow> column \<Rightarrow> bytes \<Rightarrow> error + value" where
  "decodeCell tz call col data =
     (let dt = (if call then TypeNull else decodeType col) in
      if dt = TypeNull then DecodeSelfDescribedValue tz data
      else if dt = TypeBlob \<or> dt = TypeClob then bindE (resultLob dt data) (\<lambda>l. Inr (VLob (Some l)))
      else DecodeValue tz dt data)"

definition readCell :: "tzdb \<Rightarrow> bool \<Rightarrow> column \<Rightarrow> reader \<Rightarrow> error + value \<times> reader" where
  "readCell tz call col rd =
     bindE (Int32 rd) (\<lambda>(sz, rd).
       if sint sz < 0 then Inr (VNil, rd)
       else bindE (Reader_Bytes rd (sint sz)) (\<lambda>(data, rd).
            bindE (wrapE ''cubrid: column %q: %w'' [EStr (col_Name col)] (decodeCell tz call col data)) (\<lambda>v.
              Inr (v, rd))))"

fun readCells :: "tzdb \<Rightarrow> bool \<Rightarrow> column list \<Rightarrow> reader \<Rightarrow> error + value list \<times> reader" where
  "readCells tz call [] rd = Inr ([], rd)"
| "readCells tz call (col # cols) rd =
     bindE (readCell tz call col rd) (\<lambda>(v, rd).
     bindE (readCells tz call cols rd) (\<lambda>(vs, rd). Inr (v # vs, rd)))"

fun consumeTuples :: "tzdb \<Rightarrow> nat \<Rightarrow> reader \<Rightarrow> rows \<Rightarrow> (error + reader) \<times> rows" where
  "consumeTuples tz 0 rd r = (Inr rd, r)"
| "consumeTuples tz (Suc n) rd r =
     (case Int32 rd of
        Inl e \<Rightarrow> (Inl e, r)
      | Inr (idx, rd) \<Rightarrow>
          (let r = r\<lparr>rs_nextIndex := idx + 1\<rparr> in
           case bindE (Reader_Bytes rd 8) (\<lambda>(_, rd). readCells tz (isCall (rs_stmt r)) (rs_cols r) rd) of
             Inl e \<Rightarrow> (Inl e, r)
           | Inr (row, rd) \<Rightarrow> consumeTuples tz n rd (r\<lparr>rs_tuples := rs_tuples r @ [row]\<rparr>)))"

definition consumeFetch :: "tzdb \<Rightarrow> version \<Rightarrow> reader \<Rightarrow> rows \<Rightarrow> (error + unit) \<times> rows" where
  "consumeFetch tz ver rd r =
     (case Int32 rd of
        Inl e \<Rightarrow> (Inl e, r)
      | Inr (n, rd) \<Rightarrow>
          (case consumeTuples tz (nat (sint n)) rd r of
             (Inl e, r) \<Rightarrow> (Inl e, r)
           | (Inr rd, r) \<Rightarrow>
               if AtLeast ver ProtoV5 \<and> Remaining rd \<ge> 1 then
                 (case Reader_Byte rd of
                    Inl e \<Rightarrow> (Inl e, r)
                  | Inr (fc, _) \<Rightarrow> (Inr (), r\<lparr>rs_fetchedAll := (fc = 1)\<rparr>))
               else if sint n = 0 then (Inr (), r\<lparr>rs_fetchedAll := True\<rparr>)
               else (Inr (), r)))"

subsection \<open>Fetching and iterating\<close>

definition fetchRequest :: "rows \<Rightarrow> int \<Rightarrow> writer" where
  "fetchRequest r fetchSize =
     (let w = RawByte NewWriter FnFetch;
          w = ArgInt w (st_handle (rs_stmt r));
          w = ArgInt w (rs_nextIndex r);
          w = ArgInt w (of_int fetchSize);
          w = ArgByte w 0
      in ArgInt w 0)"

definition fetchNext :: "tzdb \<Rightarrow> ctx \<Rightarrow> rows \<Rightarrow> conn \<Rightarrow> (error + unit) \<times> rows \<times> conn" where
  "fetchNext tz ctx r c =
     (case roundTrip ctx (Writer_Bytes (fetchRequest r (cfg_FetchSize (c_cfg c)))) c of
        (Inl e, c) \<Rightarrow> (Inl e, r, c)
      | (Inr rd, c) \<Rightarrow>
          (case ReadStatus rd of
             Inl e \<Rightarrow> (Inl e, r, c)
           | Inr (_, rd) \<Rightarrow>
               (case consumeFetch tz (c_version c) rd (r\<lparr>rs_tuples := [], rs_pos := 0\<rparr>) of
                  (res, r) \<Rightarrow> (res, r, c))))"

definition Next :: "tzdb \<Rightarrow> rows \<Rightarrow> conn \<Rightarrow> (error + value list) \<times> rows \<times> conn" where
  "Next tz r c =
     (if rs_closed r then (Inl (Errorf ''cubrid: rows are closed'' []), r, c)
      else if rs_pos r < length (rs_tuples r)
      then (Inr (rs_tuples r ! rs_pos r), r\<lparr>rs_pos := rs_pos r + 1\<rparr>, c)
      else if rs_fetchedAll r then (Inl EOF, r, c)
      else case fetchNext tz contextBackground r c of
        (Inl e, r, c) \<Rightarrow> (Inl e, r, c)
      | (Inr _, r, c) \<Rightarrow>
          if rs_pos r \<ge> length (rs_tuples r) then (Inl EOF, r, c)
          else (Inr (rs_tuples r ! rs_pos r), r\<lparr>rs_pos := rs_pos r + 1\<rparr>, c))"

definition Rows_Close :: "rows \<Rightarrow> conn \<Rightarrow> (error + unit) \<times> rows \<times> conn" where
  "Rows_Close r c =
     (if rs_closed r then (Inr (), r, c)
      else
       let r = r\<lparr>rs_closed := True\<rparr> in
       if rs_ownsStmt r then
         (case Stmt_Close contextBackground (rs_stmt r) c of (res, s, c) \<Rightarrow> (res, r\<lparr>rs_stmt := s\<rparr>, c))
       else (Inr (), r, c))"

subsection \<open>Safety of decoding\<close>

lemma resultLob_panic_free: "panic_free (resultLob t b)"
  using ParseLobHandle_panic_free by (auto simp: resultLob_def panic_free_def bindE_Inl_iff)

lemma DecodeSelfDescribedValue_panic_free: "panic_free (DecodeSelfDescribedValue tz b)"
  unfolding DecodeSelfDescribedValue_def
  by (cases b) (auto simp: go_index_def go_slice_def DecodeValue_def decode_panic_free Let_def Suc_le_eq
      intro!: panic_free_bind)

lemma decodeCell_panic_free: "panic_free (decodeCell tz call col b)"
  unfolding decodeCell_def Let_def
  by (auto simp: DecodeSelfDescribedValue_panic_free resultLob_panic_free DecodeValue_def decode_panic_free
      intro!: panic_free_bind)

lemma wire_parser_pure [parser_safe]:
  assumes "panic_free m"
  shows "wire_parser (\<lambda>r. bindE (wrapE f a m) (\<lambda>v. Inr (v, r)))"
  by (rule wire_parserI) (use assms in \<open>cases m; auto\<close>)

interpretation readCell: wire_parser "readCell tz call col"
  unfolding readCell_def by (intro parser_safe decodeCell_panic_free)

lemma wire_parser_readCells: "wire_parser (readCells tz call cols)"
proof (induction cols)
  case Nil
  show ?case unfolding readCells.simps by (rule wire_parser_return)
next
  case (Cons col cols)
  then show ?case unfolding readCells.simps by (intro parser_safe readCell.wire_parser_axioms)
qed

interpretation readCells: wire_parser "readCells tz call cols"
  by (rule wire_parser_readCells)

end
