(* ===== verification/Rows_Facts.thy ===== *)
theory Rows_Facts
  imports Rows
begin

section \<open>Facts about row iteration\<close>

text \<open>
  The fetch block layout is decoded exactly, and against a server that holds a result (the locale
  \<open>result_server\<close>) the iterator refines the list of its rows: \<open>pending\<close> is what is still to come, and \<^verbatim>\<open>Next\<close> takes its head.
\<close>

subsection \<open>Fetch blocks\<close>

definition tuple_bytes :: "nat \<Rightarrow> bytes \<Rightarrow> bytes" where
  "tuple_bytes i body = put_u32 (of_nat i) @ replicate 8 0 @ body"

fun tuples_bytes :: "nat \<Rightarrow> bytes list \<Rightarrow> bytes" where
  "tuples_bytes i [] = []"
| "tuples_bytes i (b # bs) = tuple_bytes i b @ tuples_bytes (Suc i) bs"

definition block_bytes :: "version \<Rightarrow> nat \<Rightarrow> bytes list \<Rightarrow> bool \<Rightarrow> bytes" where
  "block_bytes ver i bs complete =
     put_u32 (of_nat (length bs)) @ tuples_bytes i bs @
     (if ver \<ge> 5 then [if complete then 1 else 0] else [])"

definition decodes_to :: "tzdb \<Rightarrow> bool \<Rightarrow> column list \<Rightarrow> bytes \<Rightarrow> value list \<Rightarrow> bool" where
  "decodes_to tz call cols b v \<longleftrightarrow> parses (readCells tz call cols) b v"

lemma consumeTuples_block:
  "list_all2 (decodes_to tz call cols) bs vs \<Longrightarrow> isCall (rs_stmt r) = call \<Longrightarrow> rs_cols r = cols \<Longrightarrow>
   reader_ok rd \<Longrightarrow> rem_bytes rd = tuples_bytes i bs @ tail \<Longrightarrow>
   consumeTuples tz (length bs) rd r =
     (Inr (advance (length (tuples_bytes i bs)) rd),
      r\<lparr>rs_tuples := rs_tuples r @ vs,
        rs_nextIndex := if bs = [] then rs_nextIndex r else of_nat (i + length bs)\<rparr>)"
proof (induction bs vs arbitrary: r rd i rule: list_all2_induct)
  case Nil
  then show ?case by simp
next
  case (Cons b bs v vs)
  let ?rd = "advance 12 rd" and ?rd' = "advance (12 + length b) rd"
  let ?r' = "r\<lparr>rs_nextIndex := of_nat i + 1, rs_tuples := rs_tuples r @ [v]\<rparr>"
  have i32: "Int32 rd = Inr (of_nat i, advance 4 rd)"
    using Cons.prems by (simp add: Int32_eq tuple_bytes_def)
  have oid: "Reader_Bytes (advance 4 rd) 8 = Inr (replicate 8 0, ?rd)"
    using Cons.prems by (simp add: Reader_Bytes_def Reader_take_eq tuple_bytes_def)
  have ok: "reader_ok ?rd" and rem: "rem_bytes ?rd = b @ tuples_bytes (Suc i) bs @ tail"
    using Cons.prems by (simp_all add: tuple_bytes_def)
  have cells: "readCells tz call cols ?rd = Inr (v, ?rd')"
    using parsesD [OF Cons.hyps(1) [unfolded decodes_to_def] ok rem] by simp
  have eq: "consumeTuples tz (length (b # bs)) rd r = consumeTuples tz (length bs) ?rd' ?r'"
    using Cons.prems(1,2) by (simp add: i32 oid cells)
  have "reader_ok ?rd'" and "rem_bytes ?rd' = tuples_bytes (Suc i) bs @ tail"
    using Cons.prems by (simp_all add: tuple_bytes_def)
  note IH = Cons.IH [OF _ _ this, of ?r']
  have "consumeTuples tz (length bs) ?rd' ?r' = (Inr (advance (length (tuples_bytes (Suc i) bs)) ?rd'),
      ?r'\<lparr>rs_tuples := rs_tuples ?r' @ vs,
        rs_nextIndex := if bs = [] then rs_nextIndex ?r' else of_nat (Suc i + length bs)\<rparr>)"
    using Cons.prems(1,2) by (intro IH) simp_all
  then show ?case unfolding eq by (simp add: tuple_bytes_def add.commute)
qed

lemma consumeFetch_block:
  assumes "list_all2 (decodes_to tz call cols) bs vs" and "isCall (rs_stmt r) = call" and "rs_cols r = cols"
    and "length bs < 2147483648" and "reader_ok rd" and "rem_bytes rd = block_bytes ver i bs complete"
  shows "consumeFetch tz ver rd r =
    (Inr (), r\<lparr>rs_tuples := rs_tuples r @ vs,
        rs_nextIndex := if bs = [] then rs_nextIndex r else of_nat (i + length bs),
        rs_fetchedAll := if ver \<ge> 5 then complete else rs_fetchedAll r \<or> bs = []\<rparr>)"
proof -
  let ?flag = "if ver \<ge> 5 then [if complete then 1 else 0] else [] :: bytes"
  have n: "Int32 rd = Inr (of_nat (length bs), advance 4 rd)"
    using assms(5,6) by (simp add: Int32_eq block_bytes_def)
  have ok: "reader_ok (advance 4 rd)" and rem: "rem_bytes (advance 4 rd) = tuples_bytes i bs @ ?flag"
    using assms(5,6) by (simp_all add: block_bytes_def)
  note t = consumeTuples_block [OF assms(1-3) ok rem]
  let ?rd = "advance (4 + length (tuples_bytes i bs)) rd"
  have fl: "reader_ok ?rd" "rem_bytes ?rd = ?flag"
    using assms(5,6) by (simp_all add: block_bytes_def)
  show ?thesis
    using assms(4) fl by (simp add: consumeFetch_def n t AtLeast_def proto_versions Remaining_eq Reader_Byte_eq)
qed

subsection \<open>A server that holds a result\<close>

text \<open>
  It answers FETCH with the rows from the requested index, at least one while any are left and at
  most as many as asked; brokers from protocol version 5 on say whether the result is complete.
\<close>

definition fetch_reply :: "(nat \<Rightarrow> nat) \<Rightarrow> version \<Rightarrow> bytes list \<Rightarrow> nat \<Rightarrow> nat \<Rightarrow> bytes" where
  "fetch_reply cap ver bodies start n =
     (let bs = take (cap n) (drop (start - 1) bodies)
      in put_u32 0 @ block_bytes ver start bs (length bodies \<le> start - 1 + length bs))"

text \<open>
  All that row iteration relies on is how FETCH for its statement handle is answered, in a state
  that FETCH does not change: the cursor is positional.
\<close>

definition fetch_req :: "int32 \<Rightarrow> int32 \<Rightarrow> int32 \<Rightarrow> bytes" where
  "fetch_req h i n = request FnFetch [put_u32 h, put_u32 i, put_u32 n, [0], put_u32 0]"

lemma fetchRequest_bytes:
  "Writer_Bytes (fetchRequest r n) = fetch_req (st_handle (rs_stmt r)) (rs_nextIndex r) (of_int n)"
  by (simp add: fetchRequest_def fetch_req_def request_def wire_simps Let_def)

locale result_server =
  fixes srv :: "'s srv" and \<sigma> :: 's and cap :: "nat \<Rightarrow> nat" and ver :: version and h :: int32 and bodies :: "bytes list"
  assumes fetch_answer: "srv \<sigma> (fetch_req h i n, ci) = (fetch_reply cap ver bodies (unat i) (unat n), \<sigma>)"

text \<open>What is still to come, and the iterator invariant.\<close>

definition pending :: "value list list \<Rightarrow> rows \<Rightarrow> value list list" where
  "pending vals r = drop (rs_pos r) (rs_tuples r) @ drop (unat (rs_nextIndex r) - 1) vals"

definition cursor_ok :: "value list list \<Rightarrow> bool \<Rightarrow> column list \<Rightarrow> rows \<Rightarrow> bool" where
  "cursor_ok vals call cols r \<longleftrightarrow> \<not> rs_closed r \<and> isCall (rs_stmt r) = call \<and> rs_cols r = cols \<and>
     1 \<le> unat (rs_nextIndex r) \<and> unat (rs_nextIndex r) \<le> length vals + 1 \<and>
     (rs_fetchedAll r \<longrightarrow> length vals \<le> unat (rs_nextIndex r) - 1)"

definition after_fetch :: "version \<Rightarrow> nat \<Rightarrow> value list list \<Rightarrow> rows \<Rightarrow> rows" where
  "after_fetch ver k vals r =
     (let i = unat (rs_nextIndex r); vs = take k (drop (i - 1) vals) in
      r\<lparr>rs_tuples := vs, rs_pos := 0,
        rs_nextIndex := if vs = [] then rs_nextIndex r else of_nat (i + length vs),
        rs_fetchedAll := if ver \<ge> 5 then length vals \<le> i - 1 + length vs else rs_fetchedAll r \<or> vs = []\<rparr>)"

lemma after_fetch_eq:
  assumes "i = unat (rs_nextIndex r)" and "vs = take k (drop (i - 1) vals)"
  shows "after_fetch ver k vals r =
    r\<lparr>rs_tuples := vs, rs_pos := 0,
      rs_nextIndex := if vs = [] then rs_nextIndex r else of_nat (i + length vs),
      rs_fetchedAll := if ver \<ge> 5 then length vals \<le> i - 1 + length vs else rs_fetchedAll r \<or> vs = []\<rparr>"
  unfolding after_fetch_def Let_def assms ..

text \<open>What a fetch does against the server.\<close>

context result_server
begin

lemma fetchNext_served:
  assumes srv: "serves srv \<sigma> c" and ver: "c_version c = ver" and h: "st_handle (rs_stmt r) = h"
    and dec: "list_all2 (decodes_to tz call cols) bodies vals" and len: "length vals < 2147483647"
    and call: "isCall (rs_stmt r) = call" and cols: "rs_cols r = cols"
    and n: "n = unat (of_int (cfg_FetchSize (c_cfg c)) :: int32)"
  obtains c' where "fetchNext tz ctx r c = (Inr (), after_fetch ver (cap n) vals r, c')"
    and "serves srv \<sigma> c'" and "same_session c c'"
proof -
  define req where "req = Writer_Bytes (fetchRequest r (cfg_FetchSize (c_cfg c)))"
  define i where "i = unat (rs_nextIndex r)"
  define bs where "bs = take (cap n) (drop (i - 1) bodies)"
  define vs where "vs = take (cap n) (drop (i - 1) vals)"
  define r0 where "r0 = r\<lparr>rs_tuples := [], rs_pos := 0\<rparr>"
  let ?complete = "length bodies \<le> i - 1 + length bs"
  have L: "length bodies = length vals" using dec by (rule list_all2_lengthD)
  have ans: "srv \<sigma> (req, requestCasInfo c) = (put_u32 0 @ block_bytes ver i bs ?complete, \<sigma>)"
    unfolding req_def fetchRequest_bytes h fetch_answer by (simp add: fetch_reply_def Let_def bs_def n i_def)
  obtain c' where rt: "roundTrip ctx req c = (Inr (NewReader (put_u32 0 @ block_bytes ver i bs ?complete)), c')"
    and s': "serves srv \<sigma> c'" and ses: "same_session c c'"
    by (rule serves_roundTrip [OF srv, of ctx req]) (auto simp: ans)
  have st: "ReadStatus (NewReader (put_u32 0 @ b)) = Inr (0, advance 4 (NewReader (put_u32 0 @ b)))" for b
    by (simp add: ReadStatus_eq Let_def)
  have d: "list_all2 (decodes_to tz call cols) bs vs"
    using dec by (simp add: bs_def vs_def)
  have lb: "length bs < 2147483648" "length bs = length vs" "bs = [] \<longleftrightarrow> vs = []"
    using len L by (auto simp: bs_def vs_def)
  let ?r' = "r0\<lparr>rs_tuples := vs, rs_nextIndex := if bs = [] then rs_nextIndex r else of_nat (i + length bs),
      rs_fetchedAll := if ver \<ge> 5 then ?complete else rs_fetchedAll r \<or> bs = []\<rparr>"
  have "consumeFetch tz ver (advance 4 (NewReader (put_u32 0 @ block_bytes ver i bs ?complete))) r0 = (Inr (), ?r')"
    using consumeFetch_block [OF d, of r0] call cols lb by (simp add: r0_def)
  then have "fetchNext tz ctx r c = (Inr (), ?r', c')"
    using ses ver by (simp add: fetchNext_def rt st same_session_def flip: req_def r0_def)
  also have "?r' = after_fetch ver (cap n) vals r"
    unfolding after_fetch_eq [OF i_def vs_def] using lb(2,3) L by (simp add: r0_def)
  finally show ?thesis using that s' ses by blast
qed

end

text \<open>One fetch moves the next batch of pending rows into the iterator.\<close>

lemma take_drop_length: "take k d @ drop (length (take k d)) d = d"
  by (cases "k \<le> length d") simp_all

lemma after_fetch_moves:
  fixes ver :: version
  assumes ok: "cursor_ok vals call cols r" and all: "\<not> rs_fetchedAll r" and k: "0 < k"
    and len: "length vals < 2147483647"
  defines "r' \<equiv> after_fetch ver k vals r" and "todo \<equiv> drop (unat (rs_nextIndex r) - 1) vals"
  shows "cursor_ok vals call cols r'" and "rs_pos r' = 0"
    and "rs_tuples r' @ drop (unat (rs_nextIndex r') - 1) vals = todo"
    and "rs_tuples r' = [] \<longleftrightarrow> todo = []"
proof -
  define i where "i = unat (rs_nextIndex r)"
  define vs where "vs = take k (drop (i - 1) vals)"
  have i: "1 \<le> i" "i \<le> length vals + 1" using ok by (auto simp: cursor_ok_def i_def)
  have r': "rs_tuples r' = vs" "rs_pos r' = 0" "rs_closed r' = rs_closed r" "rs_stmt r' = rs_stmt r"
    "rs_cols r' = rs_cols r" "rs_fetchedAll r' \<longleftrightarrow> (if ver \<ge> 5 then length vals \<le> i - 1 + length vs else vs = [])"
    unfolding r'_def after_fetch_eq [OF i_def vs_def] using all by simp_all
  have lvs: "i - 1 + length vs \<le> length vals" using i by (simp add: vs_def)
  have nx: "unat (rs_nextIndex r') = i + length vs"
    unfolding r'_def after_fetch_eq [OF i_def vs_def] using i lvs len
    by (simp add: unat32_of_nat i_def [symmetric] del: of_nat_add)
  have empty: "vs = [] \<longleftrightarrow> todo = []" using k by (simp add: vs_def todo_def i_def)
  have "vs = [] \<Longrightarrow> length vals \<le> i - 1" using empty by (simp add: todo_def i_def)
  then show "cursor_ok vals call cols r'"
    using ok i lvs by (auto simp: cursor_ok_def r' nx split: if_splits)
  show "rs_pos r' = 0" by (rule r')
  have rest: "vs @ drop (length vs) todo = todo" unfolding vs_def todo_def i_def [symmetric] by (rule take_drop_length)
  have "i + length vs - 1 = length vs + (i - 1)" using i by simp
  then have "drop (unat (rs_nextIndex r') - 1) vals = drop (length vs) todo"
    unfolding nx todo_def i_def [symmetric] by (simp only: drop_drop)
  with rest show "rs_tuples r' @ drop (unat (rs_nextIndex r') - 1) vals = todo" by (simp only: r')
  show "rs_tuples r' = [] \<longleftrightarrow> todo = []" by (simp add: r' empty)
qed

text \<open>The situation in which an iterator reads a server's result.\<close>

definition reading ::
    "'s srv \<Rightarrow> 's \<Rightarrow> (nat \<Rightarrow> nat) \<Rightarrow> tzdb \<Rightarrow> bytes list \<Rightarrow> value list list \<Rightarrow> rows \<Rightarrow> conn \<Rightarrow> bool" where
  "reading srv \<sigma> cap tz bodies vals r c \<longleftrightarrow>
     serves srv \<sigma> c \<and> result_server srv \<sigma> cap (c_version c) (st_handle (rs_stmt r)) bodies \<and> (\<forall>n > 0. 0 < cap n) \<and>
     list_all2 (decodes_to tz (isCall (rs_stmt r)) (rs_cols r)) bodies vals \<and> length vals < 2147483647 \<and>
     cursor_ok vals (isCall (rs_stmt r)) (rs_cols r) r \<and>
     0 < cfg_FetchSize (c_cfg c) \<and> cfg_FetchSize (c_cfg c) < 2147483648"

lemma fetchNext_batch:
  assumes "reading srv \<sigma> cap tz bodies vals r c" and "\<not> rs_fetchedAll r"
  obtains r' c' where "fetchNext tz ctx r c = (Inr (), r', c')" and "reading srv \<sigma> cap tz bodies vals r' c'"
    and "rs_pos r' = 0" and "rs_tuples r' @ drop (unat (rs_nextIndex r') - 1) vals = drop (unat (rs_nextIndex r) - 1) vals"
    and "rs_tuples r' = [] \<longleftrightarrow> drop (unat (rs_nextIndex r) - 1) vals = []"
proof -
  let ?n = "unat (of_int (cfg_FetchSize (c_cfg c)) :: int32)"
  let ?r = "after_fetch (c_version c) (cap ?n) vals r"
  from assms(1) have R: "serves srv \<sigma> c" "result_server srv \<sigma> cap (c_version c) (st_handle (rs_stmt r)) bodies"
    "list_all2 (decodes_to tz (isCall (rs_stmt r)) (rs_cols r)) bodies vals" "length vals < 2147483647"
    "cursor_ok vals (isCall (rs_stmt r)) (rs_cols r) r" by (simp_all add: reading_def)
  have "?n = nat (cfg_FetchSize (c_cfg c))"
    using assms(1) by (simp add: reading_def unsigned_of_int take_bit_int_eq_self)
  then have k: "0 < cap ?n" using assms(1) by (simp add: reading_def)
  obtain c' where f: "fetchNext tz ctx r c = (Inr (), ?r, c')"
    and s': "serves srv \<sigma> c'" and ses: "same_session c c'"
    by (rule result_server.fetchNext_served [OF R(2) R(1) refl refl R(3,4) refl refl refl])
  note m = after_fetch_moves [OF R(5) assms(2) k R(4), of "c_version c"]
  have "rs_stmt ?r = rs_stmt r" "rs_cols ?r = rs_cols r"
    by (simp_all add: after_fetch_def Let_def)
  with assms(1) m(1) s' ses have "reading srv \<sigma> cap tz bodies vals ?r c'"
    by (simp add: reading_def same_session_def)
  from that [OF f this m(2-4)] show ?thesis .
qed

text \<open>\<^verbatim>\<open>Next\<close> takes the head of what is pending.\<close>

lemma Next_uncons:
  assumes "reading srv \<sigma> cap tz bodies vals r c"
  shows "\<exists>r' c'. reading srv \<sigma> cap tz bodies vals r' c' \<and>
    (case pending vals r of
       [] \<Rightarrow> Next tz r c = (Inl EOF, r', c') \<and> pending vals r' = []
     | v # vs \<Rightarrow> Next tz r c = (Inr v, r', c') \<and> pending vals r' = vs)"
proof (cases "rs_pos r < length (rs_tuples r)")
  case True
  have nc: "\<not> rs_closed r" using assms by (simp add: reading_def cursor_ok_def)
  have "pending vals r = rs_tuples r ! rs_pos r # pending vals (r\<lparr>rs_pos := rs_pos r + 1\<rparr>)"
    using True by (simp add: pending_def Cons_nth_drop_Suc [symmetric])
  moreover have "reading srv \<sigma> cap tz bodies vals (r\<lparr>rs_pos := rs_pos r + 1\<rparr>) c"
    using assms by (simp add: reading_def cursor_ok_def)
  ultimately show ?thesis using True nc by (auto simp: Next_def)
next
  case False
  have nc: "\<not> rs_closed r" using assms by (simp add: reading_def cursor_ok_def)
  let ?todo = "drop (unat (rs_nextIndex r) - 1) vals"
  have p: "pending vals r = ?todo" using False by (simp add: pending_def)
  show ?thesis
  proof (cases "rs_fetchedAll r")
    case all: True
    then have "?todo = []" using assms by (simp add: reading_def cursor_ok_def)
    with False all nc p assms show ?thesis by (auto simp: Next_def)
  next
    case more: False
    obtain r' c' where f: "fetchNext tz contextBackground r c = (Inr (), r', c')"
      and ok: "reading srv \<sigma> cap tz bodies vals r' c'" and pos: "rs_pos r' = 0"
      and mv: "rs_tuples r' @ drop (unat (rs_nextIndex r') - 1) vals = ?todo"
      and e: "rs_tuples r' = [] \<longleftrightarrow> ?todo = []"
      by (rule fetchNext_batch [OF assms more])
    have p': "pending vals r' = ?todo" using mv by (simp add: pending_def pos)
    show ?thesis
    proof (cases "rs_tuples r'")
      case Nil
      with False more nc f pos p p' e ok show ?thesis by (auto simp: Next_def)
    next
      case (Cons v vs)
      have "reading srv \<sigma> cap tz bodies vals (r'\<lparr>rs_pos := 1\<rparr>) c'"
        using ok by (simp add: reading_def cursor_ok_def)
      moreover have "?todo = v # pending vals (r'\<lparr>rs_pos := 1\<rparr>)"
        using mv Cons by (simp add: pending_def)
      moreover have "Next tz r c = (Inr v, r'\<lparr>rs_pos := 1\<rparr>, c')"
        using False more nc f pos Cons by (simp add: Next_def)
      ultimately show ?thesis unfolding p by auto
    qed
  qed
qed

subsection \<open>Operations on the connection\<close>

lemma fetchNext_steps: "conn_steps c0 c \<Longrightarrow> conn_steps c0 (snd (snd (fetchNext tz ctx r c)))"
  by (auto simp: fetchNext_def split: prod.split sum.split intro: conn_steps_request)

interpretation fetchNext: conn_op "\<lambda>c. case fetchNext tz ctx r c of (res, r', c') \<Rightarrow> ((res, r'), c')"
  by unfold_locales (simp add: split_beta fetchNext_steps)

lemma Next_steps: "conn_steps c0 c \<Longrightarrow> conn_steps c0 (snd (snd (Next tz r c)))"
  using fetchNext_steps [of c0 c tz contextBackground r]
  by (auto simp: Next_def split: prod.split sum.split)

interpretation Next: conn_op "\<lambda>c. case Next tz r c of (res, r', c') \<Rightarrow> ((res, r'), c')"
  by unfold_locales (simp add: split_beta Next_steps)

lemma Stmt_Close_steps: "conn_steps c0 c \<Longrightarrow> conn_steps c0 (snd (snd (Stmt_Close ctx s c)))"
  by (auto simp: Stmt_Close_def bindC_def returnC_def Let_def split: prod.split sum.split intro: conn_steps_request)

interpretation Stmt_Close: conn_op "\<lambda>c. case Stmt_Close ctx s c of (res, s', c') \<Rightarrow> ((res, s'), c')"
  by unfold_locales (simp add: split_beta Stmt_Close_steps)

lemma Rows_Close_steps: "conn_steps c0 c \<Longrightarrow> conn_steps c0 (snd (snd (Rows_Close r c)))"
  using Stmt_Close_steps [of c0 c contextBackground "rs_stmt r"]
  by (auto simp: Rows_Close_def Let_def split: prod.split)

interpretation Rows_Close: conn_op "\<lambda>c. case Rows_Close r c of (res, r', c') \<Rightarrow> ((res, r'), c')"
  by unfold_locales (simp add: split_beta Rows_Close_steps)

interpretation prepare: conn_request "prepare ctx sql flag"
  unfolding prepare_def Let_def
  by (rule conn_request_read [where g = c_autoCommit]) (intro conn_rules conn_request_roundTrip)

end
