(* ===== verification/Exec.thy ===== *)
theory Exec
  imports Rows_Facts
begin

section \<open>Executing statements (cubrid/stmt.go: execute; conn.go: Exec; tx.go: savepoints)\<close>

text \<open>
  EXECUTE with its response, the row iterator it yields, the CALL value row, and the one-shot
  \<^verbatim>\<open>Conn.Exec\<close> that closes its statement whatever happens.
\<close>

subsection \<open>The EXECUTE response\<close>

definition readResultInfo :: "reader \<Rightarrow> error + unit \<times> reader" where
  "readResultInfo r =
     bindE (Reader_Byte r) (\<lambda>(_, r).
     bindE (Int32 r) (\<lambda>(_, r).
     bindE (Reader_Bytes r 8) (\<lambda>(_, r).
     bindE (Int32 r) (\<lambda>(_, r).
     bindE (Int32 r) (\<lambda>(_, r). Inr ((), r))))))"

definition parseExecute :: "version \<Rightarrow> reader \<Rightarrow> error + int32 \<times> reader" where
  "parseExecute ver r =
     bindE (ReadStatus r) (\<lambda>(rc, r).
     bindE (Reader_Byte r) (\<lambda>(_, r).
     bindE (Int32 r) (\<lambda>(nResults, r).
     bindE (parse_loop (\<lambda>_. readResultInfo) 0 (nat (sint nResults)) r) (\<lambda>(_, r).
     bindE (if AtLeast ver ProtoV2 then
              bindE (Reader_Byte r) (\<lambda>(inc, r).
                if inc = 1 then Inl (Errorf ''cubrid: unexpected inline column info (not implemented)'' [])
                else Inr ((), r))
            else Inr ((), r)) (\<lambda>(_, r).
     bindE (if AtLeast ver ProtoV5 then bindE (Int32 r) (\<lambda>(_, r). Inr ((), r)) else Inr ((), r)) (\<lambda>(_, r).
       Inr (rc, r)))))))"

subsection \<open>execute\<close>

text \<open>
  The three ways a successful response continues: a CALL pulls its value row with FETCH, a plain
  statement has no rows, a query reads the rows inlined in the response.
\<close>

definition executeCall :: "tzdb \<Rightarrow> ctx \<Rightarrow> stmt \<Rightarrow> int32 \<Rightarrow> conn \<Rightarrow> (error + int32 \<times> rows option) \<times> stmt \<times> conn" where
  "executeCall tz ctx s rc c =
     (case fetchNext tz ctx ((new_rows s rc)\<lparr>rs_nextIndex := 1\<rparr>) c of
        (Inl e, _, c) \<Rightarrow> (Inl e, s, c)
      | (Inr _, rows, c) \<Rightarrow>
          (let rows = (if sint (rs_nextIndex rows) > sint rc then rows\<lparr>rs_fetchedAll := True\<rparr> else rows);
               s = (if rs_tuples rows \<noteq> [] then s\<lparr>st_outRow := Some (hd (rs_tuples rows))\<rparr> else s)
           in (Inr (rc, Some (rows\<lparr>rs_stmt := s\<rparr>)), s, c)))"

definition executeQuery :: "tzdb \<Rightarrow> version \<Rightarrow> stmt \<Rightarrow> int32 \<Rightarrow> reader \<Rightarrow> error + int32 \<times> rows option" where
  "executeQuery tz ver s rc r =
     (let rows = (new_rows s rc)\<lparr>rs_nextIndex := 1\<rparr> in
      if sint rc > 0 \<and> Remaining r > 4 then
        bindE (Int32 r) (\<lambda>(_, r).
          case consumeFetch tz ver r rows of
            (Inl e, _) \<Rightarrow> Inl e
          | (Inr _, rows) \<Rightarrow> Inr (rc, Some rows))
      else Inr (rc, Some (rows\<lparr>rs_fetchedAll := (rc = 0)\<rparr>)))"

definition execute :: "tzdb \<Rightarrow> ctx \<Rightarrow> value list \<Rightarrow> stmt \<Rightarrow> conn \<Rightarrow>
    (error + int32 \<times> rows option) \<times> stmt \<times> conn" where
  "execute tz ctx args s c =
     (if st_closed s then (Inl (Errorf ''cubrid: statement is closed'' []), s, c)
      else if length args \<noteq> st_paramCount s
      then (Inl (Errorf ''cubrid: statement wants %d args, got %d''
                   [EInt (int (st_paramCount s)), EInt (int (length args))]), s, c)
      else
       let s = s\<lparr>st_outRow := None\<rparr> in
       case executeRequest s args (c_autoCommit c) (c_version c) of
         Inl e \<Rightarrow> (Inl e, s, c)
       | Inr w \<Rightarrow>
           (case roundTrip ctx (Writer_Bytes w) c of
              (Inl e, c) \<Rightarrow> (Inl e, s, c)
            | (Inr r, c) \<Rightarrow>
                (case parseExecute (c_version c) r of
                   Inl e \<Rightarrow> (Inl e, s, c)
                 | Inr (rc, r) \<Rightarrow>
                     if st_cmdType s \<noteq> cmdTypeSelect then
                       if isCall s \<and> sint rc > 0 then executeCall tz ctx s rc c
                       else (Inr (rc, None), s, c)
                     else (executeQuery tz (c_version c) s rc r, s, c))))"

definition Stmt_Exec :: "tzdb \<Rightarrow> ctx \<Rightarrow> value list \<Rightarrow> stmt \<Rightarrow> conn \<Rightarrow> (error + int64) \<times> stmt \<times> conn" where
  "Stmt_Exec tz ctx args s c =
     (case execute tz ctx args s c of
        (Inl e, s, c) \<Rightarrow> (Inl e, s, c)
      | (Inr (rc, _), s, c) \<Rightarrow> (Inr (scast rc), s, c))"

definition Stmt_Query :: "tzdb \<Rightarrow> ctx \<Rightarrow> value list \<Rightarrow> stmt \<Rightarrow> conn \<Rightarrow> (error + rows) \<times> stmt \<times> conn" where
  "Stmt_Query tz ctx args s c =
     (case execute tz ctx args s c of
        (Inl e, s, c) \<Rightarrow> (Inl e, s, c)
      | (Inr (rc, None), s, c) \<Rightarrow> (Inr ((new_rows s rc)\<lparr>rs_fetchedAll := True\<rparr>), s, c)
      | (Inr (rc, Some rows), s, c) \<Rightarrow> (Inr rows, s, c))"

text \<open>\<^verbatim>\<open>Conn.Exec\<close>: the deferred \<^verbatim>\<open>stmt.Close(ctx)\<close> runs after the execution; its error is dropped.\<close>

definition Conn_Exec :: "tzdb \<Rightarrow> ctx \<Rightarrow> string \<Rightarrow> value list \<Rightarrow> int64 conn_m" where
  "Conn_Exec tz ctx sql args =
     bindC (Prepare ctx sql) (\<lambda>s c.
       case Stmt_Exec tz ctx args s c of
         (res, s, c) \<Rightarrow> (case Stmt_Close ctx s c of (_, _, c) \<Rightarrow> (res, c)))"

subsection \<open>Transactions and session parameters (cubrid/tx.go)\<close>

definition tranCommit :: byte where "tranCommit = 1"
definition tranRollback :: byte where "tranRollback = 2"

type_synonym isolation_level = int32

definition IsolationReadCommitted :: isolation_level where "IsolationReadCommitted = 4"
definition IsolationRepeatableRead :: isolation_level where "IsolationRepeatableRead = 5"
definition IsolationSerializable :: isolation_level where "IsolationSerializable = 6"

definition IsolationLevel_String :: "isolation_level \<Rightarrow> string" where
  "IsolationLevel_String l =
     (if l = IsolationReadCommitted then ''READ COMMITTED''
      else if l = IsolationRepeatableRead then ''REPEATABLE READ''
      else if l = IsolationSerializable then ''SERIALIZABLE''
      else ''IsolationLevel('' @ Itoa (sint l) @ '')'')"

definition SetIsolationLevel :: "ctx \<Rightarrow> isolation_level \<Rightarrow> unit conn_m" where
  "SetIsolationLevel ctx lv c =
     (let minLevel = (if AtLeast (c_version c) ProtoV7 then IsolationReadCommitted else 1) in
      if sint lv < sint minLevel \<or> sint lv > sint IsolationSerializable
      then (Inl (Errorf ''cubrid: isolation level %d out of range [%d, %d]''
                   [EInt (sint lv), EInt (sint minLevel), EInt (sint IsolationSerializable)]), c)
      else
       let w = SetDBParameterRequest NewWriter DBParamIsolationLevel lv in
       bindC (roundTrip ctx (Writer_Bytes w)) (\<lambda>r. returnC (status_only r)) c)"

definition IsolationLevel :: "ctx \<Rightarrow> isolation_level conn_m" where
  "IsolationLevel ctx =
     (let w = GetDBParameterRequest NewWriter DBParamIsolationLevel in
      bindC (roundTrip ctx (Writer_Bytes w)) (\<lambda>r.
        returnC (bindE (ReadStatus r) (\<lambda>(_, r). bindE (Int32 r) (\<lambda>(v, _). Inr v)))))"

text \<open>Durations are in nanoseconds; the wire value is in milliseconds.\<close>

definition lock_timeout_ms :: "int \<Rightarrow> int32" where
  "lock_timeout_ms d =
     (if d \<ge> 0 then (let v = d div 1000000 in if v < 2147483647 then of_int v else 2147483647)
      else -1)"

definition SetLockTimeout :: "ctx \<Rightarrow> int \<Rightarrow> unit conn_m" where
  "SetLockTimeout ctx d =
     (let w = SetDBParameterRequest NewWriter DBParamLockTimeout (lock_timeout_ms d) in
      bindC (roundTrip ctx (Writer_Bytes w)) (\<lambda>r. returnC (status_only r)))"

definition SetAutoCommit :: "bool \<Rightarrow> conn \<Rightarrow> conn" where
  "SetAutoCommit on c = c\<lparr>c_autoCommit := on\<rparr>"

definition AutoCommit :: "conn \<Rightarrow> bool" where
  "AutoCommit c = c_autoCommit c"

definition endTransaction :: "ctx \<Rightarrow> byte \<Rightarrow> unit conn_m" where
  "endTransaction ctx tranType =
     (let w = RawByte NewWriter FnEndTransaction; w = ArgByte w tranType in
      bindC (roundTrip ctx (Writer_Bytes w)) (\<lambda>r. returnC (status_only r)))"

definition Commit :: "ctx \<Rightarrow> unit conn_m" where
  "Commit ctx = endTransaction ctx tranCommit"

definition Rollback :: "ctx \<Rightarrow> unit conn_m" where
  "Rollback ctx = endTransaction ctx tranRollback"

text \<open>The pattern \<^verbatim>\<open>^[A-Za-z_][A-Za-z0-9_]*$\<close>.\<close>

definition ident_start :: "char \<Rightarrow> bool" where
  "ident_start c \<longleftrightarrow> (let k = (of_char c :: nat) in (65 \<le> k \<and> k \<le> 90) \<or> (97 \<le> k \<and> k \<le> 122) \<or> k = 95)"

definition ident_char :: "char \<Rightarrow> bool" where
  "ident_char c \<longleftrightarrow> ident_start c \<or> is_decimal c"

definition savepointName :: "string \<Rightarrow> bool" where
  "savepointName s \<longleftrightarrow> (case s of [] \<Rightarrow> False | c # cs \<Rightarrow> ident_start c \<and> list_all ident_char cs)"

definition checkSavepointName :: "string \<Rightarrow> error + unit" where
  "checkSavepointName name =
     (if \<not> savepointName name then Inl (Errorf ''cubrid: invalid savepoint name %q'' [EStr name]) else Inr ())"

definition Savepoint :: "tzdb \<Rightarrow> ctx \<Rightarrow> string \<Rightarrow> unit conn_m" where
  "Savepoint tz ctx name =
     bindC (returnC (checkSavepointName name)) (\<lambda>_.
     bindC (Conn_Exec tz ctx (''SAVEPOINT '' @ name) []) (\<lambda>_. returnC (Inr ())))"

definition RollbackToSavepoint :: "tzdb \<Rightarrow> ctx \<Rightarrow> string \<Rightarrow> unit conn_m" where
  "RollbackToSavepoint tz ctx name =
     bindC (returnC (checkSavepointName name)) (\<lambda>_.
     bindC (Conn_Exec tz ctx (''ROLLBACK TO SAVEPOINT '' @ name) []) (\<lambda>_. returnC (Inr ())))"

end
