(* ===== verification/Exec_Facts.thy ===== *)
theory Exec_Facts
  imports Exec
begin

section \<open>Facts about statements and transactions\<close>

text \<open>
  The statement invariant and its preservation, safety of the response parsers against hostile
  counts, the OUT-parameter modes, and the contract of every operation on the connection.
\<close>

subsection \<open>Parsing PREPARE and EXECUTE\<close>

lemma consumes_Bytes: "n \<ge> 0 \<Longrightarrow> consumes_at_least (\<lambda>r. Reader_Bytes r n) (nat n)"
  by (rule consumesI) (auto simp: Reader_Bytes_def Reader_take_eq split: if_splits)

interpretation readColumnType: wire_parser readColumnType
  unfolding readColumnType_def by (intro parser_safe)

lemma consumes_readColumnType: "consumes_at_least readColumnType 1"
  unfolding readColumnType_def
  by (rule consumes_then [OF consumes_Byte])
    (intro consumes_if consumes_reads consumes_done; simp add: consumes_wire parser_safe)

lemma consumes_flags: "consumes_at_least (\<lambda>r. parse_loop (\<lambda>_. Reader_Byte) i n r) n"
proof (induction n arbitrary: i)
  case (Suc n)
  have "consumes_at_least (\<lambda>r. bindE (Reader_Byte r) (\<lambda>(x, r). bindE (parse_loop (\<lambda>_. Reader_Byte) (Suc i) n r)
      (\<lambda>(xs, r). Inr (x # xs, r)))) (Suc n)"
    by (rule consumes_then [OF consumes_Byte], rule consumes_bind [OF Suc consumes_return]) simp
  then show ?case by simp
qed (rule consumesI, simp)

lemma wire_parser_readColumn: "wire_parser readColumn"
  unfolding readColumn_def by (intro parser_safe readColumnType.wire_parser_axioms)

lemma consumes_readColumn: "consumes_at_least readColumn 31"
  unfolding readColumn_def
  by (rule consumes_then [OF consumes_readColumnType], rule consumes_then [OF consumes_Int16],
      rule consumes_then [OF consumes_Int32], rule consumes_then [OF consumes_String],
      rule consumes_then [OF consumes_String], rule consumes_then [OF consumes_String],
      rule consumes_then [OF consumes_Byte], rule consumes_then [OF consumes_String],
      rule consumes_then [OF consumes_flags [of 0 7]], rule consumes_done) simp

interpretation prepareColumn: wire_parser "prepareColumn i"
  unfolding prepareColumn_def by (intro wire_parser_wrap wire_parser_readColumn)

text \<open>Every column takes at least 31 bytes, so the guard of 28 per column rejects nothing well-formed.\<close>

interpretation prepare_cols: counted_parser prepareColumn minColumnWireBytes
proof (rule counted_parserI)
  show "wire_parser (prepareColumn i)" for i by (rule prepareColumn.wire_parser_axioms)
  show "consumes_at_least (prepareColumn i) minColumnWireBytes" for i
    unfolding prepareColumn_def minColumnWireBytes_def
    by (rule consumes_wrap [OF consumes_mono [OF consumes_readColumn]]) simp
qed

interpretation parsePrepare: wire_parser "parsePrepare sql"
  unfolding parsePrepare_def Let_def
  by (intro parser_safe prepareColumn.wire_parser_axioms ReadStatus.wire_parser_axioms) simp_all

interpretation readResultInfo: wire_parser readResultInfo
  unfolding readResultInfo_def by (intro parser_safe)

interpretation parseExecute: wire_parser "parseExecute ver"
  unfolding parseExecute_def
  by (intro parser_safe readResultInfo.wire_parser_axioms ReadStatus.wire_parser_axioms) simp_all

subsection \<open>The statement invariant\<close>

definition stmt_ok :: "stmt \<Rightarrow> bool" where
  "stmt_ok s \<longleftrightarrow> st_paramCount s \<le> length (st_sql s) \<and>
     (\<forall>outs. st_outParams s = Some outs \<longrightarrow> isCall s \<and> length outs = st_paramCount s) \<and>
     (st_cmdType s = cmdTypeCallSP \<longrightarrow> length (st_cols s) = st_paramCount s + 1)"

lemma forceWidth_same: "forceWidth n cols = cols \<Longrightarrow> length cols = n"
  using length_forceWidth [of n cols] by simp

lemma parsePrepare_ok:
  assumes "parsePrepare sql r = Inr (s, r')"
  shows "stmt_ok s \<and> \<not> st_closed s \<and> st_sql s = sql \<and> st_outParams s = None \<and> st_outRow s = None \<and> 0 \<le> sint (st_handle s)"
  using assms unfolding parsePrepare_def
  by (auto simp: bindE_Inr_iff Let_def stmt_ok_def dest: ReadStatus_nonneg forceWidth_same split: if_splits)

lemma RegisterOutParam_ok:
  assumes "stmt_ok s"
  shows "RegisterOutParam i s \<noteq> Inl (Panic e)"
    and "RegisterOutParam i s = Inr s' \<Longrightarrow> stmt_ok s'"
  using assms
  by (auto simp: RegisterOutParam_def stmt_ok_def go_index_def Let_def isCall_def split: option.splits if_splits)

subsection \<open>Parameter modes\<close>

definition registered :: "stmt \<Rightarrow> nat \<Rightarrow> bool" where
  "registered s i \<longleftrightarrow> (case st_outParams s of None \<Rightarrow> False | Some outs \<Rightarrow> i < length outs \<and> outs ! i)"

definition mode_of :: "bool \<Rightarrow> value \<Rightarrow> byte" where
  "mode_of out a = (if out then (if a = VNil then paramModeOut else paramModeIn OR paramModeOut) else paramModeIn)"

lemma paramModesFrom_eq:
  "i + n \<le> length args \<Longrightarrow> paramModesFrom i n outs args =
    Inr (map (\<lambda>j. mode_of (j < length outs \<and> outs ! j) (args ! j)) [i..<i + n])"
proof (induction n arbitrary: i)
  case (Suc n)
  let ?m = "\<lambda>j. mode_of (j < length outs \<and> outs ! j) (args ! j)"
  have "(if i < length outs \<and> outs ! i then bindE (go_index args (int i)) (\<lambda>a.
      Inr (if a = VNil then paramModeOut else paramModeIn OR paramModeOut)) else Inr paramModeIn) = Inr (?m i)"
    using Suc.prems by (simp add: go_index_def mode_of_def)
  moreover have "map ?m [i..<i + Suc n] = ?m i # map ?m [Suc i..<Suc i + n]"
    by (simp add: upt_conv_Cons del: upt_Suc)
  ultimately show ?case using Suc.IH [of "Suc i"] Suc.prems by (simp only: paramModesFrom.simps) simp
qed simp

lemma paramModes_eq:
  assumes "length args = st_paramCount s"
  shows "paramModes s args = Inr (map (\<lambda>i. mode_of (registered s i) (args ! i)) [0..<st_paramCount s])"
  using assms by (simp add: paramModes_def paramModesFrom_eq registered_def split: option.split)

text \<open>\<^verbatim>\<open>OutValues\<close> reads the value row at the registered markers, in ascending order.\<close>

lemma outValuesFrom_eq:
  "outValuesFrom i outs row =
    map (\<lambda>j. if i + j + 1 < length row then row ! (i + j + 1) else VNil) (filter (\<lambda>j. outs ! j) [0..<length outs])"
proof (induction outs arbitrary: i)
  case (Cons b outs)
  have "filter (\<lambda>j. (b # outs) ! j) [0..<length (b # outs)] =
      (if b then [0] else []) @ map Suc (filter (\<lambda>j. outs ! j) [0..<length outs])"
    by (simp add: upt_conv_Cons map_Suc_upt [symmetric] filter_map o_def del: upt_Suc)
  then show ?case by (simp add: Cons.IH o_def del: upt_Suc)
qed simp

subsection \<open>Execution\<close>

lemma encodeArg_panic_free: "panic_free (encodeArg w a)"
proof -
  have e: "panic_free (EncodeParam w v)" for v
    using encodeCollectionParam_panic_free
    by (cases v) (auto simp: EncodeParam_def intro!: panic_free_bind)
  show ?thesis
    by (cases a) (auto simp: encodeArg_def Lob_encodeParam_def e Let_def split: option.split)
qed

lemma panic_free_wrap: "panic_free m \<Longrightarrow> panic_free (wrapE f a m)"
  by (cases m) auto

lemma encodeArgs_panic_free: "panic_free (encodeArgs i w as)"
  by (induction i w as rule: encodeArgs.induct)
    (auto intro!: panic_free_bind panic_free_wrap encodeArg_panic_free)

lemma executeRequest_panic_free:
  assumes "length args = st_paramCount s"
  shows "panic_free (executeRequest s args ac ver)"
  using assms unfolding executeRequest_def Let_def
  by (auto simp: paramModes_eq intro!: panic_free_bind encodeArgs_panic_free)

lemma consumeTuples_safe:
  assumes "reader_ok rd"
  shows "panic_free (fst (consumeTuples tz n rd r)) \<and>
    (\<forall>rd' r'. consumeTuples tz n rd r = (Inr rd', r') \<longrightarrow> reader_ok rd')"
  using assms
proof (induction n arbitrary: rd r)
  case (Suc n)
  let ?p = "\<lambda>rd. bindE (Reader_Bytes rd 8) (\<lambda>(_, rd). readCells tz (isCall (rs_stmt r)) (rs_cols r) rd)"
  have p: "wire_parser ?p" by (intro parser_safe readCells.wire_parser_axioms)
  show ?case
  proof (cases "Int32 rd")
    case (Inl e)
    with Suc.prems Int32.no_panic show ?thesis by auto
  next
    case (Inr y)
    then obtain idx rd1 where y: "y = (idx, rd1)" and ok1: "reader_ok rd1"
      using Int32.keeps_ok Suc.prems by (cases y) auto
    show ?thesis
    proof (cases "?p rd1")
      case (Inl e)
      with Inr y ok1 wire_parser.no_panic [OF p] show ?thesis by auto
    next
      case ok: (Inr z)
      then obtain row rd2 where z: "z = (row, rd2)" and ok2: "reader_ok rd2"
        using wire_parser.keeps_ok [OF p] ok1 by (cases z) auto
      show ?thesis using Suc.IH [OF ok2] Inr y ok z by simp
    qed
  qed
qed simp

lemma consumeFetch_safe: "reader_ok rd \<Longrightarrow> panic_free (fst (consumeFetch tz ver rd r))"
proof -
  assume ok: "reader_ok rd"
  show ?thesis
  proof (cases "Int32 rd")
    case (Inl e)
    with ok Int32.no_panic show ?thesis by (auto simp: consumeFetch_def)
  next
    case (Inr y)
    then obtain n rd1 where y: "y = (n, rd1)" and ok1: "reader_ok rd1"
      using Int32.keeps_ok ok by (cases y) auto
    from consumeTuples_safe [OF ok1, of tz "nat (sint n)" r] Inr y show ?thesis
      by (auto simp: consumeFetch_def panic_free_def split: prod.splits sum.splits if_splits
          dest: Reader_Byte.no_panic)
  qed
qed

subsection \<open>Operations on the connection\<close>

lemma execute_steps: "conn_steps c0 c \<Longrightarrow> conn_steps c0 (snd (snd (execute tz ctx args s c)))"
proof -
  assume a: "conn_steps c0 c"
  have call: "conn_steps c0 (snd (snd (executeCall tz ctx s' rc c')))" if "conn_steps c0 c'" for s' rc c'
    using fetchNext_steps [OF that, of tz ctx "(new_rows s' rc)\<lparr>rs_nextIndex := 1\<rparr>"]
    by (auto simp: executeCall_def Let_def split: prod.splits sum.splits)
  show ?thesis
    using a by (auto simp: execute_def Let_def split: prod.split sum.split
        intro: call conn_steps_request [OF a])
qed

interpretation execute: conn_op "\<lambda>c. case execute tz ctx args s c of (res, s', c') \<Rightarrow> ((res, s'), c')"
  by unfold_locales (simp add: split_beta execute_steps)

lemma Stmt_Exec_steps: "conn_steps c0 c \<Longrightarrow> conn_steps c0 (snd (snd (Stmt_Exec tz ctx args s c)))"
  using execute_steps [of c0 c tz ctx args s] by (auto simp: Stmt_Exec_def split: prod.splits sum.splits)

interpretation Stmt_Exec: conn_op "\<lambda>c. case Stmt_Exec tz ctx args s c of (res, s', c') \<Rightarrow> ((res, s'), c')"
  by unfold_locales (simp add: split_beta Stmt_Exec_steps)

lemma Stmt_Query_steps: "conn_steps c0 c \<Longrightarrow> conn_steps c0 (snd (snd (Stmt_Query tz ctx args s c)))"
  using execute_steps [of c0 c tz ctx args s]
  by (auto simp: Stmt_Query_def split: prod.splits sum.splits option.splits)

interpretation Stmt_Query: conn_op "\<lambda>c. case Stmt_Query tz ctx args s c of (res, s', c') \<Rightarrow> ((res, s'), c')"
  by unfold_locales (simp add: split_beta Stmt_Query_steps)

lemma conn_op_exec_close:
  "conn_op (\<lambda>c. case Stmt_Exec tz ctx args s c of
     (res, s, c) \<Rightarrow> (case Stmt_Close ctx s c of (_, _, c) \<Rightarrow> (res, c)))"
  by unfold_locales (simp add: split_beta Stmt_Close_steps Stmt_Exec_steps)

interpretation Prepare: conn_request "Prepare ctx sql"
  unfolding Prepare_def by (rule prepare.conn_request_axioms)

interpretation PrepareCall: conn_request "PrepareCall ctx sql"
  unfolding PrepareCall_def by (rule prepare.conn_request_axioms)

interpretation Conn_Exec: conn_request "Conn_Exec tz ctx sql args"
  unfolding Conn_Exec_def by (rule conn_request_bind [OF Prepare.conn_request_axioms conn_op_exec_close])

interpretation IsolationLevel: conn_request "IsolationLevel ctx"
  unfolding IsolationLevel_def Let_def by (intro conn_rules conn_request_roundTrip)

interpretation SetLockTimeout: conn_request "SetLockTimeout ctx d"
  unfolding SetLockTimeout_def Let_def by (intro conn_rules conn_request_roundTrip)

interpretation endTransaction: conn_request "endTransaction ctx t"
  unfolding endTransaction_def Let_def by (intro conn_rules conn_request_roundTrip)

interpretation Commit: conn_request "Commit ctx"
  unfolding Commit_def by (rule endTransaction.conn_request_axioms)

interpretation Rollback: conn_request "Rollback ctx"
  unfolding Rollback_def by (rule endTransaction.conn_request_axioms)

lemma conn_op_SetIsolationLevel: "conn_op (SetIsolationLevel ctx lv)"
proof
  fix c
  have "conn_op (bindC (roundTrip ctx p) (\<lambda>r. returnC (status_only r)))" for p by (intro conn_rules)
  from conn_op.steps [OF this] show "conn_steps c (snd (SetIsolationLevel ctx lv c))"
    by (simp add: SetIsolationLevel_def Let_def)
qed

interpretation SetIsolationLevel: conn_op "SetIsolationLevel ctx lv"
  by (rule conn_op_SetIsolationLevel)

interpretation SetAutoCommit: conn_op "\<lambda>c. ((), SetAutoCommit on c)"
  by unfold_locales (auto simp: SetAutoCommit_def intro: conn_step.autocommit)

interpretation Savepoint: conn_op "Savepoint tz ctx name"
  unfolding Savepoint_def
  by (intro conn_rules Conn_Exec.conn_request_axioms [THEN conn_request.axioms(1)])

interpretation RollbackToSavepoint: conn_op "RollbackToSavepoint tz ctx name"
  unfolding RollbackToSavepoint_def
  by (intro conn_rules Conn_Exec.conn_request_axioms [THEN conn_request.axioms(1)])

subsection \<open>Session parameters\<close>

lemma lock_timeout_clamp:
  "sint (lock_timeout_ms d) = (if d < 0 then -1 else min (d div 1000000) 2147483647)"
proof (cases "0 \<le> d \<and> d div 1000000 < 2147483647")
  case True
  then have "0 \<le> d div 1000000" "d div 1000000 < 2147483647" by (simp_all add: div_int_pos_iff)
  then have "sint (of_int (d div 1000000) :: int32) = d div 1000000"
    by (simp add: signed_of_int signed_take_bit_int_eq_self_iff)
  with True show ?thesis by (simp add: lock_timeout_ms_def Let_def)
next
  case False
  then show ?thesis by (auto simp: lock_timeout_ms_def Let_def)
qed

lemma SetIsolationLevel_eq:
  "SetIsolationLevel ctx lv c =
    (let lo = (if c_version c \<ge> 7 then 4 else 1) in
     if lo \<le> sint lv \<and> sint lv \<le> 6
     then bindC (roundTrip ctx (request FnSetDBParameter [put_u32 1, put_u32 lv])) (\<lambda>r. returnC (status_only r)) c
     else (Inl (Errorf ''cubrid: isolation level %d out of range [%d, %d]''
                  [EInt (sint lv), EInt lo, EInt 6]), c))"
  by (auto simp: SetIsolationLevel_def Let_def AtLeast_def proto_versions IsolationReadCommitted_def
      IsolationSerializable_def SetDBParameterRequest_bytes DBParamIsolationLevel_def)

lemma savepointName_chars: "savepointName s \<Longrightarrow> s \<noteq> [] \<and> (\<forall>c \<in> set s. ident_char c)"
  by (auto simp: savepointName_def ident_char_def list_all_iff split: list.splits)

lemma ident_char_plain:
  "ident_char c \<Longrightarrow> c \<noteq> CHR '' '' \<and> c \<noteq> CHR '';'' \<and> c \<noteq> CHR 0x27 \<and> c \<noteq> CHR ''-'' \<and> c \<noteq> CHR 0x00 \<and> c \<noteq> CHR 0x22"
  by (auto simp: ident_char_def ident_start_def is_decimal_def Let_def)

end
