(* ===== verification/Schema.thy ===== *)
theory Schema
  imports Exec_Facts
begin

section \<open>Schema introspection (cubrid/schema.go)\<close>

text \<open>
  GET_SCHEMA_INFO with its short column metadata, the loop that drains schema rows, and the typed
  helpers. The loop runs until the server's cursor ends, so it is a partial function: \<open>None\<close> means
  that it never returns.
\<close>

subsection \<open>SchemaInfo\<close>

definition minSchemaColumnWireBytes :: nat where
  "minSchemaColumnWireBytes = 11"

definition readSchemaColumn :: "reader \<Rightarrow> error + column \<times> reader" where
  "readSchemaColumn r =
     bindE (readColumnType r) (\<lambda>(col, r).
     bindE (Int16 r) (\<lambda>(scale, r).
     bindE (Int32 r) (\<lambda>(precision, r).
     bindE (Reader_String r) (\<lambda>(name, r).
       Inr (col\<lparr>col_Scale := scale, col_Precision := precision, col_Name := name\<rparr>, r)))))"

definition schemaColumn :: "nat \<Rightarrow> reader \<Rightarrow> error + column \<times> reader" where
  "schemaColumn i r = wrapE ''cubrid: schema info column %d: %w'' [EInt (int i)] (readSchemaColumn r)"

definition parseSchemaInfo :: "reader \<Rightarrow> error + rows \<times> reader" where
  "parseSchemaInfo r =
     bindE (ReadStatus r) (\<lambda>(hdl, r).
     bindE (Int32 r) (\<lambda>(n, r).
     bindE (Int32 r) (\<lambda>(nCols, r).
       if sint nCols < 0 \<or> sint nCols * int minSchemaColumnWireBytes > Remaining r
       then Inl (Errorf ''cubrid: schema info: invalid column count %d (%d bytes remaining)''
                   [EInt (sint nCols), EInt (Remaining r)])
       else bindE (parse_loop schemaColumn 0 (nat (sint nCols)) r) (\<lambda>(cols, r).
         let s = \<lparr>st_sql = [], st_handle = hdl, st_cmdType = cmdTypeSelect, st_paramCount = 0,
                  st_cols = cols, st_closed = False, st_outParams = None, st_outRow = None\<rparr>
         in Inr (\<lparr>rs_stmt = s, rs_cols = cols, rs_tuples = [], rs_pos = 0, rs_nextIndex = 1,
                  rs_totalRows = n, rs_fetchedAll = (n = 0), rs_closed = False, rs_ownsStmt = True\<rparr>, r)))))"

definition schema_flag :: "bool \<Rightarrow> bool \<Rightarrow> byte" where
  "schema_flag arg1Pattern arg2Pattern =
     (let flag = 0;
          flag = (if arg1Pattern then flag OR SchemaFlagArg1Pattern else flag)
      in if arg2Pattern then flag OR SchemaFlagArg2Pattern else flag)"

definition SchemaInfo ::
    "ctx \<Rightarrow> int32 \<Rightarrow> string option \<Rightarrow> string option \<Rightarrow> bool \<Rightarrow> bool \<Rightarrow> rows conn_m" where
  "SchemaInfo ctx st arg1 arg2 arg1Pattern arg2Pattern c =
     (let w = SchemaInfoRequest NewWriter st arg1 arg2 (schema_flag arg1Pattern arg2Pattern) (c_version c)
      in bindC (roundTrip ctx (Writer_Bytes w)) (\<lambda>r.
           returnC (bindE (parseSchemaInfo r) (\<lambda>(rows, _). Inr rows))) c)"

subsection \<open>Draining rows\<close>

text \<open>
  The callback is a fold step on what it accumulates. \<^verbatim>\<open>errors.Is(err, io.EOF)\<close> ends the loop.
\<close>

partial_function (option) forEachLoop ::
    "tzdb \<Rightarrow> ('a \<Rightarrow> value list \<Rightarrow> error + 'a) \<Rightarrow> 'a \<Rightarrow> rows \<Rightarrow> conn \<Rightarrow> ((error + 'a) \<times> rows \<times> conn) option" where
  "forEachLoop tz fn acc r c =
     (case Next tz r c of
        (Inl e, r, c) \<Rightarrow> Some (if errors_Is e EOF then Inr acc else Inl e, r, c)
      | (Inr row, r, c) \<Rightarrow>
          (case fn acc row of
             Inl e \<Rightarrow> Some (Inl e, r, c)
           | Inr acc \<Rightarrow> forEachLoop tz fn acc r c))"

definition forEachSchemaRow ::
    "tzdb \<Rightarrow> ('a \<Rightarrow> value list \<Rightarrow> error + 'a) \<Rightarrow> 'a \<Rightarrow> rows \<Rightarrow> conn \<Rightarrow> ((error + 'a) \<times> conn) option" where
  "forEachSchemaRow tz fn acc r c =
     (case forEachLoop tz fn acc r c of
        None \<Rightarrow> None
      | Some (res, r, c) \<Rightarrow> (case Rows_Close r c of (_, _, c) \<Rightarrow> Some (res, c)))"

text \<open>\<open>schema_query\<close> is the pattern of every typed helper: SchemaInfo, then a fold over its rows.\<close>

definition schema_query ::
    "tzdb \<Rightarrow> (error + rows) \<times> conn \<Rightarrow> ('a \<Rightarrow> value list \<Rightarrow> error + 'a) \<Rightarrow> 'a \<Rightarrow> ((error + 'a) \<times> conn) option" where
  "schema_query tz info fn acc =
     (case info of
        (Inl e, c) \<Rightarrow> Some (Inl e, c)
      | (Inr rows, c) \<Rightarrow> forEachSchemaRow tz fn acc rows c)"

subsection \<open>Row values\<close>

fun schemaInt :: "value \<Rightarrow> int option" where
  "schemaInt (VInt16 n) = Some (sint n)"
| "schemaInt (VInt32 n) = Some (sint n)"
| "schemaInt (VInt64 n) = Some (sint n)"
| "schemaInt v = None"

fun schemaString :: "value \<Rightarrow> string" where
  "schemaString (VString s) = s"
| "schemaString v = []"

definition unqualifyName :: "string \<Rightarrow> string" where
  "unqualifyName s = (let i = IndexByte s (CHR ''.'') in if i \<ge> 0 then drop (nat (i + 1)) s else s)"

definition schemaTypeCode :: "int64 \<Rightarrow> byte" where
  "schemaTypeCode v =
     (let msb = (ucast (signed_drop_bit 8 v) :: byte) in
      if msb AND 0x80 \<noteq> 0 then ucast v else (ucast v :: byte) AND 0x1F)"

definition rowShapeError :: "string \<Rightarrow> nat \<Rightarrow> value list \<Rightarrow> error" where
  "rowShapeError family want row =
     Errorf ''cubrid: schema info %s row has %d columns, want at least %d''
       [EStr family, EInt (int (length row)), EInt (int want)]"

subsection \<open>Tables, columns, keys\<close>

record table_info =
  ti_Name :: string
  ti_Type :: int32

definition tables_row :: "table_info list \<Rightarrow> value list \<Rightarrow> error + table_info list" where
  "tables_row out row =
     (if length row < 2 then Inl (rowShapeError ''class'' 2 row)
      else case schemaInt (row ! 1) of
        None \<Rightarrow> Inl (Errorf ''cubrid: schema info class type = %#v'' [EVal (row ! 1)])
      | Some t \<Rightarrow> Inr (out @ [\<lparr>ti_Name = unqualifyName (schemaString (row ! 0)), ti_Type = of_int t\<rparr>]))"

definition Tables :: "tzdb \<Rightarrow> ctx \<Rightarrow> conn \<Rightarrow> ((error + table_info list) \<times> conn) option" where
  "Tables tz ctx c = schema_query tz (SchemaInfo ctx SchClass None None True True c) tables_row []"

record column_info =
  ci_Name :: string
  ci_TypeCode :: byte
  ci_Scale :: int16
  ci_Precision :: int32
  ci_NotNull :: bool
  ci_Unique :: bool
  ci_IsKey :: bool
  ci_Default :: string
  ci_Order :: int32
  ci_Table :: string

definition int_or :: "'b \<Rightarrow> (int \<Rightarrow> 'b) \<Rightarrow> value \<Rightarrow> 'b" where
  "int_or d f v = (case schemaInt v of Some n \<Rightarrow> f n | None \<Rightarrow> d)"

definition columns_row :: "column_info list \<Rightarrow> value list \<Rightarrow> error + column_info list" where
  "columns_row out row =
     (if length row < 13 then Inl (rowShapeError ''attribute'' 13 row)
      else case schemaInt (row ! 1) of
        None \<Rightarrow> Inl (Errorf ''cubrid: schema info attribute domain = %#v'' [EVal (row ! 1)])
      | Some domain \<Rightarrow> Inr (out @ [\<lparr>
          ci_Name = schemaString (row ! 0),
          ci_TypeCode = schemaTypeCode (of_int domain),
          ci_Scale = int_or 0 of_int (row ! 2),
          ci_Precision = int_or 0 of_int (row ! 3),
          ci_NotNull = int_or False (\<lambda>n. n \<noteq> 0) (row ! 5),
          ci_Unique = int_or False (\<lambda>n. n \<noteq> 0) (row ! 7),
          ci_IsKey = int_or False (\<lambda>n. n \<noteq> 0) (row ! 12),
          ci_Default = schemaString (row ! 8),
          ci_Order = int_or 0 of_int (row ! 9),
          ci_Table = unqualifyName (schemaString (row ! 10))\<rparr>]))"

definition Columns :: "tzdb \<Rightarrow> ctx \<Rightarrow> string \<Rightarrow> conn \<Rightarrow> ((error + column_info list) \<times> conn) option" where
  "Columns tz ctx table c =
     schema_query tz (SchemaInfo ctx SchAttribute (Some table) None False True c) columns_row []"

record key_column =
  kc_Table :: string
  kc_Column :: string
  kc_KeyName :: string
  kc_Seq :: int32

definition primary_row :: "key_column list \<Rightarrow> value list \<Rightarrow> error + key_column list" where
  "primary_row out row =
     (if length row < 4 then Inl (rowShapeError ''primary key'' 4 row)
      else case schemaInt (row ! 2) of
        None \<Rightarrow> Inl (Errorf ''cubrid: schema info key_seq = %#v'' [EVal (row ! 2)])
      | Some seq \<Rightarrow> Inr (out @ [\<lparr>kc_Table = unqualifyName (schemaString (row ! 0)),
          kc_Column = schemaString (row ! 1), kc_KeyName = schemaString (row ! 3), kc_Seq = of_int seq\<rparr>]))"

definition PrimaryKey :: "tzdb \<Rightarrow> ctx \<Rightarrow> string \<Rightarrow> conn \<Rightarrow> ((error + key_column list) \<times> conn) option" where
  "PrimaryKey tz ctx table c =
     schema_query tz (SchemaInfo ctx SchPrimaryKey (Some table) None True True c) primary_row []"

record foreign_key =
  fk_PKTable :: string
  fk_PKColumn :: string
  fk_FKTable :: string
  fk_FKColumn :: string
  fk_FKName :: string
  fk_PKName :: string
  fk_Seq :: int32
  fk_UpdateRule :: int16
  fk_DeleteRule :: int16

definition foreign_row :: "foreign_key list \<Rightarrow> value list \<Rightarrow> error + foreign_key list" where
  "foreign_row out row =
     (if length row < 9 then Inl (rowShapeError ''foreign key'' 9 row)
      else Inr (out @ [\<lparr>
        fk_PKTable = unqualifyName (schemaString (row ! 0)), fk_PKColumn = schemaString (row ! 1),
        fk_FKTable = unqualifyName (schemaString (row ! 2)), fk_FKColumn = schemaString (row ! 3),
        fk_FKName = schemaString (row ! 7), fk_PKName = schemaString (row ! 8),
        fk_Seq = int_or 0 of_int (row ! 4), fk_UpdateRule = int_or 0 of_int (row ! 5),
        fk_DeleteRule = int_or 0 of_int (row ! 6)\<rparr>]))"

definition foreignKeys ::
    "tzdb \<Rightarrow> ctx \<Rightarrow> int32 \<Rightarrow> string \<Rightarrow> conn \<Rightarrow> ((error + foreign_key list) \<times> conn) option" where
  "foreignKeys tz ctx st table c =
     schema_query tz (SchemaInfo ctx st (Some table) None True True c) foreign_row []"

definition ImportedKeys where
  "ImportedKeys tz ctx table c = foreignKeys tz ctx SchImportedKeys table c"

definition ExportedKeys where
  "ExportedKeys tz ctx table c = foreignKeys tz ctx SchExportedKeys table c"

subsection \<open>Indexes\<close>

record index_info =
  ix_Name :: string
  ix_Unique :: bool
  ix_Columns :: "string list"
  ix_IsPrimary :: bool

text \<open>What the row callback of \<^verbatim>\<open>Indexes\<close> accumulates: \<^verbatim>\<open>out\<close>, \<^verbatim>\<open>idxCols\<close> and \<^verbatim>\<open>byName\<close>.\<close>

type_synonym index_acc = "index_info list \<times> (string \<times> int) list list \<times> (string \<rightharpoonup> nat)"

definition indexes_row :: "index_acc \<Rightarrow> value list \<Rightarrow> error + index_acc" where
  "indexes_row acc row =
     (if length row < 6 then Inl (rowShapeError ''constraint'' 6 row)
      else case schemaInt (row ! 0) of
        None \<Rightarrow> Inl (Errorf ''cubrid: schema info constraint type = %#v'' [EVal (row ! 0)])
      | Some t \<Rightarrow>
          (let (out, idxCols, byName) = acc;
               name = schemaString (row ! 1);
               (i, out, idxCols, byName) =
                 (case byName name of
                    Some i \<Rightarrow> (i, out, idxCols, byName)
                  | None \<Rightarrow>
                      (let i = length out;
                           info = \<lparr>ix_Name = name, ix_Unique = (t = 0 \<or> t = 2), ix_Columns = [],
                                   ix_IsPrimary = int_or False (\<lambda>n. n \<noteq> 0) (row ! 5)\<rparr>
                       in (i, out @ [info], idxCols @ [[]], byName(name \<mapsto> i))));
               order = int (length (idxCols ! i));
               order = (if length row > 6 then int_or order (\<lambda>n. n) (row ! 6) else order)
           in Inr (out, idxCols[i := idxCols ! i @ [(schemaString (row ! 2), order)]], byName)))"

definition index_columns :: "index_info list \<Rightarrow> (string \<times> int) list list \<Rightarrow> index_info list" where
  "index_columns out idxCols =
     map2 (\<lambda>info kcs. info\<lparr>ix_Columns := map fst (sort_key snd kcs)\<rparr>) out idxCols"

definition merge_primary ::
    "string \<Rightarrow> index_info list \<Rightarrow> (string \<rightharpoonup> nat) \<Rightarrow> key_column list \<Rightarrow> index_info list" where
  "merge_primary table out byName pk =
     (let pk = filter (\<lambda>k. kc_Table k = unqualifyName table) pk in
      if pk = [] then out
      else
       let pk = sort_key (\<lambda>k. sint (kc_Seq k)) pk;
           keyName = kc_KeyName (hd pk)
       in case byName keyName of
            Some i \<Rightarrow> out[i := (out ! i)\<lparr>ix_IsPrimary := True, ix_Unique := True\<rparr>]
          | None \<Rightarrow> \<lparr>ix_Name = keyName, ix_Unique = True, ix_Columns = map kc_Column pk, ix_IsPrimary = True\<rparr> # out)"

definition Indexes :: "tzdb \<Rightarrow> ctx \<Rightarrow> string \<Rightarrow> conn \<Rightarrow> ((error + index_info list) \<times> conn) option" where
  "Indexes tz ctx table c =
     (case schema_query tz (SchemaInfo ctx SchConstraint (Some table) None False False c) indexes_row
             ([], [], Map.empty) of
        None \<Rightarrow> None
      | Some (Inl e, c) \<Rightarrow> Some (Inl e, c)
      | Some (Inr (out, idxCols, byName), c) \<Rightarrow>
          (let out = index_columns out idxCols in
           case PrimaryKey tz ctx table c of
             None \<Rightarrow> None
           | Some (Inl e, c) \<Rightarrow> Some (Inl e, c)
           | Some (Inr pk, c) \<Rightarrow> Some (Inr (merge_primary table out byName pk), c)))"

end
