(* ===== verification/Schema_Facts.thy ===== *)
theory Schema_Facts
  imports Schema
begin

section \<open>Facts about schema introspection\<close>

text \<open>
  Safety of the metadata parser, that draining the rows of a serving broker is a fold over them, and
  that the index grouping agrees with a reference definition.
\<close>

subsection \<open>Safety\<close>

interpretation readSchemaColumn: wire_parser readSchemaColumn
  unfolding readSchemaColumn_def by (intro parser_safe readColumnType.wire_parser_axioms)

lemma consumes_readSchemaColumn: "consumes_at_least readSchemaColumn 11"
  unfolding readSchemaColumn_def
  by (rule consumes_then [OF consumes_readColumnType], rule consumes_then [OF consumes_Int16],
      rule consumes_then [OF consumes_Int32], rule consumes_then [OF consumes_String], rule consumes_done) simp

interpretation schemaColumn: wire_parser "schemaColumn i"
  unfolding schemaColumn_def by (intro wire_parser_wrap readSchemaColumn.wire_parser_axioms)

interpretation schema_cols: counted_parser schemaColumn minSchemaColumnWireBytes
proof (rule counted_parserI)
  show "wire_parser (schemaColumn i)" for i by (rule schemaColumn.wire_parser_axioms)
  show "consumes_at_least (schemaColumn i) minSchemaColumnWireBytes" for i
    unfolding schemaColumn_def minSchemaColumnWireBytes_def by (rule consumes_wrap [OF consumes_readSchemaColumn])
qed

interpretation parseSchemaInfo: wire_parser parseSchemaInfo
  unfolding parseSchemaInfo_def Let_def
  by (intro parser_safe schemaColumn.wire_parser_axioms ReadStatus.wire_parser_axioms) simp_all

interpretation SchemaInfo: conn_request "SchemaInfo ctx st a1 a2 p1 p2"
  unfolding SchemaInfo_def Let_def
  by (rule conn_request_read [where g = c_version]) (intro conn_rules conn_request_roundTrip)

subsection \<open>Draining\<close>

fun foldE :: "('a \<Rightarrow> 'b \<Rightarrow> error + 'a) \<Rightarrow> 'a \<Rightarrow> 'b list \<Rightarrow> error + 'a" where
  "foldE fn acc [] = Inr acc"
| "foldE fn acc (x # xs) = bindE (fn acc x) (\<lambda>acc. foldE fn acc xs)"

lemma foldE_append: "foldE fn acc (xs @ ys) = bindE (foldE fn acc xs) (\<lambda>acc. foldE fn acc ys)"
  by (induction xs arbitrary: acc) (simp_all add: bindE_assoc)

lemma forEachLoop_served:
  "reading srv \<sigma> cap tz bodies vals r c \<Longrightarrow>
    \<exists>r' c'. forEachLoop tz fn acc r c = Some (foldE fn acc (pending vals r), r', c') \<and>
      reading srv \<sigma> cap tz bodies vals r' c'"
proof (induction "pending vals r" arbitrary: acc r c)
  case Nil
  from Next_uncons [OF Nil.prems] Nil.hyps obtain r' c' where
    "reading srv \<sigma> cap tz bodies vals r' c'" "Next tz r c = (Inl EOF, r', c')" by (auto simp flip: Nil.hyps)
  then show ?case by (subst forEachLoop.simps) (simp flip: Nil.hyps)
next
  case (Cons v vs)
  from Next_uncons [OF Cons.prems] obtain r' c' where
    r': "reading srv \<sigma> cap tz bodies vals r' c'" and n: "Next tz r c = (Inr v, r', c')" and p: "pending vals r' = vs"
    by (auto simp flip: Cons.hyps(2))
  show ?case
  proof (cases "fn acc v")
    case (Inl e)
    with n r' show ?thesis by (subst forEachLoop.simps) (simp flip: Cons.hyps(2))
  next
    case (Inr acc')
    from Cons.hyps(1) [OF p [symmetric] r', of acc'] obtain r2 c2 where
      "forEachLoop tz fn acc' r' c' = Some (foldE fn acc' vs, r2, c2)" "reading srv \<sigma> cap tz bodies vals r2 c2"
      by (auto simp: p)
    with n Inr show ?thesis by (subst forEachLoop.simps) (simp flip: Cons.hyps(2))
  qed
qed

text \<open>
  The loop asks \<^verbatim>\<open>errors.Is\<close> for the end of the rows, and a connection that the peer closes between
  two frames makes \<^verbatim>\<open>roundTrip\<close> return an error that wraps \<^verbatim>\<open>io.EOF\<close>: a lost connection looks
  like the end of the result.
\<close>

lemma roundTrip_hangup:
  assumes "Valid c" and "c_open c" and "s_in (c_br c) = []" and "ctx_Err ctx = (\<lambda>_. None)"
    and "\<And>b. c_peer c (c_sent c @ [b]) = Delivered [] EOF"
  shows "\<exists>c'. roundTrip ctx p c = (Inl (Wrapf ''cubrid: read: %w'' [] EOF), c') \<and> c_bad c'"
  using assms
  by (simp add: roundTrip_def roundTrip_io_def nc_Write_def Let_def Valid_def guard_begin_def guard_end_def
      ReadResponse_def ReadFull_def ctx_or_def)

lemma Next_hangup:
  assumes "Valid c" and "c_open c" and "s_in (c_br c) = []"
    and "\<And>b. c_peer c (c_sent c @ [b]) = Delivered [] EOF"
    and "\<not> rs_closed r" and "length (rs_tuples r) \<le> rs_pos r" and "\<not> rs_fetchedAll r"
  shows "\<exists>c'. Next tz r c = (Inl (Wrapf ''cubrid: read: %w'' [] EOF), r, c') \<and> c_bad c'"
proof -
  obtain c' where "roundTrip contextBackground (Writer_Bytes (fetchRequest r (cfg_FetchSize (c_cfg c)))) c =
      (Inl (Wrapf ''cubrid: read: %w'' [] EOF), c')" "c_bad c'"
    using roundTrip_hangup [OF assms(1-3) _ assms(4), of contextBackground] by (auto simp: contextBackground_def)
  with assms(5-7) show ?thesis by (simp add: Next_def fetchNext_def)
qed

lemma forEachLoop_hangup:
  assumes "Valid c" and "c_open c" and "s_in (c_br c) = []"
    and "\<And>b. c_peer c (c_sent c @ [b]) = Delivered [] EOF"
    and "\<not> rs_closed r" and "length (rs_tuples r) \<le> rs_pos r" and "\<not> rs_fetchedAll r"
  shows "\<exists>c'. forEachLoop tz fn acc r c = Some (Inr acc, r, c') \<and> c_bad c'"
  using Next_hangup [OF assms, of tz] by (subst forEachLoop.simps) auto

subsection \<open>Index grouping\<close>

text \<open>
  The reference: the index names in order of first appearance, and for each the columns of its rows
  with their key order (their position within the index when the row does not carry one).
\<close>

definition row_index :: "value list \<Rightarrow> string" where
  "row_index row = schemaString (row ! 1)"

definition row_key :: "nat \<Rightarrow> value list \<Rightarrow> string \<times> int" where
  "row_key k row = (schemaString (row ! 2), if length row > 6 then int_or (int k) (\<lambda>n. n) (row ! 6) else int k)"

definition index_names :: "value list list \<Rightarrow> string list" where
  "index_names rows = rev (remdups (rev (map row_index rows)))"

definition index_keys :: "value list list \<Rightarrow> string \<Rightarrow> (string \<times> int) list" where
  "index_keys rows name = map (\<lambda>(k, row). row_key k row) (enumerate 0 (filter (\<lambda>row. row_index row = name) rows))"

lemma index_names_snoc:
  "index_names (rows @ [row]) =
    (if row_index row \<in> set (index_names rows) then index_names rows else index_names rows @ [row_index row])"
  by (simp add: index_names_def)

lemma distinct_index_names [simp]: "distinct (index_names rows)"
  by (simp add: index_names_def)

lemma length_index_keys: "length (index_keys rows name) = length (filter (\<lambda>row. row_index row = name) rows)"
  by (simp add: index_keys_def)

lemma index_keys_snoc:
  "index_keys (rows @ [row]) name =
    (if row_index row = name then index_keys rows name @ [row_key (length (index_keys rows name)) row]
     else index_keys rows name)"
  by (simp add: index_keys_def enumerate_append_eq)

lemma index_keys_none: "name \<notin> set (index_names rows) \<Longrightarrow> index_keys rows name = []"
proof -
  assume "name \<notin> set (index_names rows)"
  then have "filter (\<lambda>row. row_index row = name) rows = []" by (auto simp: index_names_def filter_empty_conv)
  then show ?thesis by (simp add: index_keys_def)
qed

text \<open>The row callback, on a well-shaped row, in terms of the group it adds to.\<close>

definition index_acc_ok :: "value list list \<Rightarrow> index_acc \<Rightarrow> bool" where
  "index_acc_ok rows acc \<longleftrightarrow> (case acc of (out, idxCols, byName) \<Rightarrow>
     map ix_Name out = index_names rows \<and> idxCols = map (index_keys rows) (index_names rows) \<and>
     (\<forall>name i. byName name = Some i \<longleftrightarrow> i < length (index_names rows) \<and> index_names rows ! i = name))"

lemma map_keys_update:
  assumes "i < length names" and "distinct names" and "names ! i = row_index row"
  shows "(map (index_keys rows) names)[i := index_keys rows (names ! i) @
      [row_key (length (index_keys rows (names ! i))) row]] = map (index_keys (rows @ [row])) names"
proof (rule nth_equalityI)
  fix j
  assume "j < length ((map (index_keys rows) names)[i := index_keys rows (names ! i) @
      [row_key (length (index_keys rows (names ! i))) row]])"
  then have j: "j < length names" by simp
  have "names ! j = row_index row \<longleftrightarrow> j = i" using assms j by (metis nth_eq_iff_index_eq)
  with j assms(1,3) show "(map (index_keys rows) names)[i := index_keys rows (names ! i) @
      [row_key (length (index_keys rows (names ! i))) row]] ! j = map (index_keys (rows @ [row])) names ! j"
    by (auto simp: nth_list_update index_keys_snoc)
qed simp

lemma indexes_row_known:
  assumes "indexes_row (out, idxCols, byName) row = Inr acc'" and "byName (row_index row) = Some i"
  shows "acc' = (out, idxCols[i := idxCols ! i @ [row_key (length (idxCols ! i)) row]], byName)"
  using assms
  by (auto simp: indexes_row_def row_index_def row_key_def Let_def split: if_splits option.splits)

lemma indexes_row_new:
  assumes "indexes_row (out, idxCols, byName) row = Inr acc'" and "byName (row_index row) = None"
    and "length idxCols = length out"
  shows "\<exists>info. acc' = (out @ [info], idxCols @ [[row_key 0 row]], byName(row_index row \<mapsto> length out)) \<and>
    ix_Name info = row_index row"
  using assms
  by (auto simp: indexes_row_def row_index_def row_key_def Let_def nth_append list_update_append
      split: if_splits option.splits)

lemma indexes_row_ok:
  assumes "index_acc_ok rows acc" and "indexes_row acc row = Inr acc'"
  shows "index_acc_ok (rows @ [row]) acc'"
proof -
  let ?n = "row_index row" and ?names = "index_names rows"
  obtain out idxCols byName where acc: "acc = (out, idxCols, byName)" by (cases acc)
  from assms(1) have names: "map ix_Name out = ?names" and cols: "idxCols = map (index_keys rows) ?names"
    and idx: "\<And>name i. byName name = Some i \<longleftrightarrow> i < length ?names \<and> ?names ! i = name"
    by (auto simp: index_acc_ok_def acc)
  have len: "length out = length ?names" using names by (metis length_map)
  show ?thesis
  proof (cases "byName ?n")
    case (Some i)
    then have i: "i < length ?names" "?names ! i = ?n" using idx by simp_all
    then have "?n \<in> set ?names" by (metis nth_mem)
    moreover have "acc' = (out, map (index_keys (rows @ [row])) ?names, byName)"
      using indexes_row_known [OF assms(2) [unfolded acc] Some] i map_keys_update [OF i(1) _ i(2)]
      by (simp add: cols)
    ultimately show ?thesis using names idx by (simp add: index_acc_ok_def index_names_snoc)
  next
    case None
    have new: "?n \<notin> set ?names"
      using None idx by (metis in_set_conv_nth not_None_eq)
    have lc: "length idxCols = length out" by (simp add: cols len)
    from indexes_row_new [OF assms(2) [unfolded acc] None lc] obtain info where
      acc': "acc' = (out @ [info], idxCols @ [[row_key 0 row]], byName(?n \<mapsto> length out))" and info: "ix_Name info = ?n"
      by blast
    have keys: "map (index_keys (rows @ [row])) (?names @ [?n]) = idxCols @ [[row_key 0 row]]"
      using new by (auto simp: cols index_keys_snoc index_keys_none intro!: map_cong)
    have "(byName(?n \<mapsto> length out)) name = Some i \<longleftrightarrow> i < length (?names @ [?n]) \<and> (?names @ [?n]) ! i = name" for name i
      using new idx by (auto simp: len nth_append less_Suc_eq dest: nth_mem)
    with new keys show ?thesis by (simp add: index_acc_ok_def index_names_snoc acc' info names)
  qed
qed

lemma indexes_fold_ok:
  "foldE indexes_row ([], [], Map.empty) rows = Inr acc \<Longrightarrow> index_acc_ok rows acc"
proof (induction rows arbitrary: acc rule: rev_induct)
  case Nil
  then show ?case by (auto simp: index_acc_ok_def index_names_def)
next
  case (snoc row rows)
  then obtain acc1 where "foldE indexes_row ([], [], Map.empty) rows = Inr acc1" "indexes_row acc1 row = Inr acc"
    by (auto simp: foldE_append bindE_Inr_iff)
  with snoc.IH indexes_row_ok show ?case by blast
qed

lemma unqualifyName_qualified: "CHR ''.'' \<notin> set owner \<Longrightarrow> unqualifyName (owner @ ''.'' @ name) = name"
  using IndexByte_append [of "CHR ''.''" owner name] by (simp add: unqualifyName_def Let_def nat_add_distrib)

end
