(* ===== verification/Bind_Facts.thy ===== *)
theory Bind_Facts
  imports Stmt
begin

section \<open>Facts about bound arguments (cubrid/stmt.go: encodeArg)\<close>

text \<open>
  What \<^verbatim>\<open>encodeArg\<close> writes for every value it accepts, locators, decimals and collections included:
  the type byte and the content are given outright, and a receiver of the pair reads the value back.
\<close>

subsection \<open>The pair of a value\<close>

fun bind_type :: "value \<Rightarrow> byte" where
  "bind_type VNil = TypeNull"
| "bind_type (VBool _) = TypeShort"
| "bind_type (VInt _) = TypeBigint"
| "bind_type (VInt16 _) = TypeShort"
| "bind_type (VInt32 _) = TypeInt"
| "bind_type (VInt64 _) = TypeBigint"
| "bind_type (VFloat32 _) = TypeFloat"
| "bind_type (VFloat64 _) = TypeDouble"
| "bind_type (VString _) = TypeVarchar"
| "bind_type (VBytes _) = TypeVarbit"
| "bind_type (VTime _) = TypeDatetime"
| "bind_type (VNumeric _) = TypeVarchar"
| "bind_type (VLob l) = (case l of None \<Rightarrow> TypeNull | Some h \<Rightarrow> if lob_isClob h then TypeClob else TypeBlob)"
| "bind_type (VSlice _) = TypeSequence"
| "bind_type (VOther _) = TypeNull"

text \<open>The element type of a collection is that of its first element that is not NULL.\<close>

definition elem_type :: "value list \<Rightarrow> byte" where
  "elem_type vs = (case filter (\<lambda>v. v \<noteq> VNil) vs of [] \<Rightarrow> TypeObject | v # _ \<Rightarrow> bind_type v)"

fun bind_content :: "value \<Rightarrow> bytes" where
  "bind_content (VNumeric s) = string_bytes s @ [0]"
| "bind_content (VLob l) = (case l of None \<Rightarrow> [] | Some h \<Rightarrow> lh_raw (lob_handle h))"
| "bind_content (VSlice vs) = elem_type vs # encode_args (map scalar_content vs)"
| "bind_content v = scalar_content v"

text \<open>
  The receiver: length zero is NULL, a SEQUENCE is an element type and length-prefixed elements, a
  locator is a packed handle, anything else is decoded by its type.
\<close>

fun read_elems :: "tzdb \<Rightarrow> byte \<Rightarrow> bytes list \<Rightarrow> error + value list" where
  "read_elems tz t [] = Inr []"
| "read_elems tz t (x # xs) =
     bindE (read_arg tz t x) (\<lambda>v. bindE (read_elems tz t xs) (\<lambda>vs. Inr (v # vs)))"

definition read_param :: "tzdb \<Rightarrow> byte \<Rightarrow> bytes \<Rightarrow> error + value" where
  "read_param tz t x =
     (if x = [] then Inr VNil
      else if t = TypeSequence then
        (case split_args (tl x) of
           None \<Rightarrow> Inl ErrShortBuffer
         | Some xs \<Rightarrow> bindE (read_elems tz (hd x) xs) (\<lambda>vs. Inr (VSlice vs)))
      else if t = TypeBlob \<or> t = TypeClob then bindE (resultLob t x) (\<lambda>l. Inr (VLob (Some l)))
      else DecodeValue tz t x)"

definition sent_as :: "value \<Rightarrow> byte \<times> bytes \<Rightarrow> bool" where
  "sent_as a tc \<longleftrightarrow> tc = (bind_type a, bind_content a) \<and>
     (bindable a \<longrightarrow> (\<forall>tz. read_param tz (fst tc) (snd tc) = Inr (decoded_as a)))"

lemma paramWireType_bind: "paramWireType v = Inr t \<Longrightarrow> t = bind_type v \<and> bind_content v = scalar_content v"
  by (cases v) auto

lemma scalar_reads:
  assumes "paramWireType v = Inr t" and "bindable v"
  shows "read_param tz t (scalar_content v) = Inr (decoded_as v)"
proof -
  have "t \<noteq> TypeSequence" "t \<noteq> TypeBlob" "t \<noteq> TypeClob"
    using assms(1) by (cases v; auto simp: type_codes)+
  then show ?thesis using scalar_decodes [OF assms, of tz] by (simp add: read_param_def read_arg_def split: if_splits)
qed

subsection \<open>Collections\<close>

lemma homogeneous_elem_type:
  assumes "homogeneous vs t"
  shows "t = elem_type vs"
proof (cases "filter (\<lambda>v. v \<noteq> VNil) vs")
  case Nil
  then show ?thesis using assms by (auto simp: homogeneous_def elem_type_def filter_empty_conv split: if_splits)
next
  case (Cons v us)
  then have "v \<in> set (filter (\<lambda>v. v \<noteq> VNil) vs)" by simp
  then have v: "v \<in> set vs" "v \<noteq> VNil" by simp_all
  then have "paramWireType v = Inr t" using assms by (auto simp: homogeneous_def split: if_splits)
  with Cons paramWireType_bind show ?thesis by (simp add: elem_type_def)
qed

lemma read_elems_encoded:
  assumes "\<And>v. v \<in> set vs \<Longrightarrow> bindable v \<and> (v = VNil \<or> paramWireType v = Inr t)"
  shows "read_elems tz t (map scalar_content vs) = Inr (map decoded_as vs)"
  using assms
proof (induction vs)
  case (Cons v vs)
  have "read_arg tz t (scalar_content v) = Inr (decoded_as v)"
  proof (cases "v = VNil")
    case True
    then show ?thesis by (simp add: read_arg_def)
  next
    case False
    then show ?thesis using Cons.prems [of v] scalar_decodes [of v t tz] by simp
  qed
  with Cons show ?case by simp
qed simp

lemma collection_reads:
  assumes "homogeneous vs t" and "bindable (VSlice vs)"
  shows "read_param tz TypeSequence (bind_content (VSlice vs)) = Inr (VSlice (map decoded_as vs))"
proof -
  have short: "length (scalar_content v) < 2 ^ 32" and ok: "bindable v" if "v \<in> set vs" for v
    using assms(2) that by (auto simp: list_all_iff)
  have "v = VNil \<or> paramWireType v = Inr t" if "v \<in> set vs" for v
    using assms(1) that by (auto simp: homogeneous_def split: if_splits)
  then have "read_elems tz t (map scalar_content vs) = Inr (map decoded_as vs)"
    using ok by (intro read_elems_encoded) blast
  moreover have "split_args (encode_args (map scalar_content vs)) = Some (map scalar_content vs)"
    by (rule split_args_encode) (use short in auto)
  ultimately show ?thesis
    by (simp add: read_param_def flip: homogeneous_elem_type [OF assms(1)])
qed

subsection \<open>encodeArg\<close>

lemma sent_as_scalar:
  assumes "paramWireType v = Inr t"
  shows "sent_as v (t, scalar_content v)"
  using paramWireType_bind [OF assms] scalar_reads [OF assms] by (simp add: sent_as_def)

lemma EncodeParam_sent:
  assumes "EncodeParam w a = Inr w'" and "\<And>l. a \<noteq> VLob l" and "\<And>s. a \<noteq> VNumeric s"
  shows "\<exists>t x. w_buf w' = w_buf w @ encode_args [[t], x] \<and> sent_as a (t, x)"
proof (cases "\<exists>vs. a = VSlice vs")
  case True
  with assms(1) obtain vs where a: "a = VSlice vs" and e: "encodeCollectionParam w vs = Inr w'" by (auto simp: EncodeParam_def)
  from e show ?thesis
  proof (rule w_buf_encodeCollectionParam)
    fix t
    assume h: "homogeneous vs t"
      and w': "w_buf w' = w_buf w @ encode_args [[TypeSequence], t # encode_args (map scalar_content vs)]"
    have "sent_as a (TypeSequence, bind_content a)" using collection_reads [OF h] by (simp add: sent_as_def a)
    with w' homogeneous_elem_type [OF h] show ?thesis by (intro exI [of _ TypeSequence] exI [of _ "bind_content a"]) (simp add: a)
  qed
next
  case False
  with assms(1) obtain t where t: "paramWireType a = Inr t" and w': "w' = encodeScalarValue (ArgByte w t) a"
    by (cases a) (auto simp: EncodeParam_def)
  then have "w_buf w' = w_buf w @ encode_args [[t], scalar_content a]" by (simp add: w_buf_scalar scalar_def wire_simps)
  with sent_as_scalar [OF t] show ?thesis by blast
qed

lemma numeric_sent: "sent_as (VString s) tc \<Longrightarrow> sent_as (VNumeric s) tc"
  by (auto simp: sent_as_def)

lemma lob_sent:
  assumes "Lob_encodeParam w l = Inr w'"
  shows "\<exists>t x. w_buf w' = w_buf w @ encode_args [[t], x] \<and> sent_as (VLob l) (t, x)"
proof (cases l)
  case None
  with assms EncodeParam_sent [of w VNil w'] obtain t x
    where "w_buf w' = w_buf w @ encode_args [[t], x]" "sent_as VNil (t, x)" by (auto simp: Lob_encodeParam_def)
  then show ?thesis using None by (auto simp: sent_as_def)
next
  case (Some h)
  let ?t = "if lob_isClob h then TypeClob else TypeBlob" and ?x = "lh_raw (lob_handle h)"
  have b: "w_buf w' = w_buf w @ encode_args [[?t], ?x]"
    using assms Some by (auto simp: Lob_encodeParam_def Packed_def wire_simps Let_def)
  have "read_param tz ?t ?x = Inr (VLob (Some (h\<lparr>lob_writable := False\<rparr>)))" if ok: "lob_ok (lob_handle h)" for tz
  proof -
    have "?x \<noteq> []" using lob_ok_length [OF ok] by auto
    then show ?thesis
      using ok by (cases h) (auto simp: read_param_def resultLob_def lob_ok_def type_codes)
  qed
  then have "sent_as (VLob l) (?t, ?x)" by (simp add: sent_as_def Some)
  with b show ?thesis by blast
qed

lemma encodeArg_sent:
  assumes "encodeArg w a = Inr w'"
  shows "\<exists>t x. w_buf w' = w_buf w @ encode_args [[t], x] \<and> sent_as a (t, x)"
proof (cases "\<exists>l. a = VLob l")
  case True
  then show ?thesis using assms lob_sent by (auto simp: encodeArg_def)
next
  case lob: False
  show ?thesis
  proof (cases "\<exists>s. a = VNumeric s")
    case True
    then show ?thesis
      using assms EncodeParam_sent [of w "VString s" w' for s] numeric_sent by (fastforce simp: encodeArg_def)
  next
    case False
    with lob assms have "EncodeParam w a = Inr w'" by (cases a) (auto simp: encodeArg_def)
    then show ?thesis using lob False by (intro EncodeParam_sent) auto
  qed
qed

text \<open>The arguments of a list of values: two for each.\<close>

definition arg_pairs :: "(byte \<times> bytes) list \<Rightarrow> bytes list" where
  "arg_pairs tcs = concat (map (\<lambda>(t, x). [[t], x]) tcs)"

lemma arg_pairs_append [simp]: "arg_pairs (as @ bs) = arg_pairs as @ arg_pairs bs"
  by (simp add: arg_pairs_def)

lemma encodeArgs_sent:
  "encodeArgs i w as = Inr w' \<Longrightarrow>
    \<exists>tcs. list_all2 sent_as as tcs \<and> w_buf w' = w_buf w @ encode_args (arg_pairs tcs)"
proof (induction i w as rule: encodeArgs.induct)
  case (1 i w)
  then show ?case by (simp add: arg_pairs_def)
next
  case (2 i w a as)
  from "2.prems" obtain w1 where w1: "encodeArg w a = Inr w1" and r: "encodeArgs (i + 1) w1 as = Inr w'"
    by (auto simp: bindE_Inr_iff)
  from encodeArg_sent [OF w1] obtain t x where b: "w_buf w1 = w_buf w @ encode_args [[t], x]" "sent_as a (t, x)" by blast
  have "wrapE ''cubrid: bind %d: %w'' [EInt (int i + 1)] (encodeArg w a) = Inr w1" by (simp add: w1)
  from "2.IH" [OF this r] obtain tcs where "list_all2 sent_as as tcs"
    "w_buf w' = w_buf w1 @ encode_args (arg_pairs tcs)" by blast
  with b show ?case by (intro exI [of _ "(t, x) # tcs"]) (simp add: arg_pairs_def)
qed

end
