(* ===== verification/Batch.thy ===== *)
theory Batch
  imports Exec_Facts Bind_Facts Wire_Batch
begin

section \<open>Batch execution (cubrid/batch.go)\<close>

text \<open>
  A batch is one request whose response carries one outcome per row or statement. The client-side
  guards reject a batch before anything is sent.
\<close>

definition batchResults :: "batch_result list \<Rightarrow> batch_result list" where
  "batchResults pres = map (\<lambda>p. \<lparr>br_AffectedRows = br_AffectedRows p, br_Err = br_Err p\<rparr>) pres"

definition batchRoundTrip :: "ctx \<Rightarrow> bytes \<Rightarrow> bool \<Rightarrow> batch_result list conn_m" where
  "batchRoundTrip ctx payload withStmtType =
     bindC (roundTrip ctx payload) (\<lambda>r c.
       returnC (bindE (ReadStatus r) (\<lambda>(_, r).
                bindE (ParseBatchResponse (c_version c) withStmtType r) (\<lambda>(pres, _).
                  Inr (batchResults pres)))) c)"

text \<open>The shape check of \<^verbatim>\<open>ExecBatch\<close>: the first row of the wrong width.\<close>

fun checkRows :: "nat \<Rightarrow> nat \<Rightarrow> value list list \<Rightarrow> error + unit" where
  "checkRows i pc [] = Inr ()"
| "checkRows i pc (row # rows) =
     (if length row \<noteq> pc
      then Inl (Errorf ''cubrid: batch row %d has %d args, statement wants %d''
                  [EInt (int i + 1), EInt (int (length row)), EInt (int pc)])
      else checkRows (i + 1) pc rows)"

fun encodeBatchRow :: "nat \<Rightarrow> nat \<Rightarrow> writer \<Rightarrow> value list \<Rightarrow> error + writer" where
  "encodeBatchRow i j w [] = Inr w"
| "encodeBatchRow i j w (a # as) =
     bindE (wrapE ''cubrid: batch row %d bind %d: %w'' [EInt (int i + 1), EInt (int j + 1)] (encodeArg w a))
       (\<lambda>w. encodeBatchRow i (j + 1) w as)"

fun encodeBatchRows :: "nat \<Rightarrow> writer \<Rightarrow> value list list \<Rightarrow> error + writer" where
  "encodeBatchRows i w [] = Inr w"
| "encodeBatchRows i w (row # rows) =
     bindE (encodeBatchRow i 0 w row) (\<lambda>w. encodeBatchRows (i + 1) w rows)"

definition ExecBatch :: "ctx \<Rightarrow> value list list \<Rightarrow> stmt \<Rightarrow> batch_result list conn_m" where
  "ExecBatch ctx rows s c =
     (if st_closed s then (Inl (Errorf ''cubrid: statement is closed'' []), c)
      else if length rows = 0 then (Inr [], c)
      else if st_paramCount s = 0 \<and> length rows > 1
      then (Inl (Errorf ''cubrid: cannot batch a statement without parameters %d times''
                   [EInt (int (length rows))]), c)
      else case checkRows 0 (st_paramCount s) rows of
        Inl e \<Rightarrow> (Inl e, c)
      | Inr _ \<Rightarrow>
          (let w = ExecuteBatchPrepRequest NewWriter (st_handle s) (c_autoCommit c) (c_version c) in
           case encodeBatchRows 0 w rows of
             Inl e \<Rightarrow> (Inl e, c)
           | Inr w \<Rightarrow> batchRoundTrip ctx (Writer_Bytes w) False c))"

definition ExecBatchSQL :: "ctx \<Rightarrow> string list \<Rightarrow> batch_result list conn_m" where
  "ExecBatchSQL ctx sqls c =
     (if length sqls = 0 then (Inr [], c)
      else
       let w = ExecuteBatchSQLRequest NewWriter (c_autoCommit c) sqls (c_version c)
       in batchRoundTrip ctx (Writer_Bytes w) True c)"

subsection \<open>Operations on the connection\<close>

interpretation batchRoundTrip: conn_request "batchRoundTrip ctx p st"
proof -
  have "conn_op (\<lambda>c. returnC (bindE (ReadStatus r) (\<lambda>(_, r). bindE (ParseBatchResponse (c_version c) st r)
      (\<lambda>(pres, _). Inr (batchResults pres)))) c)" for r
    by (rule conn_op_read [where g = c_version]) (rule conn_op_return)
  then show "conn_request (batchRoundTrip ctx p st)"
    unfolding batchRoundTrip_def by (intro conn_request_bind conn_request_roundTrip)
qed

interpretation ExecBatch: conn_op "ExecBatch ctx rows s"
  using batchRoundTrip.steps
  by unfold_locales (auto simp: ExecBatch_def Let_def split: sum.split)

interpretation ExecBatchSQL: conn_op "ExecBatchSQL ctx sqls"
  using batchRoundTrip.steps by unfold_locales (auto simp: ExecBatchSQL_def Let_def)

subsection \<open>One result per row\<close>

lemma batchResults_id [simp]: "batchResults pres = pres"
  by (simp add: batchResults_def map_idI)

lemma batchRoundTrip_served:
  assumes "serves srv \<sigma> c" and "fst (srv \<sigma> (p, requestCasInfo c)) = put_u32 rc @ batch_bytes (c_version c) st os"
    and "0 \<le> sint rc" and "length os < 2147483648" and "\<And>x. x \<in> set os \<Longrightarrow> outcome_ok x"
  shows "\<exists>c'. batchRoundTrip ctx p st c = (Inr (map outcome_result os), c') \<and>
    serves srv (snd (srv \<sigma> (p, requestCasInfo c))) c'"
proof -
  obtain c' where rt: "roundTrip ctx p c = (Inr (NewReader (fst (srv \<sigma> (p, requestCasInfo c)))), c')"
    and s': "serves srv (snd (srv \<sigma> (p, requestCasInfo c))) c'" and ses: "same_session c c'"
    by (rule serves_roundTrip [OF assms(1), of ctx p])
  let ?r = "NewReader (put_u32 rc @ batch_bytes (c_version c) st os)"
  have st: "ReadStatus ?r = Inr (rc, advance 4 ?r)" using assms(3) by (simp add: ReadStatus_eq Let_def)
  have "reader_ok (advance 4 ?r)" "rem_bytes (advance 4 ?r) = batch_bytes (c_version c) st os @ []" by simp_all
  note p = parsesD [OF parses_ParseBatchResponse [OF assms(4,5)] this]
  have "c_version c' = c_version c" using ses by (simp add: same_session_def)
  then show ?thesis
    using s' by (simp add: batchRoundTrip_def bindC_def rt assms(2) returnC_def st p)
qed

text \<open>The batch request: header arguments, then two arguments per bind value.\<close>

lemma encodeBatchRow_sent:
  "encodeBatchRow i j w as = Inr w' \<Longrightarrow>
    \<exists>tcs. list_all2 sent_as as tcs \<and> w_buf w' = w_buf w @ encode_args (arg_pairs tcs)"
proof (induction i j w as rule: encodeBatchRow.induct)
  case (2 i j w a as)
  from "2.prems" obtain w1 where w1: "encodeArg w a = Inr w1" and r: "encodeBatchRow i (j + 1) w1 as = Inr w'"
    by (auto simp: bindE_Inr_iff)
  from encodeArg_sent [OF w1] obtain t x where b: "w_buf w1 = w_buf w @ encode_args [[t], x]" "sent_as a (t, x)" by blast
  have "wrapE ''cubrid: batch row %d bind %d: %w'' [EInt (int i + 1), EInt (int j + 1)] (encodeArg w a) = Inr w1"
    by (simp add: w1)
  from "2.IH" [OF this r] obtain tcs where "list_all2 sent_as as tcs" "w_buf w' = w_buf w1 @ encode_args (arg_pairs tcs)" by blast
  with b show ?case by (intro exI [of _ "(t, x) # tcs"]) (simp add: arg_pairs_def)
qed (simp add: arg_pairs_def)

lemma encodeBatchRows_sent:
  "encodeBatchRows i w rows = Inr w' \<Longrightarrow>
    \<exists>tcs. list_all2 sent_as (concat rows) tcs \<and> w_buf w' = w_buf w @ encode_args (arg_pairs tcs)"
proof (induction i w rows rule: encodeBatchRows.induct)
  case (2 i w row rows)
  from "2.prems" obtain w1 where w1: "encodeBatchRow i 0 w row = Inr w1" and r: "encodeBatchRows (i + 1) w1 rows = Inr w'"
    by (auto simp: bindE_Inr_iff)
  from encodeBatchRow_sent [OF w1] obtain as
    where as: "list_all2 sent_as row as" "w_buf w1 = w_buf w @ encode_args (arg_pairs as)" by blast
  from "2.IH" [OF w1 r] obtain bs
    where "list_all2 sent_as (concat rows) bs" "w_buf w' = w_buf w1 @ encode_args (arg_pairs bs)" by blast
  with as show ?case by (intro exI [of _ "as @ bs"]) (simp add: list_all2_appendI)
qed (simp add: arg_pairs_def)

lemma checkRows_iff: "checkRows i n rows = Inr () \<longleftrightarrow> (\<forall>row \<in> set rows. length row = n)"
  by (induction i n rows rule: checkRows.induct) auto

end
