(* ===== verification/Adapter.thy ===== *)
theory Adapter
  imports Schema_Facts Connect_Facts Batch
begin

section \<open>The database/sql adapter (package cubridsql) and Numeric\<close>

text \<open>
  The root package wraps the native client for database/sql: argument binding, result widening,
  transactions, session reset, and error mapping. Its \<^verbatim>\<open>conn\<close> is a native connection, its \<^verbatim>\<open>stmt\<close> a
  native statement.
\<close>

subsection \<open>Errors (value.go)\<close>

definition DriverErrBadConn :: error where
  "DriverErrBadConn = Errorf ''driver: bad connection'' []"

definition DriverErrSkip :: error where
  "DriverErrSkip = Errorf ''driver: skip fast-path; continue as if unimplemented'' []"

definition mapErr :: "error \<Rightarrow> error" where
  "mapErr e = (if errors_Is e ErrBadConn then DriverErrBadConn else e)"

fun mapErrR :: "error + 'a \<Rightarrow> error + 'a" where
  "mapErrR (Inl e) = Inl (mapErr e)"
| "mapErrR (Inr x) = Inr x"

definition mapErrC :: "'a conn_m \<Rightarrow> 'a conn_m" where
  "mapErrC m c = (case m c of (r, c) \<Rightarrow> (mapErrR r, c))"

subsection \<open>Result values (value.go)\<close>

definition maxLobBytes :: int where
  "maxLobBytes = 2 ^ 20"

text \<open>
  \<^verbatim>\<open>float64(v)\<close> of a float32, on bit patterns: the exponent is rebiased, a subnormal is normalised,
  a NaN is quieted.
\<close>

fun highbit :: "nat \<Rightarrow> nat" where
  "highbit n = (if n < 2 then 0 else Suc (highbit (n div 2)))"

definition widenFloat :: "32 word \<Rightarrow> 64 word" where
  "widenFloat w =
     (let s = unat (drop_bit 31 w); e = unat (drop_bit 23 w AND 0xFF); m = unat (w AND 0x7FFFFF);
          (e', m') =
            (if e = 255 then (2047, if m = 0 then 0 else if m \<ge> 2 ^ 22 then m * 2 ^ 29 else (m + 2 ^ 22) * 2 ^ 29)
             else if e = 0 then
               (if m = 0 then (0, 0) else (let k = highbit m in (k + 874, (m - 2 ^ k) * 2 ^ (52 - k))))
             else (e + 896, m * 2 ^ 29))
      in of_nat (s * 2 ^ 63 + e' * 2 ^ 52 + m'))"

fun toDriverValue :: "ctx \<Rightarrow> value \<Rightarrow> value conn_m"
  and toDriverValues :: "ctx \<Rightarrow> nat \<Rightarrow> value list \<Rightarrow> value list conn_m" where
  "toDriverValue ctx v c =
     (case v of
        VInt16 n \<Rightarrow> (Inr (VInt64 (scast n)), c)
      | VInt32 n \<Rightarrow> (Inr (VInt64 (scast n)), c)
      | VFloat32 w \<Rightarrow> (Inr (VFloat64 (widenFloat w)), c)
      | VLob (Some l) \<Rightarrow>
          if sint (Lob_Size l) > maxLobBytes
          then (Inl (Errorf ''cubridsql: %d-byte LOB column exceeds the adapter's %d-byte materialization cap; stream it with the native API (cubrid.Conn, Lob.ReadAt)''
                       [EInt (sint (Lob_Size l)), EInt maxLobBytes]), c)
          else mapErrC (bindC (ReadAll ctx l) (\<lambda>b. returnC (Inr (VBytes b)))) c
      | VLob None \<Rightarrow> (Inl (Panic ''nil pointer dereference''), c)
      | VSlice vs \<Rightarrow> bindC (toDriverValues ctx 0 vs) (\<lambda>out. returnC (Inr (VSlice out))) c
      | _ \<Rightarrow> (Inr v, c))"
| "toDriverValues ctx i [] c = (Inr [], c)"
| "toDriverValues ctx i (e # es) c =
     (case toDriverValue ctx e c of
        (Inl err, c) \<Rightarrow>
          (Inl (if is_panic err then err else Wrapf ''cubridsql: collection element %d: %w'' [EInt (int i)] err), c)
      | (Inr ev, c) \<Rightarrow>
          (case toDriverValues ctx (i + 1) es c of
             (Inl err, c) \<Rightarrow> (Inl err, c)
           | (Inr evs, c) \<Rightarrow> (Inr (ev # evs), c)))"

declare toDriverValue.simps [simp del]

subsection \<open>Arguments (stmt.go, conn.go)\<close>

record named_value =
  nv_Name :: string
  nv_Ordinal :: int
  nv_Value :: "value"

definition named_error :: "string \<Rightarrow> error" where
  "named_error name = Errorf ''cubridsql: named parameter %q is not supported (CUBRID binds by ? ordinal only)'' [EStr name]"

definition CheckNamedValue :: "named_value \<Rightarrow> error option" where
  "CheckNamedValue nv =
     (if nv_Name nv \<noteq> [] then Some (named_error (nv_Name nv))
      else case nv_Value nv of VLob _ \<Rightarrow> None | VSlice _ \<Rightarrow> None | _ \<Rightarrow> Some DriverErrSkip)"

fun valuesToNamedFrom :: "nat \<Rightarrow> value list \<Rightarrow> named_value list" where
  "valuesToNamedFrom i [] = []"
| "valuesToNamedFrom i (v # vs) =
     \<lparr>nv_Name = [], nv_Ordinal = int i + 1, nv_Value = v\<rparr> # valuesToNamedFrom (i + 1) vs"

definition valuesToNamed :: "value list \<Rightarrow> named_value list" where
  "valuesToNamed args = valuesToNamedFrom 0 args"

fun bindArgsLoop :: "nat \<Rightarrow> value list \<Rightarrow> named_value list \<Rightarrow> error + value list" where
  "bindArgsLoop n out [] = Inr out"
| "bindArgsLoop n out (a # as) =
     (if nv_Name a \<noteq> [] then Inl (named_error (nv_Name a))
      else if nv_Ordinal a < 1 \<or> nv_Ordinal a > int n
      then Inl (Errorf ''cubridsql: parameter ordinal %d out of range [1, %d]'' [EInt (nv_Ordinal a), EInt (int n)])
      else bindArgsLoop n (out[nat (nv_Ordinal a - 1) := nv_Value a]) as)"

definition bindArgs :: "named_value list \<Rightarrow> error + value list" where
  "bindArgs args = bindArgsLoop (length args) (replicate (length args) VNil) args"

subsection \<open>Statements and rows (stmt.go, rows.go)\<close>

record sql_rows =
  sr_ctx :: ctx
  sr_nr :: rows
  sr_cols :: "column list"
  sr_ownedStmt :: "stmt option"

definition sql_Prepare :: "ctx \<Rightarrow> string \<Rightarrow> stmt conn_m" where
  "sql_Prepare ctx query = mapErrC (Prepare ctx query)"

definition sql_NumInput :: "stmt \<Rightarrow> int" where
  "sql_NumInput s = ParamCount s"

definition sql_stmt_Close :: "stmt \<Rightarrow> conn \<Rightarrow> (error + unit) \<times> stmt \<times> conn" where
  "sql_stmt_Close s c = (case Stmt_Close contextBackground s c of (r, s, c) \<Rightarrow> (mapErrR r, s, c))"

definition sql_stmt_Exec :: "tzdb \<Rightarrow> ctx \<Rightarrow> named_value list \<Rightarrow> stmt \<Rightarrow> conn \<Rightarrow> (error + int64) \<times> stmt \<times> conn" where
  "sql_stmt_Exec tz ctx args s c =
     (case bindArgs args of
        Inl e \<Rightarrow> (Inl e, s, c)
      | Inr vals \<Rightarrow> (case Stmt_Exec tz ctx vals s c of (r, s, c) \<Rightarrow> (mapErrR r, s, c)))"

definition sql_stmt_Query :: "tzdb \<Rightarrow> ctx \<Rightarrow> named_value list \<Rightarrow> stmt \<Rightarrow> conn \<Rightarrow> (error + sql_rows) \<times> stmt \<times> conn" where
  "sql_stmt_Query tz ctx args s c =
     (case bindArgs args of
        Inl e \<Rightarrow> (Inl e, s, c)
      | Inr vals \<Rightarrow>
          (case Stmt_Query tz ctx vals s c of
             (Inl e, s, c) \<Rightarrow> (Inl (mapErr e), s, c)
           | (Inr nr, s, c) \<Rightarrow>
               (Inr \<lparr>sr_ctx = ctx, sr_nr = nr, sr_cols = Rows_Columns nr, sr_ownedStmt = None\<rparr>, s, c)))"

text \<open>The legacy forms without a context, and the result of an execution.\<close>

definition sql_stmt_ExecValues :: "tzdb \<Rightarrow> value list \<Rightarrow> stmt \<Rightarrow> conn \<Rightarrow> (error + int64) \<times> stmt \<times> conn" where
  "sql_stmt_ExecValues tz args = sql_stmt_Exec tz contextBackground (valuesToNamed args)"

definition sql_stmt_QueryValues :: "tzdb \<Rightarrow> value list \<Rightarrow> stmt \<Rightarrow> conn \<Rightarrow> (error + sql_rows) \<times> stmt \<times> conn" where
  "sql_stmt_QueryValues tz args = sql_stmt_Query tz contextBackground (valuesToNamed args)"

definition LastInsertId :: "int64 \<Rightarrow> error + int64" where
  "LastInsertId affected = Inl (Errorf ''cubridsql: LastInsertId is not supported by the CUBRID wire protocol path used here; run SELECT LAST_INSERT_ID() in the same session instead'' [])"

definition RowsAffected :: "int64 \<Rightarrow> error + int64" where
  "RowsAffected affected = Inr affected"

definition sql_Exec :: "tzdb \<Rightarrow> ctx \<Rightarrow> string \<Rightarrow> named_value list \<Rightarrow> int64 conn_m" where
  "sql_Exec tz ctx query args c =
     (case bindArgs args of
        Inl e \<Rightarrow> (Inl e, c)
      | Inr vals \<Rightarrow>
          bindC (mapErrC (Prepare ctx query)) (\<lambda>s c.
            case Stmt_Exec tz ctx vals s c of
              (r, s, c) \<Rightarrow> (case Stmt_Close contextBackground s c of (_, _, c) \<Rightarrow> (mapErrR r, c))) c)"

definition sql_Query :: "tzdb \<Rightarrow> ctx \<Rightarrow> string \<Rightarrow> named_value list \<Rightarrow> sql_rows conn_m" where
  "sql_Query tz ctx query args c =
     (case bindArgs args of
        Inl e \<Rightarrow> (Inl e, c)
      | Inr vals \<Rightarrow>
          bindC (mapErrC (Prepare ctx query)) (\<lambda>s c.
            case Stmt_Query tz ctx vals s c of
              (Inl e, s, c) \<Rightarrow> (case Stmt_Close contextBackground s c of (_, _, c) \<Rightarrow> (Inl (mapErr e), c))
            | (Inr nr, s, c) \<Rightarrow>
                (Inr \<lparr>sr_ctx = ctx, sr_nr = nr, sr_cols = Rows_Columns nr, sr_ownedStmt = Some s\<rparr>, c)) c)"

definition sql_rows_Columns :: "sql_rows \<Rightarrow> string list" where
  "sql_rows_Columns r = map col_Name (sr_cols r)"

definition sql_rows_Close :: "sql_rows \<Rightarrow> conn \<Rightarrow> (error + unit) \<times> sql_rows \<times> conn" where
  "sql_rows_Close r c =
     (case Rows_Close (sr_nr r) c of
        (res, nr, c) \<Rightarrow>
          (let r = r\<lparr>sr_nr := nr\<rparr> in
           case sr_ownedStmt r of
             None \<Rightarrow> (mapErrR res, r, c)
           | Some s \<Rightarrow>
               (case Stmt_Close contextBackground s c of
                  (cres, s, c) \<Rightarrow>
                    (mapErrR (case res of Inl e \<Rightarrow> Inl e | Inr _ \<Rightarrow> cres), r\<lparr>sr_ownedStmt := Some s\<rparr>, c))))"

fun toDriverRow :: "ctx \<Rightarrow> value list \<Rightarrow> value list conn_m" where
  "toDriverRow ctx [] c = (Inr [], c)"
| "toDriverRow ctx (v # vs) c =
     bindC (toDriverValue ctx v) (\<lambda>dv. bindC (toDriverRow ctx vs) (\<lambda>dvs. returnC (Inr (dv # dvs)))) c"

definition sql_rows_Next :: "tzdb \<Rightarrow> sql_rows \<Rightarrow> conn \<Rightarrow> (error + value list) \<times> sql_rows \<times> conn" where
  "sql_rows_Next tz r c =
     (case Next tz (sr_nr r) c of
        (Inl e, nr, c) \<Rightarrow> (Inl (if errors_Is e EOF then EOF else mapErr e), r\<lparr>sr_nr := nr\<rparr>, c)
      | (Inr row, nr, c) \<Rightarrow> (case toDriverRow (sr_ctx r) row c of (res, c) \<Rightarrow> (res, r\<lparr>sr_nr := nr\<rparr>, c)))"

definition ColumnTypeDatabaseTypeName :: "column \<Rightarrow> string" where
  "ColumnTypeDatabaseTypeName col = TypeName col"

definition ColumnTypeLength :: "column \<Rightarrow> (int \<times> bool)" where
  "ColumnTypeLength col =
     (if TypeName col \<in> {''VARCHAR'', ''NCHAR VARYING'', ''BIT VARYING''} then (sint (col_Precision col), True)
      else if TypeName col \<in> {''BLOB'', ''CLOB'', ''JSON''} then (2 ^ 63 - 1, True)
      else (0, False))"

definition ColumnTypePrecisionScale :: "column \<Rightarrow> int \<times> int \<times> bool" where
  "ColumnTypePrecisionScale col =
     (if TypeName col = ''NUMERIC'' then (sint (col_Precision col), sint (col_Scale col), True) else (0, 0, False))"

definition ColumnTypeNullable :: "column \<Rightarrow> bool \<times> bool" where
  "ColumnTypeNullable col = (col_Nullable col, True)"

datatype scan_type = ScanInt64 | ScanFloat64 | ScanString | ScanBytes | ScanTime | ScanSlice | ScanAny

definition ColumnTypeScanType :: "column \<Rightarrow> scan_type" where
  "ColumnTypeScanType col =
     (let t = TypeName col in
      if t \<in> {''SMALLINT'', ''INTEGER'', ''BIGINT''} then ScanInt64
      else if t \<in> {''FLOAT'', ''DOUBLE'', ''MONETARY''} then ScanFloat64
      else if t \<in> {''CHAR'', ''VARCHAR'', ''NCHAR'', ''NCHAR VARYING'', ''ENUM'', ''NUMERIC''} then ScanString
      else if t \<in> {''BIT'', ''BIT VARYING'', ''JSON'', ''BLOB'', ''CLOB''} then ScanBytes
      else if t \<in> {''DATE'', ''TIME'', ''TIMESTAMP'', ''DATETIME'', ''TIMESTAMPTZ'', ''TIMESTAMPLTZ'',
                   ''DATETIMETZ'', ''DATETIMELTZ''} then ScanTime
      else if t \<in> {''SET'', ''MULTISET'', ''SEQUENCE''} then ScanSlice
      else ScanAny)"

subsection \<open>Transactions and the pool (conn.go, tx.go)\<close>

text \<open>The levels of \<^verbatim>\<open>sql.IsolationLevel\<close>, by number; 0 is the native "leave alone".\<close>

definition nativeIsolation :: "int \<Rightarrow> isolation_level option" where
  "nativeIsolation lv =
     (if lv = 0 then Some 0
      else if lv = 2 then Some IsolationReadCommitted
      else if lv = 4 then Some IsolationRepeatableRead
      else if lv = 6 then Some IsolationSerializable
      else None)"

definition BeginTx :: "ctx \<Rightarrow> bool \<Rightarrow> int \<Rightarrow> unit conn_m" where
  "BeginTx ctx readOnly isolation c =
     (if readOnly then (Inl (Errorf ''cubridsql: read-only transactions are not supported by CUBRID'' []), c)
      else case nativeIsolation isolation of
        None \<Rightarrow> (Inl (Errorf ''cubridsql: unsupported isolation level %s (CUBRID supports default, read committed, repeatable read, serializable)''
                       [EInt isolation]), c)
      | Some lv \<Rightarrow>
          bindC (if lv \<noteq> 0 then mapErrC (SetIsolationLevel ctx lv) else returnC (Inr ())) (\<lambda>_ c.
            (Inr (), SetAutoCommit False c)) c)"

definition tx_Commit :: "unit conn_m" where
  "tx_Commit c = (case Commit contextBackground c of (r, c) \<Rightarrow> (mapErrR r, SetAutoCommit True c))"

definition tx_Rollback :: "unit conn_m" where
  "tx_Rollback c = (case Rollback contextBackground c of (r, c) \<Rightarrow> (mapErrR r, SetAutoCommit True c))"

definition sql_Ping :: "ctx \<Rightarrow> unit conn_m" where
  "sql_Ping ctx = mapErrC (Ping ctx)"

definition IsValid :: "conn \<Rightarrow> bool" where
  "IsValid c = Valid c"

definition ResetSession :: "ctx \<Rightarrow> unit conn_m" where
  "ResetSession ctx c =
     (if \<not> Valid c then (Inl DriverErrBadConn, c)
      else if \<not> AutoCommit c then
        (case Rollback ctx c of
           (Inl _, c) \<Rightarrow> (Inl DriverErrBadConn, c)
         | (Inr _, c) \<Rightarrow> (Inr (), SetAutoCommit True c))
      else (Inr (), c))"

definition sql_conn_Close :: "unit conn_m" where
  "sql_conn_Close = Conn_Close"

subsection \<open>Driver and connector (driver.go, connector.go)\<close>

definition OpenConnector :: "(string \<Rightarrow> error + url) \<Rightarrow> (string \<Rightarrow> int option) \<Rightarrow> string \<Rightarrow> error + config" where
  "OpenConnector url_Parse dur dsn = ParseDSN url_Parse dur dsn"

definition Connector_Connect :: "net \<Rightarrow> ctx \<Rightarrow> config \<Rightarrow> world \<Rightarrow> (error + conn) \<times> world" where
  "Connector_Connect net ctx cfg w = Connect net ctx cfg w"

definition Driver_Open ::
    "(string \<Rightarrow> error + url) \<Rightarrow> (string \<Rightarrow> int option) \<Rightarrow> net \<Rightarrow> string \<Rightarrow> world \<Rightarrow> (error + conn) \<times> world" where
  "Driver_Open url_Parse dur net dsn w =
     (case OpenConnector url_Parse dur dsn of
        Inl e \<Rightarrow> (Inl e, w)
      | Inr cfg \<Rightarrow> Connector_Connect net contextBackground cfg w)"

subsection \<open>Numeric (cubrid/numeric.go)\<close>

text \<open>
  \<^verbatim>\<open>fmt_float\<close> and \<^verbatim>\<open>parse_float\<close> stand for \<^verbatim>\<open>strconv.FormatFloat(v, 'f', -1, 64)\<close> and
  \<^verbatim>\<open>strconv.ParseFloat\<close>, on bit patterns.
\<close>

definition not_finite :: "64 word \<Rightarrow> bool" where
  "not_finite w \<longleftrightarrow> drop_bit 52 w AND 0x7FF = 0x7FF"

fun Numeric_Scan :: "(64 word \<Rightarrow> string) \<Rightarrow> value \<Rightarrow> error + string" where
  "Numeric_Scan fmt_float (VString s) = Inr s"
| "Numeric_Scan fmt_float (VBytes b) = Inr (bytes_string b)"
| "Numeric_Scan fmt_float (VFloat64 w) =
     (if not_finite w
      then Inl (Errorf ''cubrid: cannot scan %v into Numeric: NUMERIC cannot represent NaN or infinities'' [EVal (VFloat64 w)])
      else Inr (fmt_float w))"
| "Numeric_Scan fmt_float (VInt64 n) = Inr (Itoa (sint n))"
| "Numeric_Scan fmt_float VNil = Inl (Errorf ''cubrid: cannot scan NULL into Numeric (use sql.Null[cubrid.Numeric])'' [])"
| "Numeric_Scan fmt_float v = Inl (Errorf ''cubrid: cannot scan %T into Numeric'' [EVal v])"

definition Numeric_Value :: "string \<Rightarrow> value" where
  "Numeric_Value n = VString n"

definition Numeric_Float64 :: "(string \<Rightarrow> error + 64 word) \<Rightarrow> string \<Rightarrow> error + 64 word" where
  "Numeric_Float64 parse_float n = wrapE ''cubrid: Numeric %q is not a valid decimal: %w'' [EStr n] (parse_float n)"

end
