(* ===== verification/Adapter_Facts.thy ===== *)
theory Adapter_Facts
  imports Adapter
begin

section \<open>Facts about the database/sql adapter\<close>

subsection \<open>Arguments\<close>

lemma length_valuesToNamedFrom [simp]: "length (valuesToNamedFrom i vs) = length vs"
  by (induction i vs rule: valuesToNamedFrom.induct) auto

lemma bindArgsLoop_values:
  "length out = n \<Longrightarrow> i + length vs = n \<Longrightarrow>
    bindArgsLoop n out (valuesToNamedFrom i vs) = Inr (take i out @ vs)"
proof (induction vs arbitrary: i out)
  case (Cons v vs)
  have i: "i < length out" using Cons.prems by simp
  have "bindArgsLoop n (out[i := v]) (valuesToNamedFrom (Suc i) vs) = Inr (take (Suc i) (out[i := v]) @ vs)"
    using Cons.prems by (intro Cons.IH) simp_all
  moreover have "take (Suc i) (out[i := v]) = take i out @ [v]"
    using i by (simp add: take_Suc_conv_app_nth)
  ultimately show ?case using Cons.prems by simp
qed simp

text \<open>\<^verbatim>\<open>bindArgs\<close> places each value at its ordinal, whatever order the arguments come in.\<close>

definition ordinals_ok :: "named_value list \<Rightarrow> bool" where
  "ordinals_ok args \<longleftrightarrow> (\<forall>a \<in> set args. nv_Name a = [] \<and> 1 \<le> nv_Ordinal a \<and> nv_Ordinal a \<le> int (length args)) \<and>
     distinct (map nv_Ordinal args)"

lemma bindArgsLoop_ok:
  "(\<forall>a \<in> set args. nv_Name a = [] \<and> 1 \<le> nv_Ordinal a \<and> nv_Ordinal a \<le> int n) \<Longrightarrow>
   distinct (map nv_Ordinal args) \<Longrightarrow> length out = n \<Longrightarrow>
   \<exists>vals. bindArgsLoop n out args = Inr vals \<and> length vals = n \<and>
     (\<forall>a \<in> set args. vals ! nat (nv_Ordinal a - 1) = nv_Value a) \<and>
     (\<forall>k < n. int k + 1 \<notin> nv_Ordinal ` set args \<longrightarrow> vals ! k = out ! k)"
proof (induction args arbitrary: out)
  case (Cons a args)
  let ?k = "nat (nv_Ordinal a - 1)"
  have k: "?k < n" "int ?k + 1 = nv_Ordinal a" using Cons.prems(1) by auto
  obtain vals where v: "bindArgsLoop n (out[?k := nv_Value a]) args = Inr vals" "length vals = n"
    "\<forall>b \<in> set args. vals ! nat (nv_Ordinal b - 1) = nv_Value b"
    "\<forall>j < n. int j + 1 \<notin> nv_Ordinal ` set args \<longrightarrow> vals ! j = out[?k := nv_Value a] ! j"
    using Cons.IH [of "out[?k := nv_Value a]"] Cons.prems by auto
  have "nv_Ordinal a \<notin> nv_Ordinal ` set args" using Cons.prems(2) by auto
  then have "vals ! ?k = nv_Value a" using v(4) k Cons.prems(3) by (metis nth_list_update_eq)
  moreover have "vals ! j = out ! j" if "j < n" "int j + 1 \<notin> nv_Ordinal ` set (a # args)" for j
  proof -
    have "j \<noteq> ?k" using that(2) k(2) by auto
    then show ?thesis using that v(4) by auto
  qed
  ultimately show ?case using v Cons.prems(1) by (intro exI [of _ vals]) auto
qed simp

subsection \<open>Result values\<close>

lemma widen_int: "sint (scast (n :: int16) :: int64) = sint n" "sint (scast (m :: int32) :: int64) = sint m"
  by (simp_all add: sint_up_scast is_up)

subsection \<open>Transactions and the pool\<close>

lemma mapErr_no_native: "\<not> errors_Is (mapErr e) ErrBadConn"
  by (simp add: mapErr_def DriverErrBadConn_def)

lemma ResetSession_neutral:
  assumes "ResetSession ctx c = (Inr (), c')"
  shows "Valid c' \<and> c_autoCommit c'"
proof (cases "c_autoCommit c")
  case True
  with assms show ?thesis by (auto simp: ResetSession_def AutoCommit_def split: if_splits)
next
  case False
  with assms obtain c1 where rb: "Rollback ctx c = (Inr (), c1)" and c': "c' = SetAutoCommit True c1"
    by (auto simp: ResetSession_def AutoCommit_def split: if_splits prod.splits sum.splits)
  from rb obtain r where "roundTrip ctx (Writer_Bytes (ArgByte (RawByte NewWriter FnEndTransaction) tranRollback)) c = (Inr r, c1)"
    by (auto simp: Rollback_def endTransaction_def Let_def bindC_def returnC_def split: prod.splits sum.splits)
  with roundTrip_success show ?thesis by (auto simp: c' SetAutoCommit_def Valid_def)
qed

end
