(* ===== verification/Database.thy ===== *)
theory Database
  imports Adapter_Facts
begin

section \<open>A database behind the protocol\<close>

text \<open>
  The far end of the client's statement operations, as a state machine: it prepares the SELECT
  statements of a database, executes them with bound values, serves their rows in portions of its
  choice and forgets a handle when it is closed. The layouts are those the client parses.
\<close>

subsection \<open>Column metadata\<close>

definition type_bytes :: "column \<Rightarrow> bytes" where
  "type_bytes col = [0x80 OR push_bit 5 (col_Collection col) OR col_Charset col, col_TypeCode col]"

definition flag_bytes :: "column \<Rightarrow> bytes" where
  "flag_bytes col = [boolByte (col_AutoIncrement col), boolByte (col_UniqueKey col), boolByte (col_PrimaryKey col), 0, 0,
     boolByte (col_ForeignKey col), 0]"

definition column_bytes :: "column \<Rightarrow> bytes" where
  "column_bytes col = type_bytes col @ put_u16 (col_Scale col) @ put_u32 (col_Precision col) @ put_string (col_Name col) @
     put_string (col_AttrName col) @ put_string (col_TableName col) @ [boolByte (\<not> col_Nullable col)] @
     put_string (col_DefaultValue col) @ flag_bytes col"

definition column_ok :: "column \<Rightarrow> bool" where
  "column_ok col \<longleftrightarrow> col_Collection col < 4 \<and> col_Charset col < 8 \<and> length (col_Name col) < 2147483647 \<and>
     length (col_AttrName col) < 2147483647 \<and> length (col_TableName col) < 2147483647 \<and>
     length (col_DefaultValue col) < 2147483647"

lemma byte_less_cases:
  "(x :: byte) < 4 \<Longrightarrow> x \<in> {0, 1, 2, 3}" "(y :: byte) < 8 \<Longrightarrow> y \<in> {0, 1, 2, 3, 4, 5, 6, 7}"
  by (simp_all add: word_less_nat_alt word_unat_eq_iff) linarith+

lemma type_byte_fields:
  assumes "(x :: byte) < 4" and "(y :: byte) < 8"
  defines "t \<equiv> 0x80 OR push_bit 5 x OR y"
  shows "t AND 0x80 \<noteq> 0" and "t AND 7 = y" and "drop_bit 5 (t AND 0x60) = x"
  using byte_less_cases(1) [OF assms(1)] byte_less_cases(2) [OF assms(2)] unfolding t_def by auto

lemma parses_map: "parses p b x \<Longrightarrow> y = f x \<Longrightarrow> parses (\<lambda>r. bindE (p r) (\<lambda>(x, r). Inr (f x, r))) b y"
  by (simp add: parses_def)

lemma parses_readColumnType:
  assumes "column_ok col"
  shows "parses readColumnType (type_bytes col)
    (zero_column\<lparr>col_Charset := col_Charset col, col_Collection := col_Collection col, col_TypeCode := col_TypeCode col\<rparr>)"
proof -
  define t where "t = 0x80 OR push_bit 5 (col_Collection col) OR col_Charset col"
  have c: "col_Collection col < 4" "col_Charset col < 8" using assms by (simp_all add: column_ok_def)
  have "t AND 0x80 \<noteq> 0" "t AND 7 = col_Charset col" "drop_bit 5 (t AND 0x60) = col_Collection col"
    unfolding t_def by (rule type_byte_fields [OF c])+
  then show ?thesis
    unfolding parses_def readColumnType_def type_bytes_def t_def [symmetric] by (auto simp: Reader_Byte_eq)
qed

lemma parses_flags: "length xs = n \<Longrightarrow> parses (\<lambda>r. parse_loop (\<lambda>_. Reader_Byte) 0 n r) xs xs"
  using parses_loop [of "map (\<lambda>b. [b]) xs" xs "\<lambda>_. Reader_Byte" 0] by (auto simp: parses_Byte)

lemma boolByte_eq_1 [simp]: "boolByte b = 1 \<longleftrightarrow> b"
  by (simp add: boolByte_def)

lemma boolByte_eq_0 [simp]: "boolByte b = 0 \<longleftrightarrow> \<not> b"
  by (simp add: boolByte_def)

lemma parses_readColumn:
  assumes "column_ok col"
  shows "parses readColumn (column_bytes col) col"
proof -
  have s: "parses Reader_String (put_string (col_Name col)) (col_Name col)"
    "parses Reader_String (put_string (col_AttrName col)) (col_AttrName col)"
    "parses Reader_String (put_string (col_TableName col)) (col_TableName col)"
    "parses Reader_String (put_string (col_DefaultValue col)) (col_DefaultValue col)"
    using assms by (simp_all add: column_ok_def parses_String)
  have fl: "parses (\<lambda>r. parse_loop (\<lambda>_. Reader_Byte) 0 7 r) (flag_bytes col) (flag_bytes col)"
    by (rule parses_flags) (simp add: flag_bytes_def)
  show ?thesis
    unfolding readColumn_def column_bytes_def
    by (rule parses_bind [OF parses_readColumnType [OF assms]], rule parses_bind [OF parses_Int16],
        rule parses_bind [OF parses_Int32], rule parses_bind [OF s(1)], rule parses_bind [OF s(2)],
        rule parses_bind [OF s(3)], rule parses_bind [OF parses_Byte], rule parses_bind [OF s(4)],
        rule parses_map [OF fl]) (cases col, simp add: zero_column_def flag_bytes_def)
qed

subsection \<open>Responses\<close>

definition prepare_reply :: "byte \<Rightarrow> int32 \<Rightarrow> nat \<Rightarrow> column list \<Rightarrow> bytes" where
  "prepare_reply ty h n cols = put_u32 h @ put_u32 0 @ [ty] @ put_u32 (of_nat n) @ [0] @
     put_u32 (of_nat (length cols)) @ concat (map column_bytes cols)"

definition prepared :: "byte \<Rightarrow> string \<Rightarrow> int32 \<Rightarrow> nat \<Rightarrow> column list \<Rightarrow> stmt" where
  "prepared ty sql h n cols = \<lparr>st_sql = sql, st_handle = h, st_cmdType = ty, st_paramCount = n,
     st_cols = cols, st_closed = False, st_outParams = None, st_outRow = None\<rparr>"

lemma parses_columns:
  "list_all column_ok cols \<Longrightarrow>
    parses (\<lambda>r. parse_loop prepareColumn i (length cols) r) (concat (map column_bytes cols)) cols"
  by (rule parses_loop) (auto simp: prepareColumn_def [abs_def] list_all_length intro!: parses_wrap parses_readColumn)

lemma parsePrepare_reply:
  assumes "0 \<le> sint h" and "n \<le> length sql" and "n < 2147483648" and "length cols < 2147483648"
    and "list_all column_ok cols" and "ty \<noteq> cmdTypeCallSP"
  shows "\<exists>r. parsePrepare sql (NewReader (prepare_reply ty h n cols)) = Inr (prepared ty sql h n cols, r)"
proof -
  define b where "b = concat (map column_bytes cols)"
  define r where "r = NewReader (prepare_reply ty h n cols)"
  let ?r = "advance 18 r"
  have ok: "reader_ok r" "reader_ok ?r" and rem: "rem_bytes ?r = b"
    by (simp_all add: r_def b_def prepare_reply_def)
  have loop: "parse_loop prepareColumn 0 (length cols) ?r = Inr (cols, advance (length b) ?r)"
    using parsesD [OF parses_columns [OF assms(5)] ok(2), of "[]" 0] rem by (simp add: b_def)
  have guard: "int (length cols) * int minColumnWireBytes \<le> Remaining ?r"
    by (rule prepare_cols.guard_complete [OF ok(2) loop])
  have n: "sint (of_nat n :: int32) = int n" "sint (of_nat (length cols) :: int32) = int (length cols)"
    using assms(3,4) by (simp_all add: sint32_of_nat)
  have rem0: "rem_bytes r = put_u32 h @ put_u32 0 @ [ty] @ put_u32 (of_nat n) @ [0] @
     put_u32 (of_nat (length cols)) @ b"
    by (simp add: r_def prepare_reply_def b_def)
  show ?thesis
    unfolding r_def [symmetric] using assms(1,2,6) guard loop n ok(1)
    by (simp add: parsePrepare_def ReadStatus_eq Int32_eq Reader_Byte_eq rem0 prepared_def Let_def)
qed

text \<open>EXECUTE of a query: the row count, one result description, and the first rows inlined if any are sent.\<close>

definition execute_reply :: "version \<Rightarrow> nat \<Rightarrow> bytes list \<Rightarrow> bytes" where
  "execute_reply ver k bodies =
     put_u32 (of_nat (length bodies)) @ [0] @ put_u32 1 @
     ([cmdTypeSelect] @ put_u32 (of_nat (length bodies)) @ replicate 8 0 @ put_u32 0 @ put_u32 0) @
     (if ver \<ge> 2 then [0] else []) @ (if ver \<ge> 5 then put_u32 0 else []) @
     (if k = 0 \<or> bodies = [] then [] else put_u32 0 @ block_bytes ver 1 (take k bodies) (length bodies \<le> k))"

lemma parseExecute_reply:
  assumes "length bodies < 2147483648"
  shows "\<exists>r. parseExecute ver (NewReader (execute_reply ver k bodies)) = Inr (of_nat (length bodies), r) \<and> reader_ok r \<and>
    rem_bytes r = (if k = 0 \<or> bodies = [] then [] else put_u32 0 @ block_bytes ver 1 (take k bodies) (length bodies \<le> k))"
proof -
  define tail where "tail = (if k = 0 \<or> bodies = [] then [] else put_u32 0 @ block_bytes ver 1 (take k bodies) (length bodies \<le> k))"
  define r where "r = NewReader (execute_reply ver k bodies)"
  have ok: "reader_ok r" by (simp add: r_def)
  have rem: "rem_bytes r = put_u32 (of_nat (length bodies)) @ [0] @ put_u32 1 @
     ([cmdTypeSelect] @ put_u32 (of_nat (length bodies)) @ replicate 8 0 @ put_u32 0 @ put_u32 0) @
     (if ver \<ge> 2 then [0] else []) @ (if ver \<ge> 5 then put_u32 0 else []) @ tail"
    by (simp add: r_def execute_reply_def tail_def)
  have n: "0 \<le> sint (of_nat (length bodies) :: int32)" using assms by (simp add: sint32_of_nat)
  have l: "nat (sint (1 :: int32)) = Suc 0" by simp
  show ?thesis
    unfolding r_def [symmetric] tail_def [symmetric] using ok n
    by (simp add: parseExecute_def readResultInfo_def ReadStatus_eq Int32_eq Reader_Byte_eq Reader_Bytes_def Reader_take_eq
        AtLeast_def proto_versions rem l Let_def)
qed

text \<open>The iterator it yields has all rows still to come.\<close>

definition fresh_iterator :: "stmt \<Rightarrow> value list list \<Rightarrow> rows \<Rightarrow> bool" where
  "fresh_iterator s vals r \<longleftrightarrow> rs_stmt r = s \<and> rs_cols r = st_cols s \<and> \<not> rs_ownsStmt r \<and>
     cursor_ok vals (isCall s) (st_cols s) r \<and> pending vals r = vals"

lemma executeQuery_reply:
  assumes dec: "list_all2 (decodes_to tz (isCall s) (st_cols s)) bodies vals" and len: "length vals < 2147483647"
    and ok: "reader_ok r"
    and rem: "rem_bytes r = (if k = 0 \<or> bodies = [] then [] else put_u32 0 @ block_bytes ver 1 (take k bodies) (length bodies \<le> k))"
  shows "\<exists>rows. executeQuery tz ver s (of_nat (length bodies)) r = Inr (of_nat (length bodies), Some rows) \<and>
    fresh_iterator s vals rows"
proof -
  let ?r0 = "(new_rows s (of_nat (length bodies)))\<lparr>rs_nextIndex := 1\<rparr>"
  have L: "length bodies = length vals" using dec by (rule list_all2_lengthD)
  have "unat (of_nat (length bodies) :: int32) = length bodies" using len L by simp
  then have n: "sint (of_nat (length bodies) :: int32) = int (length bodies)" "(of_nat (length bodies) :: int32) = 0 \<longleftrightarrow> bodies = []"
    using len L by (simp_all only: sint32_of_nat word_unat_eq_iff) auto
  show ?thesis
  proof (cases "k = 0 \<or> bodies = []")
    case True
    then have "Remaining r = 0" using rem ok by (simp add: Remaining_eq)
    then show ?thesis
      using n L by (auto simp: executeQuery_def Let_def fresh_iterator_def new_rows_def cursor_ok_def pending_def)
  next
    case False
    let ?bs = "take k bodies" and ?vs = "take k vals"
    have ok4: "reader_ok (advance 4 r)" and rem4: "rem_bytes (advance 4 r) = block_bytes ver 1 ?bs (length bodies \<le> k)"
      and i4: "Int32 r = Inr (0, advance 4 r)" and big: "Remaining r > 4"
      using ok rem False by (simp_all add: Int32_eq Remaining_eq block_bytes_def)
    let ?r' = "?r0\<lparr>rs_tuples := ?vs, rs_nextIndex := of_nat (1 + length ?bs),
        rs_fetchedAll := if ver \<ge> 5 then length bodies \<le> k else False\<rparr>"
    have c: "consumeFetch tz ver (advance 4 r) ?r0 = (Inr (), ?r')"
      using consumeFetch_block [OF list_all2_takeI [OF dec, of k] _ _ _ ok4 rem4, of ?r0] False len L
      by (simp add: new_rows_def)
    have "unat (of_nat (1 + length ?bs) :: int32) = 1 + length ?bs"
      by (rule unat32_of_nat) (use len L in simp)
    then have "cursor_ok vals (isCall s) (st_cols s) ?r'" "pending vals ?r' = vals"
      using L by (auto simp: cursor_ok_def pending_def new_rows_def min_def split: if_splits)
    with c i4 big n False show ?thesis
      by (auto simp: executeQuery_def Let_def fresh_iterator_def new_rows_def)
  qed
qed

subsection \<open>The EXECUTE request\<close>

lemma executeRequest_layout:
  assumes "executeRequest s args ac ver = Inr w" and "length args = st_paramCount s"
  shows "\<exists>tcs. list_all2 sent_as args tcs \<and> Writer_Bytes w = request FnExecute
    ([put_u32 (st_handle s), [0], put_u32 0, put_u32 0,
      if st_cmdType s = cmdTypeCallSP then map (\<lambda>i. mode_of (registered s i) (args ! i)) [0..<st_paramCount s] else [],
      [boolByte (st_cmdType s = cmdTypeSelect)], [boolByte ac], [1], replicate 8 0] @
     (if ver \<ge> 4 then [put_u32 0] else []) @ arg_pairs tcs)"
proof -
  let ?modes = "if st_cmdType s = cmdTypeCallSP then map (\<lambda>i. mode_of (registered s i) (args ! i)) [0..<st_paramCount s] else []"
  let ?w1 = "ArgInt (ArgInt (ArgByte (ArgInt (RawByte NewWriter FnExecute) (st_handle s)) 0) 0) 0"
  define w2 where "w2 = (if st_cmdType s = cmdTypeCallSP \<and> st_paramCount s > 0 then ArgBytes ?w1 ?modes else ArgNull ?w1)"
  define w3 where "w3 = ArgBytes (ArgByte (ArgByte (ArgByte w2 (boolByte (st_cmdType s = cmdTypeSelect))) (boolByte ac)) 1) (replicate 8 0)"
  define w4 where "w4 = (if ver \<ge> 4 then ArgInt w3 0 else w3)"
  have "executeRequest s args ac ver = encodeArgs 0 w4 args"
    by (simp add: executeRequest_def paramModes_eq [OF assms(2)] w4_def w3_def w2_def AtLeast_def proto_versions Let_def)
  with assms(1) obtain tcs where tcs: "list_all2 sent_as args tcs"
    "w_buf w = w_buf w4 @ encode_args (arg_pairs tcs)"
    using encodeArgs_sent by metis
  have "w_buf w2 = FnExecute # encode_args [put_u32 (st_handle s), [0], put_u32 0, put_u32 0, ?modes]"
    by (simp add: w2_def wire_simps)
  then have "w_buf w4 = FnExecute # encode_args ([put_u32 (st_handle s), [0], put_u32 0, put_u32 0, ?modes,
      [boolByte (st_cmdType s = cmdTypeSelect)], [boolByte ac], [1], replicate 8 0] @ (if ver \<ge> 4 then [put_u32 0] else []))"
    by (simp add: w4_def w3_def wire_simps)
  with tcs show ?thesis by (intro exI [of _ tcs]) (simp add: request_def wire_simps)
qed

text \<open>The values a server reads out of the argument pairs.\<close>

fun pair_args :: "bytes list \<Rightarrow> (byte \<times> bytes) list" where
  "pair_args ([t] # x # as) = (t, x) # pair_args as"
| "pair_args _ = []"

definition bound_value :: "tzdb \<Rightarrow> byte \<times> bytes \<Rightarrow> value" where
  "bound_value tz tc = (case read_param tz (fst tc) (snd tc) of Inl _ \<Rightarrow> VNil | Inr v \<Rightarrow> v)"

definition arg_ok :: "value \<Rightarrow> bool" where
  "arg_ok a \<longleftrightarrow> scalar a \<and> bindable a \<and> length (scalar_content a) < 2 ^ 32"

lemma pair_args_pairs: "pair_args (arg_pairs tcs) = tcs"
  by (induction tcs) (auto simp: arg_pairs_def)

lemma bound_value_sent: "sent_as a tc \<Longrightarrow> arg_ok a \<Longrightarrow> bound_value tz tc = decoded_as a"
  by (auto simp: sent_as_def arg_ok_def bound_value_def)

lemma bound_values_sent:
  "list_all2 sent_as args tcs \<Longrightarrow> list_all arg_ok args \<Longrightarrow> map (bound_value tz) tcs = map decoded_as args"
  by (induction args tcs rule: list_all2_induct) (simp_all add: bound_value_sent)

subsection \<open>The server\<close>

text \<open>
  A query of the database has its columns, its number of markers, and its rows for the values bound to
  them. The state of a session is the next handle and the open handles, each with its statement and,
  once executed, the values it was executed with.
\<close>

record query_def =
  q_cols :: "column list"
  q_params :: nat
  q_rows :: "value list \<Rightarrow> bytes list"

type_synonym database = "string \<Rightarrow> query_def option"

record db_state =
  db_next :: nat
  db_open :: "int32 \<Rightarrow> (string \<times> value list option) option"

definition db_refusal :: bytes where
  "db_refusal = put_u32 (-1) @ put_u32 (-1)"

definition db_prepare :: "database \<Rightarrow> db_state \<Rightarrow> bytes list \<Rightarrow> bytes \<times> db_state" where
  "db_prepare db \<sigma> as =
     (case as of
        [sqlb, flag, ac] \<Rightarrow>
          (let sql = bytes_string (butlast sqlb); h = of_nat (db_next \<sigma>) in
           case db sql of
             None \<Rightarrow> (db_refusal, \<sigma>)
           | Some q \<Rightarrow> (prepare_reply cmdTypeSelect h (q_params q) (q_cols q),
               \<sigma>\<lparr>db_next := Suc (db_next \<sigma>), db_open := (db_open \<sigma>)(h \<mapsto> (sql, None))\<rparr>))
      | _ \<Rightarrow> (db_refusal, \<sigma>))"

definition db_rows :: "database \<Rightarrow> string \<Rightarrow> value list \<Rightarrow> bytes list" where
  "db_rows db sql vs = (case db sql of None \<Rightarrow> [] | Some q \<Rightarrow> q_rows q vs)"

definition execute_args :: "version \<Rightarrow> bytes list \<Rightarrow> bytes list" where
  "execute_args ver as = drop (if ver \<ge> 4 then 10 else 9) as"

definition db_execute :: "nat \<Rightarrow> tzdb \<Rightarrow> version \<Rightarrow> database \<Rightarrow> db_state \<Rightarrow> bytes list \<Rightarrow> bytes \<times> db_state" where
  "db_execute k tz ver db \<sigma> as =
     (case as of
        [] \<Rightarrow> (db_refusal, \<sigma>)
      | hb # _ \<Rightarrow>
          (case db_open \<sigma> (get_u32 hb) of
             None \<Rightarrow> (db_refusal, \<sigma>)
           | Some (sql, _) \<Rightarrow>
               (let vs = map (bound_value tz) (pair_args (execute_args ver as))
                in (execute_reply ver k (db_rows db sql vs),
                    \<sigma>\<lparr>db_open := (db_open \<sigma>)(get_u32 hb \<mapsto> (sql, Some vs))\<rparr>))))"

definition db_fetch :: "(nat \<Rightarrow> nat) \<Rightarrow> version \<Rightarrow> database \<Rightarrow> db_state \<Rightarrow> bytes list \<Rightarrow> bytes \<times> db_state" where
  "db_fetch cap ver db \<sigma> as =
     (case as of
        [hb, ib, nb, sb, xb] \<Rightarrow>
          (case db_open \<sigma> (get_u32 hb) of
             Some (sql, Some vs) \<Rightarrow>
               (fetch_reply cap ver (db_rows db sql vs) (unat (get_u32 ib)) (unat (get_u32 nb)), \<sigma>)
           | _ \<Rightarrow> (db_refusal, \<sigma>))
      | _ \<Rightarrow> (db_refusal, \<sigma>))"

definition db_close :: "db_state \<Rightarrow> bytes list \<Rightarrow> bytes \<times> db_state" where
  "db_close \<sigma> as =
     (case as of
        [] \<Rightarrow> (db_refusal, \<sigma>)
      | hb # _ \<Rightarrow> (put_u32 0, \<sigma>\<lparr>db_open := (db_open \<sigma>)(get_u32 hb := None)\<rparr>))"

text \<open>\<open>k\<close> rows are inlined in the response to EXECUTE, \<open>cap n\<close> are sent when \<open>n\<close> are asked for.\<close>

definition db_srv :: "nat \<Rightarrow> (nat \<Rightarrow> nat) \<Rightarrow> tzdb \<Rightarrow> version \<Rightarrow> database \<Rightarrow> db_state srv" where
  "db_srv k cap tz ver db \<sigma> q =
     (case fst q of
        [] \<Rightarrow> (db_refusal, \<sigma>)
      | fn # rest \<Rightarrow>
          (case split_args rest of
             None \<Rightarrow> (db_refusal, \<sigma>)
           | Some as \<Rightarrow>
               if fn = FnPrepare then db_prepare db \<sigma> as
               else if fn = FnExecute then db_execute k tz ver db \<sigma> as
               else if fn = FnFetch then db_fetch cap ver db \<sigma> as
               else if fn = FnCloseStatement then db_close \<sigma> as
               else (db_refusal, \<sigma>)))"

lemma db_srv_request:
  assumes "\<And>a. a \<in> set as \<Longrightarrow> length a < 2 ^ 32"
  shows "db_srv k cap tz ver db \<sigma> (request fn as, ci) =
    (if fn = FnPrepare then db_prepare db \<sigma> as
     else if fn = FnExecute then db_execute k tz ver db \<sigma> as
     else if fn = FnFetch then db_fetch cap ver db \<sigma> as
     else if fn = FnCloseStatement then db_close \<sigma> as
     else (db_refusal, \<sigma>))"
  using split_args_encode [OF assms, of as] by (simp add: db_srv_def request_def)

definition opened :: "int32 \<Rightarrow> string \<Rightarrow> value list \<Rightarrow> db_state \<Rightarrow> db_state" where
  "opened h sql vs \<sigma> = \<sigma>\<lparr>db_open := (db_open \<sigma>)(h \<mapsto> (sql, Some vs))\<rparr>"

interpretation db_result: result_server "db_srv k cap tz ver db" "opened h sql vs \<sigma>" cap ver h "db_rows db sql vs"
proof
  fix i n :: int32 and ci
  let ?as = "[put_u32 h, put_u32 i, put_u32 n, [0], put_u32 0]"
  have "db_srv k cap tz ver db (opened h sql vs \<sigma>) (request FnFetch ?as, ci) = db_fetch cap ver db (opened h sql vs \<sigma>) ?as"
    by (subst db_srv_request) (auto simp: fn_codes)
  then show "db_srv k cap tz ver db (opened h sql vs \<sigma>) (fetch_req h i n, ci) =
      (fetch_reply cap ver (db_rows db sql vs) (unat i) (unat n), opened h sql vs \<sigma>)"
    by (simp add: fetch_req_def db_fetch_def opened_def)
qed

end
