(* ===== verification/Query_Facts.thy ===== *)
theory Query_Facts
  imports Database
begin

section \<open>Queries against a database\<close>

text \<open>
  What preparing, executing, iterating and closing do on a connection that serves a database: each is
  related to one step of it, and together they are a query through database/sql.
\<close>

subsection \<open>The client against the server\<close>

lemma sent_short:
  "list_all2 sent_as args tcs \<Longrightarrow> list_all arg_ok args \<Longrightarrow> a \<in> set (arg_pairs tcs) \<Longrightarrow> length a < 2 ^ 32"
  by (induction args tcs rule: list_all2_induct) (auto simp: arg_pairs_def sent_as_def arg_ok_def scalar_def dest: paramWireType_bind)

lemma encodeArgs_scalars: "list_all scalar args \<Longrightarrow> \<exists>w'. encodeArgs i w args = Inr w'"
proof (induction args arbitrary: i w)
  case (Cons a args)
  then obtain w' where "encodeArg w a = Inr w'"
    by (cases a) (auto simp: scalar_def encodeArg_def EncodeParam_def)
  with Cons show ?case by simp
qed simp

text \<open>PREPARE, EXECUTE and CLOSE on a connection to any server that answers them.\<close>

definition prepare_req :: "string \<Rightarrow> bool \<Rightarrow> bytes" where
  "prepare_req sql ac = request FnPrepare [string_bytes sql @ [0], [0], [boolByte ac]]"

definition close_req :: "int32 \<Rightarrow> bool \<Rightarrow> bytes" where
  "close_req h ac = request FnCloseStatement [put_u32 h, [boolByte ac]]"

lemma Prepare_answered:
  assumes srv: "serves srv \<sigma> c"
    and ans: "\<And>ci. srv \<sigma> (prepare_req sql (c_autoCommit c), ci) = (prepare_reply ty h n cols, \<sigma>')"
    and ok: "0 \<le> sint h" "n \<le> length sql" "n < 2147483648" "length cols < 2147483648" "list_all column_ok cols" "ty \<noteq> cmdTypeCallSP"
  obtains c' where "Prepare ctx sql c = (Inr (prepared ty sql h n cols), c')" and "serves srv \<sigma>' c'"
    and "same_session c c'" and "c_autoCommit c' = c_autoCommit c"
proof -
  define req where "req = Writer_Bytes (ArgByte (ArgByte (ArgString (RawByte NewWriter FnPrepare) sql) 0) (boolByte (c_autoCommit c)))"
  have eq: "req = prepare_req sql (c_autoCommit c)" by (simp add: req_def prepare_req_def request_def wire_simps)
  obtain c' where rt: "roundTrip ctx req c = (Inr (NewReader (prepare_reply ty h n cols)), c')"
    and c': "serves srv \<sigma>' c'" "same_session c c'" "c_autoCommit c' = c_autoCommit c"
    by (rule serves_roundTrip [OF srv, of ctx req]) (auto simp: eq ans)
  obtain r where "parsePrepare sql (NewReader (prepare_reply ty h n cols)) = Inr (prepared ty sql h n cols, r)"
    using parsePrepare_reply [OF ok] by blast
  then have "Prepare ctx sql c = (Inr (prepared ty sql h n cols), c')"
    using rt by (simp add: Prepare_def prepare_def bindC_def returnC_def Let_def flip: req_def)
  then show ?thesis using that c' by blast
qed

lemma status_only_ok: "status_only (NewReader (put_u32 0)) = Inr ()"
  by (simp add: status_only_def ReadStatus_eq Let_def)

lemma Stmt_Close_answered:
  assumes srv: "serves srv \<sigma> c" and "\<not> st_closed s"
    and ans: "\<And>ci. srv \<sigma> (close_req (st_handle s) (c_autoCommit c), ci) = (put_u32 0, \<sigma>')"
  obtains s' c' where "Stmt_Close ctx s c = (Inr (), s', c')" and "serves srv \<sigma>' c'"
    and "same_session c c'" and "c_autoCommit c' = c_autoCommit c"
proof -
  define req where "req = Writer_Bytes (ArgByte (ArgInt (RawByte NewWriter FnCloseStatement) (st_handle s)) (boolByte (c_autoCommit c)))"
  have eq: "req = close_req (st_handle s) (c_autoCommit c)" by (simp add: req_def close_req_def request_def wire_simps)
  obtain c' where rt: "roundTrip ctx req c = (Inr (NewReader (put_u32 0)), c')"
    and c': "serves srv \<sigma>' c'" "same_session c c'" "c_autoCommit c' = c_autoCommit c"
    by (rule serves_roundTrip [OF srv, of ctx req]) (auto simp: eq ans)
  have "Stmt_Close ctx s c = (Inr (), s\<lparr>st_closed := True\<rparr>, c')"
    using rt assms(2) by (simp add: Stmt_Close_def bindC_def returnC_def Let_def status_only_ok flip: req_def)
  then show ?thesis using that c' by blast
qed

definition execute_req :: "version \<Rightarrow> int32 \<Rightarrow> bool \<Rightarrow> bool \<Rightarrow> (byte \<times> bytes) list \<Rightarrow> bytes" where
  "execute_req ver h query ac tcs = request FnExecute
     ([put_u32 h, [0], put_u32 0, put_u32 0, [], [boolByte query], [boolByte ac], [1], replicate 8 0] @
      (if ver \<ge> 4 then [put_u32 0] else []) @ arg_pairs tcs)"

lemma executeRequest_sent:
  assumes args: "list_all arg_ok args" "length args = n" and ty: "ty \<noteq> cmdTypeCallSP"
  obtains w tcs where "executeRequest (prepared ty sql h n cols) args ac ver = Inr w"
    and "list_all2 sent_as args tcs" and "Writer_Bytes w = execute_req ver h (ty = cmdTypeSelect) ac tcs"
proof -
  let ?s = "prepared ty sql h n cols"
  have "list_all scalar args" using args(1) by (simp add: list_all_iff arg_ok_def)
  then have "\<exists>w. executeRequest ?s args ac ver = Inr w"
    using ty by (simp add: executeRequest_def prepared_def Let_def encodeArgs_scalars)
  then obtain w where w: "executeRequest ?s args ac ver = Inr w" ..
  have "length args = st_paramCount ?s" using args(2) by (simp add: prepared_def)
  from executeRequest_layout [OF w this] that [OF w] show ?thesis
    using ty by (auto simp: prepared_def execute_req_def)
qed

text \<open>The database.\<close>

definition query_ok :: "string \<Rightarrow> query_def \<Rightarrow> bool" where
  "query_ok sql q \<longleftrightarrow> q_params q \<le> length sql \<and> length sql < 2147483648 \<and> length (q_cols q) < 2147483648 \<and>
     list_all column_ok (q_cols q)"

definition handed_out :: "string \<Rightarrow> db_state \<Rightarrow> db_state" where
  "handed_out sql \<sigma> = \<sigma>\<lparr>db_next := Suc (db_next \<sigma>), db_open := (db_open \<sigma>)(of_nat (db_next \<sigma>) \<mapsto> (sql, None))\<rparr>"

lemma Prepare_db:
  assumes srv: "serves (db_srv k cap tz ver db) \<sigma> c" and q: "db sql = Some q" "query_ok sql q" and h: "db_next \<sigma> < 2147483648"
  obtains c' where "Prepare ctx sql c = (Inr (prepared cmdTypeSelect sql (of_nat (db_next \<sigma>)) (q_params q) (q_cols q)), c')"
    and "serves (db_srv k cap tz ver db) (handed_out sql \<sigma>) c'"
    and "same_session c c'" and "c_autoCommit c' = c_autoCommit c"
proof (rule Prepare_answered [OF srv, of sql cmdTypeSelect "of_nat (db_next \<sigma>)" "q_params q" "q_cols q" "handed_out sql \<sigma>" ctx])
  let ?as = "[string_bytes sql @ [0], [0], [boolByte (c_autoCommit c)]]"
  have "db_srv k cap tz ver db \<sigma> (request FnPrepare ?as, ci) = db_prepare db \<sigma> ?as" for ci
    using q(2) by (subst db_srv_request) (auto simp: query_ok_def)
  then show "db_srv k cap tz ver db \<sigma> (prepare_req sql (c_autoCommit c), ci) =
      (prepare_reply cmdTypeSelect (of_nat (db_next \<sigma>)) (q_params q) (q_cols q), handed_out sql \<sigma>)" for ci
    using q(1) by (simp add: prepare_req_def db_prepare_def handed_out_def Let_def)
qed (use q(2) h that in \<open>auto simp: query_ok_def cmd_types\<close>)

lemma db_execute_sent:
  assumes "list_all2 sent_as args tcs" and "list_all arg_ok args" and "db_open \<sigma> h = Some (sql, x)"
  shows "db_srv k cap tz ver db \<sigma> (execute_req ver h query ac tcs, ci) =
    (execute_reply ver k (db_rows db sql (map decoded_as args)), opened h sql (map decoded_as args) \<sigma>)"
proof -
  let ?as = "[put_u32 h, [0], put_u32 0, put_u32 0, [], [boolByte query], [boolByte ac], [1], replicate 8 0] @
      (if ver \<ge> 4 then [put_u32 0] else []) @ arg_pairs tcs"
  have "db_srv k cap tz ver db \<sigma> (request FnExecute ?as, ci) = db_execute k tz ver db \<sigma> ?as"
    using sent_short [OF assms(1,2)] by (subst db_srv_request) (auto simp: fn_codes split: if_splits)
  moreover have "execute_args ver ?as = arg_pairs tcs" by (simp add: execute_args_def)
  moreover have "?as = put_u32 h # tl ?as" by simp
  ultimately show ?thesis
    using assms(3) by (simp add: execute_req_def db_execute_def opened_def pair_args_pairs bound_values_sent [OF assms(1,2)] Let_def)
qed

lemma Stmt_Query_db:
  assumes srv: "serves (db_srv k cap tz (c_version c) db) \<sigma> c" and cap: "\<forall>n > 0. 0 < cap n"
    and s: "s = prepared cmdTypeSelect sql h (q_params q) (q_cols q)" "db_open \<sigma> h = Some (sql, x)"
    and args: "list_all arg_ok args" "length args = q_params q"
    and rows: "list_all2 (decodes_to tz False (q_cols q)) (db_rows db sql (map decoded_as args)) vals" "length vals < 2147483647"
    and fetch: "0 < cfg_FetchSize (c_cfg c)" "cfg_FetchSize (c_cfg c) < 2147483648"
  obtains r c' where "Stmt_Query tz ctx args s c = (Inr r, s, c')" and "fresh_iterator s vals r"
    and "reading (db_srv k cap tz (c_version c) db) (opened h sql (map decoded_as args) \<sigma>) cap tz
      (db_rows db sql (map decoded_as args)) vals r c'"
    and "same_session c c'"
proof -
  let ?ver = "c_version c" and ?vs = "map decoded_as args"
  let ?srv = "db_srv k cap tz ?ver db" and ?bodies = "db_rows db sql ?vs" and ?\<sigma> = "opened h sql ?vs \<sigma>"
  have ty: "cmdTypeSelect \<noteq> cmdTypeCallSP" by (simp add: cmd_types)
  obtain w tcs where w: "executeRequest s args (c_autoCommit c) ?ver = Inr w" and tcs: "list_all2 sent_as args tcs"
    and req: "Writer_Bytes w = execute_req ?ver h (cmdTypeSelect = cmdTypeSelect) (c_autoCommit c) tcs"
    unfolding s(1) by (rule executeRequest_sent [OF args ty])
  have ans: "?srv \<sigma> (Writer_Bytes w, ci) = (execute_reply ?ver k ?bodies, ?\<sigma>)" for ci
    unfolding req by (rule db_execute_sent [OF tcs args(1) s(2)])
  obtain c' where rt: "roundTrip ctx (Writer_Bytes w) c = (Inr (NewReader (execute_reply ?ver k ?bodies)), c')"
    and c': "serves ?srv ?\<sigma> c'" and ses: "same_session c c'"
    by (rule serves_roundTrip [OF srv, of ctx "Writer_Bytes w"]) (auto simp: ans)
  have L: "length ?bodies < 2147483648" using rows list_all2_lengthD by fastforce
  have sel: "\<not> isCall s" "st_cols s = q_cols q" "st_cmdType s = cmdTypeSelect" "s\<lparr>st_outRow := None\<rparr> = s"
    "\<not> st_closed s" "st_paramCount s = length args" "st_handle s = h"
    using args(2) by (simp_all add: s(1) prepared_def isCall_def cmd_types)
  obtain r1 where r1: "parseExecute ?ver (NewReader (execute_reply ?ver k ?bodies)) = Inr (of_nat (length ?bodies), r1)" "reader_ok r1"
    "rem_bytes r1 = (if k = 0 \<or> ?bodies = [] then [] else put_u32 0 @ block_bytes ?ver 1 (take k ?bodies) (length ?bodies \<le> k))"
    using parseExecute_reply [OF L] by blast
  obtain r where r: "executeQuery tz ?ver s (of_nat (length ?bodies)) r1 = Inr (of_nat (length ?bodies), Some r)" "fresh_iterator s vals r"
    using executeQuery_reply [of tz s ?bodies vals r1 k ?ver] rows sel(1,2) r1(2,3) by auto
  have v: "c_version c' = ?ver" "c_cfg c' = c_cfg c" using ses by (simp_all add: same_session_def)
  have "Stmt_Query tz ctx args s c = (Inr r, s, c')"
    using w rt r1(1) r(1) sel v by (simp add: Stmt_Query_def execute_def Let_def)
  moreover have "reading ?srv ?\<sigma> cap tz ?bodies vals r c'"
    using c' cap rows fetch r(2) sel v db_result.result_server_axioms [of k cap tz ?ver db h sql ?vs \<sigma>]
    by (simp add: reading_def fresh_iterator_def)
  ultimately show ?thesis using that r(2) ses by blast
qed

lemma Stmt_Close_db:
  assumes "serves (db_srv k cap tz ver db) \<sigma> c" and "\<not> st_closed s"
  obtains s' c' where "Stmt_Close ctx s c = (Inr (), s', c')"
    and "serves (db_srv k cap tz ver db) (\<sigma>\<lparr>db_open := (db_open \<sigma>)(st_handle s := None)\<rparr>) c'"
proof (rule Stmt_Close_answered [OF assms, of "\<sigma>\<lparr>db_open := (db_open \<sigma>)(st_handle s := None)\<rparr>" ctx])
  let ?as = "[put_u32 (st_handle s), [boolByte (c_autoCommit c)]]"
  have "db_srv k cap tz ver db \<sigma> (request FnCloseStatement ?as, ci) = db_close \<sigma> ?as" for ci
    by (subst db_srv_request) (auto simp: fn_codes)
  then show "db_srv k cap tz ver db \<sigma> (close_req (st_handle s) (c_autoCommit c), ci) =
      (put_u32 0, \<sigma>\<lparr>db_open := (db_open \<sigma>)(st_handle s := None)\<rparr>)" for ci
    by (simp add: close_req_def db_close_def)
qed (use that in auto)

subsection \<open>Reading a result through database/sql\<close>

fun lob_free :: "value \<Rightarrow> bool" where
  "lob_free (VSlice vs) = list_all lob_free vs"
| "lob_free v = (case v of VLob _ \<Rightarrow> False | _ \<Rightarrow> True)"

fun widened :: "value \<Rightarrow> value" where
  "widened (VSlice vs) = VSlice (map widened vs)"
| "widened v = (case v of VInt16 n \<Rightarrow> VInt64 (scast n) | VInt32 n \<Rightarrow> VInt64 (scast n) | VFloat32 w \<Rightarrow> VFloat64 (widenFloat w) | _ \<Rightarrow> v)"

lemma toDriverValue_lob_free:
  "lob_free v \<Longrightarrow> toDriverValue ctx v c = (Inr (widened v), c)"
  "list_all lob_free vs \<Longrightarrow> toDriverValues ctx i vs c = (Inr (map widened vs), c)"
proof (induction ctx v c and ctx i vs c rule: toDriverValue_toDriverValues.induct)
  case (1 ctx v c)
  show ?case
  proof (cases "\<exists>vs. v = VSlice vs")
    case True
    then obtain vs where v: "v = VSlice vs" by blast
    with "1.IH" [OF v] "1.prems" show ?thesis by (simp add: toDriverValue.simps [of ctx "VSlice vs"] bindC_def returnC_def)
  next
    case False
    with "1.prems" show ?thesis by (cases v) (simp_all add: toDriverValue.simps [of ctx])
  qed
qed simp_all

lemma toDriverRow_lob_free: "list_all lob_free vs \<Longrightarrow> toDriverRow ctx vs c = (Inr (map widened vs), c)"
  by (induction vs arbitrary: c) (simp_all add: toDriverValue_lob_free(1) bindC_def returnC_def)

text \<open>The results of a number of calls of \<^verbatim>\<open>Next\<close>.\<close>

fun sql_Nexts :: "tzdb \<Rightarrow> nat \<Rightarrow> sql_rows \<Rightarrow> conn \<Rightarrow> (error + value list) list \<times> sql_rows \<times> conn" where
  "sql_Nexts tz 0 r c = ([], r, c)"
| "sql_Nexts tz (Suc n) r c =
     (case sql_rows_Next tz r c of
        (x, r, c) \<Rightarrow> (case sql_Nexts tz n r c of (xs, r, c) \<Rightarrow> (x # xs, r, c)))"

definition same_iterator :: "rows \<Rightarrow> rows \<Rightarrow> bool" where
  "same_iterator r r' \<longleftrightarrow> rs_stmt r' = rs_stmt r \<and> rs_ownsStmt r' = rs_ownsStmt r \<and> rs_closed r' = rs_closed r"

lemma consumeTuples_same: "same_iterator r (snd (consumeTuples tz n rd r))"
proof (induction n arbitrary: rd r)
  case (Suc n)
  show ?case
  proof (cases "Int32 rd")
    case (Inr y)
    obtain idx rd1 where y: "y = (idx, rd1)" by (cases y)
    let ?r = "r\<lparr>rs_nextIndex := idx + 1\<rparr>"
    let ?p = "bindE (Reader_Bytes rd1 8) (\<lambda>(_, rd). readCells tz (isCall (rs_stmt ?r)) (rs_cols ?r) rd)"
    show ?thesis
    proof (cases ?p)
      case p: (Inr z)
      obtain row rd2 where z: "z = (row, rd2)" by (cases z)
      show ?thesis using Suc.IH [of "?r\<lparr>rs_tuples := rs_tuples ?r @ [row]\<rparr>" rd2] Inr y p z
        by (simp add: same_iterator_def)
    qed (use Inr y in \<open>simp add: same_iterator_def\<close>)
  qed (simp add: same_iterator_def)
qed (simp add: same_iterator_def)

lemma consumeFetch_same: "same_iterator r (snd (consumeFetch tz ver rd r))"
proof (cases "Int32 rd")
  case (Inr y)
  obtain n rd1 where y: "y = (n, rd1)" by (cases y)
  obtain x r1 where t: "consumeTuples tz (nat (sint n)) rd1 r = (x, r1)" by (cases "consumeTuples tz (nat (sint n)) rd1 r")
  then have "same_iterator r r1" using consumeTuples_same [of r tz "nat (sint n)" rd1] by simp
  with Inr y t show ?thesis
    by (simp add: consumeFetch_def same_iterator_def split: sum.split prod.split)
qed (simp add: consumeFetch_def same_iterator_def)

lemma fetchNext_same: "same_iterator r (fst (snd (fetchNext tz ctx r c)))"
proof -
  obtain x c1 where rt: "roundTrip ctx (Writer_Bytes (fetchRequest r (cfg_FetchSize (c_cfg c)))) c = (x, c1)"
    by (cases "roundTrip ctx (Writer_Bytes (fetchRequest r (cfg_FetchSize (c_cfg c)))) c")
  have "same_iterator r (snd (consumeFetch tz ver rd (r\<lparr>rs_tuples := [], rs_pos := 0\<rparr>)))" for ver rd
    using consumeFetch_same [of "r\<lparr>rs_tuples := [], rs_pos := 0\<rparr>" tz ver rd] by (simp add: same_iterator_def)
  with rt show ?thesis
    by (simp add: fetchNext_def split_beta same_iterator_def split: sum.split)
qed

lemma Next_same: "same_iterator r (fst (snd (Next tz r c)))"
  using fetchNext_same [of r tz contextBackground c]
  by (auto simp: Next_def same_iterator_def split: sum.split prod.split)

lemma sql_rows_Next_row:
  assumes "Next tz (sr_nr r) c = (Inr row, nr, c')" and "list_all lob_free row"
  shows "sql_rows_Next tz r c = (Inr (map widened row), r\<lparr>sr_nr := nr\<rparr>, c')"
  using assms by (simp add: sql_rows_Next_def toDriverRow_lob_free)

lemma sql_rows_Next_end:
  assumes "Next tz (sr_nr r) c = (Inl EOF, nr, c')"
  shows "sql_rows_Next tz r c = (Inl EOF, r\<lparr>sr_nr := nr\<rparr>, c')"
  using assms by (simp add: sql_rows_Next_def)

text \<open>Calls of \<^verbatim>\<open>Next\<close> yield the pending rows, widened, and then the end for ever.\<close>

lemma sql_Nexts_pending:
  assumes "reading srv \<sigma> cap tz bodies vals (sr_nr r) c" and "list_all (list_all lob_free) (pending vals (sr_nr r))"
    and "n = length (pending vals (sr_nr r)) + m"
  shows "\<exists>nr c'. sql_Nexts tz n r c =
      (map (Inr \<circ> map widened) (pending vals (sr_nr r)) @ replicate m (Inl EOF), r\<lparr>sr_nr := nr\<rparr>, c') \<and>
    reading srv \<sigma> cap tz bodies vals nr c' \<and> same_iterator (sr_nr r) nr"
  using assms
proof (induction n arbitrary: r c m)
  case 0
  then show ?case by (intro exI [of _ "sr_nr r"] exI [of _ c]) (simp add: same_iterator_def)
next
  case (Suc n)
  let ?vs = "pending vals (sr_nr r)"
  from Next_uncons [OF Suc.prems(1)] obtain nr c1 where rd: "reading srv \<sigma> cap tz bodies vals nr c1"
    and step: "case ?vs of [] \<Rightarrow> Next tz (sr_nr r) c = (Inl EOF, nr, c1) \<and> pending vals nr = []
      | v # vs \<Rightarrow> Next tz (sr_nr r) c = (Inr v, nr, c1) \<and> pending vals nr = vs" by blast
  have same: "same_iterator (sr_nr r) nr"
    using step Next_same [of "sr_nr r" tz c] by (auto split: list.splits)
  let ?r = "r\<lparr>sr_nr := nr\<rparr>"
  let ?m = "if ?vs = [] then n else m"
  have n: "n = length (pending vals (sr_nr ?r)) + ?m" and lf: "list_all (list_all lob_free) (pending vals (sr_nr ?r))"
    using step Suc.prems(2,3) by (auto split: list.splits)
  from Suc.IH [of ?r c1 ?m] rd lf n obtain nr' c' where
    rest: "sql_Nexts tz n ?r c1 = (map (Inr \<circ> map widened) (pending vals nr) @ replicate ?m (Inl EOF), r\<lparr>sr_nr := nr'\<rparr>, c')"
    "reading srv \<sigma> cap tz bodies vals nr' c'" "same_iterator nr nr'" by auto
  have "sql_Nexts tz (Suc n) r c = (map (Inr \<circ> map widened) ?vs @ replicate m (Inl EOF), r\<lparr>sr_nr := nr'\<rparr>, c')"
  proof (cases ?vs)
    case Nil
    then have "m = Suc n" using Suc.prems(3) by simp
    then show ?thesis using Nil step rest(1) sql_rows_Next_end [of tz r c nr c1] by simp
  next
    case (Cons v vs)
    then show ?thesis using step rest(1) Suc.prems(2) sql_rows_Next_row [of tz r c v nr c1] by simp
  qed
  with rest same show ?case by (auto simp: same_iterator_def)
qed

text \<open>Handles are handed out once.\<close>

definition db_ok :: "db_state \<Rightarrow> bool" where
  "db_ok \<sigma> \<longleftrightarrow> db_next \<sigma> < 2147483648 \<and> (\<forall>h. db_open \<sigma> h \<noteq> None \<longrightarrow> unat h < db_next \<sigma>)"

lemma db_ok_fresh: "db_ok \<sigma> \<Longrightarrow> db_open \<sigma> (of_nat (db_next \<sigma>)) = None"
proof (rule ccontr)
  assume ok: "db_ok \<sigma>" and some: "db_open \<sigma> (of_nat (db_next \<sigma>)) \<noteq> None"
  then have "unat (of_nat (db_next \<sigma>) :: int32) < db_next \<sigma>" unfolding db_ok_def by blast
  moreover have "unat (of_nat (db_next \<sigma>) :: int32) = db_next \<sigma>" using ok by (simp add: db_ok_def)
  ultimately show False by simp
qed

lemma sql_Query_db:
  assumes srv: "serves (db_srv k cap tz (c_version c) db) \<sigma> c" and cap: "\<forall>n > 0. 0 < cap n" and ok: "db_ok \<sigma>"
    and q: "db sql = Some q" "query_ok sql q"
    and args: "bindArgs nvs = Inr args" "list_all arg_ok args" "length args = q_params q"
    and rows: "list_all2 (decodes_to tz False (q_cols q)) (q_rows q (map decoded_as args)) vals" "length vals < 2147483647"
    and fetch: "0 < cfg_FetchSize (c_cfg c)" "cfg_FetchSize (c_cfg c) < 2147483648"
  obtains nr c' where "sql_Query tz ctx sql nvs c = (Inr \<lparr>sr_ctx = ctx, sr_nr = nr, sr_cols = q_cols q,
        sr_ownedStmt = Some (prepared cmdTypeSelect sql (of_nat (db_next \<sigma>)) (q_params q) (q_cols q))\<rparr>, c')"
    and "fresh_iterator (prepared cmdTypeSelect sql (of_nat (db_next \<sigma>)) (q_params q) (q_cols q)) vals nr"
    and "reading (db_srv k cap tz (c_version c) db)
      (opened (of_nat (db_next \<sigma>)) sql (map decoded_as args) (handed_out sql \<sigma>)) cap tz (q_rows q (map decoded_as args)) vals nr c'"
proof -
  let ?h = "of_nat (db_next \<sigma>) :: int32"
  let ?s = "prepared cmdTypeSelect sql ?h (q_params q) (q_cols q)"
  have r: "db_rows db sql (map decoded_as args) = q_rows q (map decoded_as args)" by (simp add: db_rows_def q(1))
  have "db_next \<sigma> < 2147483648" using ok by (simp add: db_ok_def)
  then obtain c1 where p: "Prepare ctx sql c = (Inr ?s, c1)"
    and s1: "serves (db_srv k cap tz (c_version c) db) (handed_out sql \<sigma>) c1" and ses: "same_session c c1"
    by (rule Prepare_db [OF srv q, where ctx = ctx])
  have v: "c_version c1 = c_version c" "c_cfg c1 = c_cfg c" using ses by (simp_all add: same_session_def)
  have h: "db_open (handed_out sql \<sigma>) ?h = Some (sql, None)" by (simp add: handed_out_def)
  obtain nr c' where "Stmt_Query tz ctx args ?s c1 = (Inr nr, ?s, c')" "fresh_iterator ?s vals nr"
    "reading (db_srv k cap tz (c_version c) db) (opened ?h sql (map decoded_as args) (handed_out sql \<sigma>)) cap tz
      (q_rows q (map decoded_as args)) vals nr c'"
    using Stmt_Query_db [OF s1 [folded v(1)] cap refl h args(2,3), of vals, unfolded r v, OF rows fetch, where ctx = ctx] by blast
  then show ?thesis
    using p args(1) that [of nr c']
    by (simp add: sql_Query_def bindC_def mapErrC_def Rows_Columns_def fresh_iterator_def) (simp add: prepared_def)
qed

lemma sql_rows_Close_db:
  assumes "serves (db_srv k cap tz ver db) (opened h sql vs (handed_out sql \<sigma>)) c" and "db_ok \<sigma>" and "h = of_nat (db_next \<sigma>)"
    and "sr_ownedStmt r = Some s" "\<not> st_closed s" "st_handle s = h" "\<not> rs_ownsStmt (sr_nr r)" "\<not> rs_closed (sr_nr r)"
  obtains r' c' where "sql_rows_Close r c = (Inr (), r', c')"
    and "serves (db_srv k cap tz ver db) (\<sigma>\<lparr>db_next := Suc (db_next \<sigma>)\<rparr>) c'"
proof -
  let ?\<sigma> = "opened h sql vs (handed_out sql \<sigma>)"
  obtain s' c' where cl: "Stmt_Close contextBackground s c = (Inr (), s', c')"
    and c': "serves (db_srv k cap tz ver db) (?\<sigma>\<lparr>db_open := (db_open ?\<sigma>)(st_handle s := None)\<rparr>) c'"
    by (rule Stmt_Close_db [OF assms(1,5), where ctx = contextBackground])
  have "?\<sigma>\<lparr>db_open := (db_open ?\<sigma>)(st_handle s := None)\<rparr> = \<sigma>\<lparr>db_next := Suc (db_next \<sigma>)\<rparr>"
    using db_ok_fresh [OF assms(2)] by (simp add: opened_def handed_out_def assms(3,6) fun_upd_idem)
  moreover have "\<exists>r'. sql_rows_Close r c = (Inr (), r', c')"
    using assms(4,7,8) cl by (simp add: sql_rows_Close_def Rows_Close_def Let_def)
  ultimately show ?thesis using that c' by auto
qed

subsection \<open>Values that cannot be decoded\<close>

definition undecodable :: "tzdb \<Rightarrow> bool \<Rightarrow> column list \<Rightarrow> bytes \<Rightarrow> error \<Rightarrow> bool" where
  "undecodable tz call cols b e \<longleftrightarrow>
     (\<forall>r tail. reader_ok r \<longrightarrow> rem_bytes r = b @ tail \<longrightarrow> readCells tz call cols r = Inl e)"

lemma consumeTuples_add:
  "consumeTuples tz (m + n) rd r =
    (case consumeTuples tz m rd r of (Inl e, r) \<Rightarrow> (Inl e, r) | (Inr rd, r) \<Rightarrow> consumeTuples tz n rd r)"
  by (induction m arbitrary: rd r) (simp_all add: Let_def split: sum.split prod.split)

lemma tuples_bytes_append: "tuples_bytes i (a @ b) = tuples_bytes i a @ tuples_bytes (i + length a) b"
  by (induction a arbitrary: i) simp_all

text \<open>The rows before the bad one are kept, and the cursor is already past it.\<close>

lemma consumeTuples_bad:
  assumes dec: "list_all2 (decodes_to tz call cols) pre vs" and bad: "undecodable tz call cols bad e"
    and r: "isCall (rs_stmt r) = call" "rs_cols r = cols"
    and rd: "reader_ok rd" "rem_bytes rd = tuples_bytes i (pre @ bad # post) @ tail"
  shows "consumeTuples tz (length (pre @ bad # post)) rd r =
    (Inl e, r\<lparr>rs_tuples := rs_tuples r @ vs, rs_nextIndex := of_nat (i + length pre + 1)\<rparr>)"
proof -
  define r1 where "r1 = r\<lparr>rs_tuples := rs_tuples r @ vs,
      rs_nextIndex := if pre = [] then rs_nextIndex r else of_nat (i + length pre)\<rparr>"
  define rd1 where "rd1 = advance (length (tuples_bytes i pre)) rd"
  have block: "consumeTuples tz (length pre) rd r = (Inr rd1, r1)"
    unfolding r1_def rd1_def
    by (rule consumeTuples_block [OF dec r rd(1), where tail = "tuples_bytes (i + length pre) (bad # post) @ tail"])
      (simp add: rd(2) tuples_bytes_append)
  have ok: "reader_ok rd1" and rem: "rem_bytes rd1 = tuple_bytes (i + length pre) bad @ tuples_bytes (Suc (i + length pre)) post @ tail"
    using rd by (simp_all add: rd1_def tuples_bytes_append)
  have i32: "Int32 rd1 = Inr (of_nat (i + length pre), advance 4 rd1)"
    and oid: "Reader_Bytes (advance 4 rd1) 8 = Inr (replicate 8 0, advance 12 rd1)"
    using ok rem by (simp_all add: Int32_eq Reader_Bytes_def Reader_take_eq tuple_bytes_def del: of_nat_add)
  have "rem_bytes (advance 12 rd1) = bad @ tuples_bytes (Suc (i + length pre)) post @ tail" "reader_ok (advance 12 rd1)"
    using ok rem by (simp_all add: tuple_bytes_def)
  then have cells: "readCells tz call cols (advance 12 rd1) = Inl e" using bad by (simp add: undecodable_def)
  have r1: "isCall (rs_stmt r1) = call" "rs_cols r1 = cols" using r by (simp_all add: r1_def)
  have "consumeTuples tz (Suc (length post)) rd1 r1 = (Inl e, r1\<lparr>rs_nextIndex := of_nat (i + length pre) + 1\<rparr>)"
    using r1 by (simp add: i32 oid cells Let_def del: of_nat_add)
  moreover have "length (pre @ bad # post) = length pre + Suc (length post)" by simp
  ultimately show ?thesis
    unfolding \<open>length (pre @ bad # post) = _\<close> consumeTuples_add block by (simp add: r1_def)
qed

lemma fetchNext_bad:
  assumes srv: "serves srv \<sigma> c" and res: "result_server srv \<sigma> cap (c_version c) (st_handle (rs_stmt r)) (pre @ bad # post)"
    and dec: "list_all2 (decodes_to tz (isCall (rs_stmt r)) (rs_cols r)) pre vs"
    and bad: "undecodable tz (isCall (rs_stmt r)) (rs_cols r) bad e"
    and nx: "rs_nextIndex r = 1" and cap: "length pre < cap (unat (of_int (cfg_FetchSize (c_cfg c)) :: int32))"
    and len: "length (pre @ bad # post) < 2147483648"
  obtains c' where "fetchNext tz ctx r c =
      (Inl e, r\<lparr>rs_tuples := vs, rs_pos := 0, rs_nextIndex := of_nat (length pre + 2)\<rparr>, c')" and "serves srv \<sigma> c'"
proof -
  let ?n = "unat (of_int (cfg_FetchSize (c_cfg c)) :: int32)" and ?bodies = "pre @ bad # post"
  define post' where "post' = take (cap ?n - Suc (length pre)) post"
  have bs: "take (cap ?n) ?bodies = pre @ bad # post'" using cap by (simp add: post'_def take_Cons' Suc_diff_Suc)
  define req where "req = Writer_Bytes (fetchRequest r (cfg_FetchSize (c_cfg c)))"
  define b where "b = put_u32 0 @ block_bytes (c_version c) 1 (pre @ bad # post') (length ?bodies \<le> length (pre @ bad # post'))"
  have ans: "srv \<sigma> (req, ci) = (b, \<sigma>)" for ci
    unfolding req_def fetchRequest_bytes result_server.fetch_answer [OF res] fetch_reply_def Let_def nx b_def
    by (simp only: unat_1 diff_self_eq_0 drop_0 bs add_0)
  obtain c' where rt: "roundTrip ctx req c = (Inr (NewReader b), c')" and c': "serves srv \<sigma> c'" and ses: "same_session c c'"
    by (rule serves_roundTrip [OF srv, of ctx req]) (auto simp: ans)
  let ?r0 = "r\<lparr>rs_tuples := [], rs_pos := 0\<rparr>"
  have l: "length (pre @ bad # post') < 2147483648" using len by (simp add: post'_def)
  obtain bs' flag where bs': "bs' = pre @ bad # post'" and b: "b = put_u32 0 @ put_u32 (of_nat (length bs')) @ tuples_bytes 1 bs' @ flag"
    unfolding b_def block_bytes_def by blast
  have st: "ReadStatus (NewReader b) = Inr (0, advance 4 (NewReader b))" by (simp add: ReadStatus_eq Let_def b)
  have i32: "Int32 (advance 4 (NewReader b)) = Inr (of_nat (length bs'), advance 8 (NewReader b))" by (simp add: Int32_eq b)
  have tail: "rem_bytes (advance 8 (NewReader b)) = tuples_bytes 1 (pre @ bad # post') @ flag" "reader_ok (advance 8 (NewReader b))"
    unfolding bs' [symmetric] by (simp_all add: b)
  have "consumeTuples tz (length (pre @ bad # post')) (advance 8 (NewReader b)) ?r0 =
      (Inl e, ?r0\<lparr>rs_tuples := vs, rs_nextIndex := of_nat (length pre + 2)\<rparr>)"
    using consumeTuples_bad [OF dec bad, of ?r0 "advance 8 (NewReader b)" 1 post' flag] tail by (simp add: add.commute)
  then have "consumeFetch tz (c_version c) (advance 4 (NewReader b)) ?r0 =
      (Inl e, ?r0\<lparr>rs_tuples := vs, rs_nextIndex := of_nat (length pre + 2)\<rparr>)"
    using l unfolding bs' [symmetric] by (simp add: consumeFetch_def i32 del: of_nat_add)
  then have "fetchNext tz ctx r c = (Inl e, r\<lparr>rs_tuples := vs, rs_pos := 0, rs_nextIndex := of_nat (length pre + 2)\<rparr>, c')"
    using ses by (simp add: fetchNext_def rt st same_session_def flip: req_def)
  then show ?thesis using that c' by blast
qed

end
