(* ===== verification/Lob_Facts.thy ===== *)
theory Lob_Facts
  imports Lob
begin

section \<open>Facts about large objects\<close>

text \<open>
  The operations against a server that stores one object: it serves a read with at least one and at
  most the requested number of bytes while any are left, and appends at least one and at most the
  offered number. \<open>cap\<close> is how much it is willing to move at a time.
\<close>

definition cap_ok :: "(nat \<Rightarrow> nat) \<Rightarrow> bool" where
  "cap_ok cap \<longleftrightarrow> (\<forall>n. cap n \<le> n \<and> (0 < n \<longrightarrow> 0 < cap n))"

definition lob_srv :: "(nat \<Rightarrow> nat) \<Rightarrow> bytes srv" where
  "lob_srv cap content q =
     (case fst q of
        [] \<Rightarrow> ([], content)
      | fn # rest \<Rightarrow>
          (case split_args rest of
             Some [raw, ob, x] \<Rightarrow>
               (let off = unat (get_u64 ob) in
                if fn = FnReadLOB then
                  let b = take (cap (unat (get_u32 x))) (drop off content)
                  in (put_u32 (of_nat (length b)) @ b, content)
                else if fn = FnWriteLOB \<and> off = length content then
                  let d = take (cap (length x)) x
                  in (put_u32 (of_nat (length d)), content @ d)
                else (put_u32 (-1), content))
           | _ \<Rightarrow> ([], content)))"

lemma lob_srv_read:
  assumes "length raw < 2 ^ 32"
  shows "lob_srv cap content (request FnReadLOB [raw, put_u64 off, put_u32 n], ci) =
    (let b = take (cap (unat n)) (drop (unat off) content) in (put_u32 (of_nat (length b)) @ b, content))"
proof -
  have "split_args (encode_args [raw, put_u64 off, put_u32 n]) = Some [raw, put_u64 off, put_u32 n]"
    by (rule split_args_encode) (use assms in auto)
  then show ?thesis by (simp add: lob_srv_def request_def Let_def)
qed

lemma lob_srv_write:
  assumes "length raw < 2 ^ 32" and "length data < 2 ^ 32" and "unat off = length content"
  shows "lob_srv cap content (request FnWriteLOB [raw, put_u64 off, data], ci) =
    (let d = take (cap (length data)) data in (put_u32 (of_nat (length d)), content @ d))"
proof -
  have "split_args (encode_args [raw, put_u64 off, data]) = Some [raw, put_u64 off, data]"
    by (rule split_args_encode) (use assms in auto)
  then show ?thesis using assms(3) by (simp add: lob_srv_def request_def Let_def fn_codes)
qed

subsection \<open>Reading\<close>

lemma ReadLobReply_status:
  assumes "int (length b) \<le> chunk" and "chunk \<le> LobMaxChunk"
  shows "ReadLobReply chunk (NewReader (put_u32 (of_nat (length b)) @ b)) = (if b = [] then Inl EOF else Inr b)"
proof -
  have n: "length b < 2147483648" using assms by (simp add: LobMaxChunk_def)
  show ?thesis
    using assms n
    by (auto simp: ReadLobReply_def ReadStatus_eq Reader_Bytes_def Reader_take_eq Let_def)
qed

text \<open>One iteration: either the object ends here, or the buffer grows by what the server sent.\<close>

lemma unat32_of_int: "0 \<le> k \<Longrightarrow> k < 4294967296 \<Longrightarrow> unat (of_int k :: int32) = nat k"
  by (simp add: unsigned_of_int take_bit_int_eq_self)

lemma unat64_add:
  "unat (off :: int64) + n < 18446744073709551616 \<Longrightarrow> unat (off + of_nat n) = unat off + n"
  by (simp add: unat_word_ariths unsigned_of_nat take_bit_nat_eq_self)

lemma cap_le: "cap_ok cap \<Longrightarrow> length (take (cap n) b) \<le> n"
  by (simp add: cap_ok_def min.coboundedI2)

lemma ReadAt_step:
  assumes srv: "serves (lob_srv cap) content c" and cap: "cap_ok cap"
    and raw: "length (lh_raw (lob_handle l)) < 2 ^ 32"
    and p: "length p < len" and off: "unat off + length p < 18446744073709551616"
    and chunk: "chunk = min (int len - int (length p)) LobMaxChunk"
    and b: "b = take (cap (nat chunk)) (drop (unat off + length p) content)"
  obtains c' where "serves (lob_srv cap) content c'"
    and "ReadAt_loop ctx l off len p c =
      (if b = [] then ((p, Some EOF), c') else ReadAt_loop ctx l off len (p @ take (len - length p) b) c')"
proof -
  define req where "req = Writer_Bytes (ReadLobRequest NewWriter (lob_handle l) (off + of_nat (length p)) (of_int chunk))"
  have ch: "0 < chunk" "chunk \<le> LobMaxChunk" "chunk < 4294967296"
    using p by (auto simp: LobMaxChunk_def chunk)
  have ans: "lob_srv cap content (req, ci) = (put_u32 (of_nat (length b)) @ b, content)" for ci
    using lob_srv_read [OF raw, of cap content "off + of_nat (length p)" "of_int chunk" ci] ch off
    by (simp add: req_def ReadLobRequest_bytes unat32_of_int unat64_add Let_def flip: b)
  obtain c' where rt: "roundTrip ctx req c = (Inr (NewReader (fst (lob_srv cap content (req, requestCasInfo c)))), c')"
    and s': "serves (lob_srv cap) (snd (lob_srv cap content (req, requestCasInfo c))) c'"
    by (rule serves_roundTrip [OF srv, of ctx req])
  have "length b \<le> nat chunk" unfolding b by (rule cap_le [OF cap])
  then have "int (length b) \<le> chunk" using ch(1) by simp
  note rep = ReadLobReply_status [OF this ch(2)]
  have "ReadAt_loop ctx l off len p c =
      (if b = [] then ((p, Some EOF), c') else ReadAt_loop ctx l off len (p @ take (len - length p) b) c')"
    by (subst ReadAt_loop.simps)
      (simp add: p rt [unfolded ans fst_conv] rep Let_def flip: chunk req_def)
  then show ?thesis using that s' by (simp add: ans)
qed

text \<open>
  However the server splits the transfer, the buffer ends up with the bytes of the object at the
  offset, and \<^verbatim>\<open>io.EOF\<close> is reported exactly when there are too few.
\<close>

lemma window_full:
  assumes "p = take (length p) d" and "length p = len"
  shows "take len d = p" and "len \<le> length d"
proof -
  show "take len d = p" using assms by simp
  have "length (take (length p) d) = length p" using assms(1) by simp
  then show "len \<le> length d" using assms(2) by simp
qed

lemma window_end:
  assumes "p = take (length p) d" and "length d \<le> length p" and "length p < len"
  shows "take len d = p" and "\<not> len \<le> length d"
  using assms by simp_all

lemma window_grow:
  assumes "p = take (length p) d" and "b = take k (drop (length p) d)"
  shows "p @ take m b = take (length (p @ take m b)) d"
proof -
  have clip: "take n xs = take (min (length xs) n) xs" for n and xs :: "'a list"
    by (cases "length xs \<le> n") (simp_all add: min_def)
  have "take m b = take (length (take m b)) (drop (length p) d)"
    using clip [of "min m k" "drop (length p) d"] by (simp add: assms(2))
  then have "take (length p) d @ take m b = take (length p + length (take m b)) d"
    by (simp only: take_add)
  then show ?thesis unfolding length_append assms(1) [symmetric] .
qed

lemma ReadAt_loop_content:
  assumes "cap_ok cap" and "length (lh_raw (lob_handle l)) < 2 ^ 32"
    and "unat off + len < 18446744073709551616"
    and "serves (lob_srv cap) content c" and "length p \<le> len" and "p = take (length p) (drop (unat off) content)"
  shows "\<exists>c'. serves (lob_srv cap) content c' \<and> ReadAt_loop ctx l off len p c =
    ((take len (drop (unat off) content), if len \<le> length (drop (unat off) content) then None else Some EOF), c')"
  using assms(4-6)
proof (induction "len - length p" arbitrary: p c rule: less_induct)
  case less
  let ?d = "drop (unat off) content"
  show ?case
  proof (cases "length p < len")
    case False
    with less.prems(2) have l: "length p = len" by simp
    from window_full [OF less.prems(3) l] l less.prems(1) show ?thesis
      by (subst ReadAt_loop.simps) simp
  next
    case True
    define chunk where "chunk = min (int len - int (length p)) LobMaxChunk"
    define b where "b = take (cap (nat chunk)) (drop (unat off + length p) content)"
    have b': "b = take (cap (nat chunk)) (drop (length p) ?d)" by (simp add: b_def add.commute)
    from True assms(3) have "unat off + length p < 18446744073709551616" by simp
    from ReadAt_step [OF less.prems(1) assms(1,2) True this chunk_def b_def, of ctx] obtain c' where
      s': "serves (lob_srv cap) content c'" and eq: "ReadAt_loop ctx l off len p c =
        (if b = [] then ((p, Some EOF), c') else ReadAt_loop ctx l off len (p @ take (len - length p) b) c')"
      by blast
    have "0 < cap (nat chunk)"
      using True assms(1) by (simp add: cap_ok_def chunk_def LobMaxChunk_def)
    show ?thesis
    proof (cases "b = []")
      case ended: True
      with \<open>0 < cap (nat chunk)\<close> have "length ?d \<le> length p" by (simp add: b' del: drop_drop length_drop)
      note e = window_end [OF less.prems(3) this True]
      from eq ended have "ReadAt_loop ctx l off len p c = ((p, Some EOF), c')" by (simp only: if_True refl)
      with e s' show ?thesis by (intro exI [of _ c']) (simp only: if_False e(1) conj_absorb simp_thms)
    next
      case more: False
      let ?p = "p @ take (len - length p) b"
      have w: "?p = take (length ?p) ?d" by (rule window_grow [OF less.prems(3) b'])
      have m: "len - length ?p < len - length p" using fill_progress [OF True more] by simp
      have le: "length ?p \<le> len" using True by simp
      from less.hyps [OF m s' le w] eq more show ?thesis by (simp only: if_False)
    qed
  qed
qed

subsection \<open>Appending\<close>

lemma WriteLobReply_status:
  assumes "0 < n" and "int n \<le> chunk" and "chunk \<le> LobMaxChunk"
  shows "WriteLobReply chunk (NewReader (put_u32 (of_nat n))) = Inr (of_nat n)"
proof -
  have "n < 2147483648" using assms by (simp add: LobMaxChunk_def)
  with assms show ?thesis by (simp add: WriteLobReply_def ReadStatus_eq Let_def)
qed

text \<open>A handle that tracks an object of the given length.\<close>

definition tracks :: "lob \<Rightarrow> nat \<Rightarrow> bool" where
  "tracks l sz \<longleftrightarrow> lob_ok (lob_handle l) \<and> unat (lh_Size (lob_handle l)) = sz \<and>
     length (lh_raw (lob_handle l)) < 2 ^ 32"

lemma SetSize_tracks:
  assumes "tracks l sz" and "sz + k < 18446744073709551616"
  obtains h where "SetSize (lob_handle l) (lh_Size (lob_handle l) + of_nat k) = Inr h"
    and "tracks (l\<lparr>lob_handle := h\<rparr>) (sz + k)"
proof -
  let ?n = "lh_Size (lob_handle l) + of_nat k"
  from assms(1) have ok: "lob_ok (lob_handle l)" by (simp add: tracks_def)
  from SetSize_ok [OF ok, of ?n] obtain h where h: "SetSize (lob_handle l) ?n = Inr h" "lob_ok h"
    "lh_Size h = ?n" "length (lh_raw h) = length (lh_raw (lob_handle l))" by blast
  have "unat ?n = sz + k" using assms by (simp add: tracks_def unat64_add)
  with h assms(1) that show ?thesis by (simp add: tracks_def)
qed

lemma scast32_of_nat: "n < 2147483648 \<Longrightarrow> scast (of_nat n :: int32) = (of_nat n :: int64)"
  by (metis of_int_of_nat_eq of_int_sint sint32_of_nat)

lemma Append_step:
  assumes srv: "serves (lob_srv cap) content c" and cap: "cap_ok cap" and t: "tracks l (length content)"
    and n: "n < length p" and fits: "length content + (length p - n) < 18446744073709551616"
  obtains c' l' k where "0 < k" and "n + k \<le> length p" and "serves (lob_srv cap) (content @ take k (drop n p)) c'"
    and "tracks l' (length content + k)" and "lob_writable l' = lob_writable l"
    and "Append_loop ctx p n l c = Append_loop ctx p (n + k) l' c'"
proof -
  define chunk where "chunk = min (int (length p) - int n) LobMaxChunk"
  define data where "data = take (nat chunk) (drop n p)"
  define k where "k = cap (length data)"
  define req where "req = Writer_Bytes (WriteLobRequest NewWriter (lob_handle l) (lh_Size (lob_handle l)) data)"
  have ch: "0 < chunk" "chunk \<le> LobMaxChunk" "chunk \<le> int (length p) - int n"
    using n by (auto simp: chunk_def LobMaxChunk_def)
  have ld: "int (length data) = chunk" using ch by (simp add: data_def)
  have le: "k \<le> length data" and k0: "0 < k" using cap ld ch(1) by (auto simp: k_def cap_ok_def)
  have k: "0 < k" "int k \<le> chunk" "k < 2147483648" "k \<le> length data"
    using k0 le ld ch(2) by (auto simp: LobMaxChunk_def)
  have dat: "take k data = take k (drop n p)" using k(4) by (simp add: data_def)
  have ans: "lob_srv cap content (req, ci) = (put_u32 (of_nat k), content @ take k (drop n p))" for ci
    using lob_srv_write [of "lh_raw (lob_handle l)" data "lh_Size (lob_handle l)" content cap ci] t ld ch k
    by (simp add: req_def WriteLobRequest_bytes tracks_def LobMaxChunk_def Let_def dat flip: k_def)
  obtain c' where rt: "roundTrip ctx req c = (Inr (NewReader (fst (lob_srv cap content (req, requestCasInfo c)))), c')"
    and s': "serves (lob_srv cap) (snd (lob_srv cap content (req, requestCasInfo c))) c'"
    by (rule serves_roundTrip [OF srv, of ctx req])
  have fit: "length content + k < 18446744073709551616" using fits k(2) ch(3) by linarith
  obtain h where h: "SetSize (lob_handle l) (lh_Size (lob_handle l) + of_nat k) = Inr h"
    and t': "tracks (l\<lparr>lob_handle := h\<rparr>) (length content + k)"
    by (rule SetSize_tracks [OF t fit])
  have "Append_loop ctx p n l c = Append_loop ctx p (n + k) (l\<lparr>lob_handle := h\<rparr>) c'"
    by (subst Append_loop.simps)
      (simp add: n rt [unfolded ans fst_conv] WriteLobReply_status [OF k(1,2) ch(2)] scast32_of_nat k(3) h
        Let_def flip: chunk_def data_def req_def)
  moreover have "n + k \<le> length p" using k(2) ch(3) by linarith
  ultimately show ?thesis using that [of k] k(1) s' t' by (simp add: ans)
qed

lemma Append_loop_content:
  assumes "cap_ok cap" and "length base + length p < 18446744073709551616"
    and "serves (lob_srv cap) (base @ take n p) c" and "tracks l (length base + n)" and "n \<le> length p"
  shows "\<exists>l' c'. Append_loop ctx p n l c = ((length p, None), l', c') \<and>
    serves (lob_srv cap) (base @ p) c' \<and> tracks l' (length base + length p)"
  using assms(3-5)
proof (induction "length p - n" arbitrary: n l c rule: less_induct)
  case less
  show ?case
  proof (cases "n < length p")
    case False
    with less.prems show ?thesis by (subst Append_loop.simps) simp
  next
    case True
    have t: "tracks l (length (base @ take n p))" using less.prems(2) True by simp
    have f: "length (base @ take n p) + (length p - n) < 18446744073709551616" using assms(2) True by simp
    obtain c' l' k where k: "0 < k" "n + k \<le> length p"
      and s: "serves (lob_srv cap) ((base @ take n p) @ take k (drop n p)) c'"
      and t': "tracks l' (length (base @ take n p) + k)"
      and eq: "Append_loop ctx p n l c = Append_loop ctx p (n + k) l' c'"
      by (rule Append_step [OF less.prems(1) assms(1) t True f, where ctx = ctx])
    have s': "serves (lob_srv cap) (base @ take (n + k) p) c'" using s by (simp add: take_add)
    have t'': "tracks l' (length base + (n + k))" using t' True by (simp add: add.assoc)
    have "length p - (n + k) < length p - n" using k by simp
    from less.hyps [OF this s' t'' k(2)] show ?thesis by (simp only: eq)
  qed
qed

subsection \<open>Reading everything\<close>

lemma int64_of_int:
  assumes "0 \<le> k" and "k < 9223372036854775808"
  shows "sint (of_int k :: int64) = k" and "unat (of_int k :: int64) = nat k"
  using assms by (simp_all add: signed_of_int signed_take_bit_int_eq_self_iff unsigned_of_int take_bit_int_eq_self)

lemma sint64_unat: "unat (w :: int64) < 9223372036854775808 \<Longrightarrow> sint w = int (unat w)"
proof -
  assume "unat w < 9223372036854775808"
  then have "uint w < 9223372036854775808" unfolding uint_nat by linarith
  moreover have "- 9223372036854775808 \<le> uint w" using unsigned_greater_eq [of w] by (rule order_trans [rotated]) simp
  ultimately show ?thesis by (simp add: sint_uint signed_take_bit_int_eq_self_iff)
qed

lemma ReadAt_content:
  assumes "cap_ok cap" and "length (lh_raw (lob_handle l)) < 2 ^ 32" and "serves (lob_srv cap) content c"
    and "0 \<le> off" and "off + int len < 9223372036854775808"
  shows "\<exists>c'. serves (lob_srv cap) content c' \<and> ReadAt ctx l len (of_int off) c =
    ((take len (drop (nat off) content), if len \<le> length (drop (nat off) content) then None else Some EOF), c')"
proof -
  have o: "sint (of_int off :: int64) = off" "unat (of_int off :: int64) = nat off"
    using assms by (simp_all add: int64_of_int)
  have f: "unat (of_int off :: int64) + len < 18446744073709551616" using assms o(2) by simp
  from ReadAt_loop_content [OF assms(1,2) f assms(3), of "[]" ctx] o assms(4)
  show ?thesis by (simp add: ReadAt_def)
qed

lemma take_window: "take n xs @ take m (drop n xs) = take (n + m) xs"
  by (simp add: take_add)

text \<open>One iteration of \<^verbatim>\<open>ReadAll\<close>, with the buffer it reads.\<close>

lemma ReadAll_loop_step:
  assumes "off < sint (lh_Size (lob_handle l))"
    and "chunk = min (sint (lh_Size (lob_handle l)) - off) LobMaxChunk"
    and "ReadAt ctx l (nat chunk) (of_int off) c = ((buf, err), c')"
  shows "ReadAll_loop ctx l out off c =
    (if err = Some EOF \<or> (err = None \<and> buf = []) then (Inr (out @ buf), c')
     else case err of Some e \<Rightarrow> (Inl e, c')
       | None \<Rightarrow> ReadAll_loop ctx l (out @ buf) (off + int (length buf)) c')"
  by (subst ReadAll_loop.simps) (simp add: assms(1) assms(3) Let_def flip: assms(2))

lemma ReadAll_loop_content:
  assumes "cap_ok cap" and "tracks l sz" and "sz < 9223372036854775808"
    and "serves (lob_srv cap) content c" and "0 \<le> off" and "off \<le> int sz" and "out = take (nat off) content"
    and "nat off \<le> length content"
  shows "\<exists>c'. ReadAll_loop ctx l out off c = (Inr (take sz content), c') \<and> serves (lob_srv cap) content c'"
  using assms(4-8)
proof (induction "nat (int sz - off)" arbitrary: out off c rule: less_induct)
  case less
  have size: "sint (lh_Size (lob_handle l)) = int sz" and raw: "length (lh_raw (lob_handle l)) < 2 ^ 32"
    using assms(2,3) sint64_unat [of "lh_Size (lob_handle l)"] by (auto simp: tracks_def)
  show ?case
  proof (cases "off < int sz")
    case False
    with less.prems show ?thesis by (subst ReadAll_loop.simps) (auto simp: size)
  next
    case True
    define chunk where "chunk = min (int sz - off) LobMaxChunk"
    define buf where "buf = take (nat chunk) (drop (nat off) content)"
    have ch: "0 < chunk" "off + chunk \<le> int sz" using True by (auto simp: chunk_def LobMaxChunk_def)
    have f: "off + int (nat chunk) < 9223372036854775808" using ch assms(3) by simp
    from ReadAt_content [OF assms(1) raw less.prems(1,2) f, of ctx, folded buf_def] obtain c' where
      s': "serves (lob_srv cap) content c'" and ra: "ReadAt ctx l (nat chunk) (of_int off) c =
        ((buf, if nat chunk \<le> length (drop (nat off) content) then None else Some EOF), c')" by blast
    note step = ReadAll_loop_step [OF True [folded size] chunk_def [folded size] ra]
    have app: "out @ buf = take (nat (off + chunk)) content"
      using less.prems(2) ch by (simp only: less.prems(4) buf_def take_window nat_add_distrib)
    show ?thesis
    proof (cases "nat chunk \<le> length (drop (nat off) content)")
      case full: True
      have len: "int (length buf) = chunk" using full ch by (simp add: buf_def)
      then have ne: "buf \<noteq> []" using ch(1) by auto
      have eq: "ReadAll_loop ctx l out off c = ReadAll_loop ctx l (out @ buf) (off + chunk) c'"
        using full ne by (simp add: step len)
      have a: "nat (off + chunk) \<le> length content" using full ch less.prems(2) less.prems(5) by simp
      have b: "nat (int sz - (off + chunk)) < nat (int sz - off)" using ch True by simp
      have d: "0 \<le> off + chunk" using less.prems(2) ch by simp
      from less.hyps [OF b s' d ch(2) app a] show ?thesis by (simp only: eq)
    next
      case short: False
      then have "length content \<le> nat (off + chunk)" "length content \<le> sz"
        using ch less.prems(2,5) by simp_all
      then have "out @ buf = content" "take sz content = content" using app by simp_all
      with short s' show ?thesis by (simp add: step)
    qed
  qed
qed

end
