(* ===== verification/Guard.thy ===== *)
theory Guard
  imports Main
begin

section \<open>Deadlines and cancellation (cubrid/conn.go: guard)\<close>

text \<open>
  \<^verbatim>\<open>guard\<close> sets the socket deadline, registers \<^verbatim>\<open>context.AfterFunc(ctx, ...)\<close> to force it into the
  past on cancellation, and returns the function that unregisters the callback and clears the
  deadline. The callback runs in a goroutine of its own: between its start and its \<^verbatim>\<open>SetDeadline\<close>,
  \<^verbatim>\<open>stop()\<close> neither prevents nor awaits it. Operations, cancellations and callbacks interleave as an
  inductive step relation; operations are numbered in the order they begin.
\<close>

datatype deadline = Never | At int | Past

datatype callback = Armed | Started | Ran | Stopped

record guard_state =
  g_deadline :: deadline
  g_running :: bool
  g_ops :: nat
  g_cb :: "nat \<Rightarrow> callback option"
  g_cancelled :: "nat \<Rightarrow> bool"

definition guard_init :: guard_state where
  "guard_init = \<lparr>g_deadline = Never, g_running = False, g_ops = 0, g_cb = (\<lambda>_. None), g_cancelled = (\<lambda>_. False)\<rparr>"

text \<open>A callback registered on a context that is already done starts at once.\<close>

definition begin_op :: "int option \<Rightarrow> guard_state \<Rightarrow> guard_state" where
  "begin_op dl g = g\<lparr>g_deadline := (case dl of Some d \<Rightarrow> At d | None \<Rightarrow> Never), g_running := True,
     g_ops := g_ops g + 1,
     g_cb := (g_cb g)(g_ops g := Some (if g_cancelled g (g_ops g) then Started else Armed))\<rparr>"

definition cancel_op :: "nat \<Rightarrow> guard_state \<Rightarrow> guard_state" where
  "cancel_op i g = g\<lparr>g_cancelled := (g_cancelled g)(i := True),
     g_cb := (if g_cb g i = Some Armed then (g_cb g)(i := Some Started) else g_cb g)\<rparr>"

definition fire_op :: "nat \<Rightarrow> guard_state \<Rightarrow> guard_state" where
  "fire_op i g = g\<lparr>g_deadline := Past, g_cb := (g_cb g)(i := Some Ran)\<rparr>"

definition end_op :: "guard_state \<Rightarrow> guard_state" where
  "end_op g = (let i = g_ops g - 1 in
     g\<lparr>g_cb := (if g_cb g i = Some Armed then (g_cb g)(i := Some Stopped) else g_cb g),
       g_deadline := Never, g_running := False\<rparr>)"

inductive guard_step :: "guard_state \<Rightarrow> guard_state \<Rightarrow> bool" where
  begins: "\<not> g_running g \<Longrightarrow> guard_step g (begin_op dl g)"
| cancels: "guard_step g (cancel_op i g)"
| fires: "g_cb g i = Some Started \<Longrightarrow> guard_step g (fire_op i g)"
| ends: "g_running g \<Longrightarrow> guard_step g (end_op g)"

inductive guard_reach :: "guard_state \<Rightarrow> bool" where
  start: "guard_reach guard_init"
| step: "guard_reach g \<Longrightarrow> guard_step g g' \<Longrightarrow> guard_reach g'"

inductive_cases guard_stepE: "guard_step g g'"

subsection \<open>What always holds\<close>

text \<open>
  Callbacks belong to begun operations, only the current one can be armed, a started or finished
  one was cancelled, and a deadline in the past comes from a callback that ran.
\<close>

definition guard_inv :: "guard_state \<Rightarrow> bool" where
  "guard_inv g \<longleftrightarrow>
     (\<forall>i. g_cb g i \<noteq> None \<longrightarrow> i < g_ops g) \<and>
     (\<forall>i. g_cb g i = Some Armed \<longrightarrow> g_running g \<and> Suc i = g_ops g) \<and>
     (\<forall>i. g_cb g i \<in> {Some Started, Some Ran} \<longrightarrow> g_cancelled g i) \<and>
     (g_running g \<longrightarrow> 0 < g_ops g) \<and>
     (g_deadline g = Past \<longrightarrow> (\<exists>i. g_cb g i = Some Ran))"

lemma guard_inv_step: "guard_step g g' \<Longrightarrow> guard_inv g \<Longrightarrow> guard_inv g'"
proof (induction rule: guard_step.induct)
  case (begins g dl)
  then show ?case
    by (auto simp: guard_inv_def begin_op_def split: option.splits)
next
  case (cancels g i)
  then show ?case
    by (auto simp: guard_inv_def cancel_op_def) (metis callback.distinct(3) option.inject)
next
  case (fires g i)
  then show ?case by (auto simp: guard_inv_def fire_op_def)
next
  case (ends g)
  have "i = g_ops g - 1" if "g_cb g i = Some Armed" for i
  proof -
    have "Suc i = g_ops g" using that ends by (simp add: guard_inv_def)
    then show ?thesis by simp
  qed
  note last = this
  have cb: "g_cb (end_op g) i = (if i = g_ops g - 1 \<and> g_cb g i = Some Armed then Some Stopped else g_cb g i)" for i
    by (auto simp: end_op_def Let_def)
  have same: "g_ops (end_op g) = g_ops g" "g_cancelled (end_op g) = g_cancelled g"
    "g_deadline (end_op g) = Never" "\<not> g_running (end_op g)"
    by (simp_all add: end_op_def Let_def)
  have "g_cb (end_op g) i \<noteq> Some Armed" for i using last [of i] by (auto simp: cb)
  moreover have "g_cb (end_op g) i \<noteq> None \<longrightarrow> i < g_ops g" for i using ends by (simp add: cb guard_inv_def)
  moreover have "g_cb (end_op g) i \<in> {Some Started, Some Ran} \<longrightarrow> g_cancelled g i" for i
    using ends by (simp add: cb guard_inv_def)
  ultimately show ?case using same by (simp add: guard_inv_def)
qed

lemma guard_inv_reach: "guard_reach g \<Longrightarrow> guard_inv g"
proof (induction rule: guard_reach.induct)
  case start
  show ?case by (simp add: guard_inv_def guard_init_def)
next
  case (step g g')
  then show ?case using guard_inv_step by blast
qed

text \<open>
  Without a callback in flight across the end of its operation, a deadline is only ever forced
  into the past for the operation whose context was cancelled.
\<close>

inductive guard_reach_quiet :: "guard_state \<Rightarrow> bool" where
  start: "guard_reach_quiet guard_init"
| step: "guard_reach_quiet g \<Longrightarrow> guard_step g g' \<Longrightarrow>
    (\<not> g_running g' \<Longrightarrow> \<forall>i. g_cb g' i \<noteq> Some Started) \<Longrightarrow> guard_reach_quiet g'"

definition quiet_inv :: "guard_state \<Rightarrow> bool" where
  "quiet_inv g \<longleftrightarrow> guard_inv g \<and>
     (\<forall>i. g_cb g i = Some Started \<longrightarrow> g_running g \<and> Suc i = g_ops g) \<and>
     (g_deadline g = Past \<longrightarrow> g_running g \<and> g_cb g (g_ops g - 1) = Some Ran)"

lemma quiet_inv_reach: "guard_reach_quiet g \<Longrightarrow> quiet_inv g"
proof (induction rule: guard_reach_quiet.induct)
  case start
  show ?case by (simp add: quiet_inv_def guard_inv_def guard_init_def)
next
  case (step g g')
  from step.IH have inv: "guard_inv g'" using guard_inv_step step.hyps(2) by (auto simp: quiet_inv_def)
  have S: "\<And>i. g_cb g i = Some Started \<Longrightarrow> g_running g \<and> Suc i = g_ops g"
    and P: "g_deadline g = Past \<Longrightarrow> g_running g \<and> g_cb g (g_ops g - 1) = Some Ran"
    and A: "\<And>i. g_cb g i = Some Armed \<Longrightarrow> g_running g \<and> Suc i = g_ops g"
    using step.IH by (auto simp: quiet_inv_def guard_inv_def)
  from step.hyps(2) have "(\<forall>i. g_cb g' i = Some Started \<longrightarrow> g_running g' \<and> Suc i = g_ops g') \<and>
      (g_deadline g' = Past \<longrightarrow> g_running g' \<and> g_cb g' (g_ops g' - 1) = Some Ran)"
  proof (cases rule: guard_step.cases)
    case (begins dl)
    then show ?thesis using S by (auto simp: begin_op_def split: option.splits)
  next
    case (cancels i)
    then show ?thesis using S P A by (auto simp: cancel_op_def)
  next
    case (fires i)
    then have "g_ops g - 1 = i" "g_running g" using S [of i] by auto
    with fires show ?thesis using S by (auto simp: fire_op_def)
  next
    case ends
    then have "\<forall>i. g_cb g' i \<noteq> Some Started" using step.hyps(3) by (simp add: end_op_def Let_def)
    with ends show ?thesis by (simp add: end_op_def Let_def)
  qed
  with inv show ?case by (simp add: quiet_inv_def)
qed

text \<open>The race: a callback that started in one operation can run in the next.\<close>

definition raced :: guard_state where
  "raced = fire_op 0 (begin_op None (end_op (cancel_op 0 (begin_op None guard_init))))"

lemma raced_reachable: "guard_reach raced"
proof -
  let ?g1 = "begin_op None guard_init"
  let ?g2 = "cancel_op 0 ?g1"
  let ?g3 = "end_op ?g2"
  let ?g4 = "begin_op None ?g3"
  have 1: "guard_reach ?g1"
    by (rule guard_reach.step [OF guard_reach.start guard_step.begins]) (simp add: guard_init_def)
  have 2: "guard_reach ?g2" by (rule guard_reach.step [OF 1 guard_step.cancels])
  have 3: "guard_reach ?g3"
    by (rule guard_reach.step [OF 2 guard_step.ends]) (simp add: cancel_op_def begin_op_def)
  have 4: "guard_reach ?g4"
    by (rule guard_reach.step [OF 3 guard_step.begins]) (simp add: end_op_def Let_def)
  have "g_cb ?g4 0 = Some Started"
    by (simp add: begin_op_def end_op_def cancel_op_def guard_init_def Let_def)
  from guard_reach.step [OF 4 guard_step.fires [OF this]] show ?thesis by (simp add: raced_def)
qed

end
