(* ===== verification/Demo.thy ===== *)
theory Demo
  imports Query_Facts Lob_Facts Guard
begin

section \<open>Concrete connections\<close>

text \<open>
  Concrete peers and connections on which the general theorems are exercised: a connection to a
  given server, a server that echoes, a stored object that moves at most three bytes at a time,
  a result of integer rows fetched two at a time, and a database that has it for one statement.
\<close>

definition demo_cfg :: config where
  "demo_cfg = \<lparr>cfg_Host = ''db1'', cfg_Port = 33000, cfg_Database = ''demodb'', cfg_User = ''public'',
     cfg_Password = '''', cfg_FetchSize = 100, cfg_ConnectTimeout = 0, cfg_AltHosts = [], cfg_SSL = False,
     cfg_SSLVerify = False\<rparr>"

definition demo_conn :: "peer \<Rightarrow> conn" where
  "demo_conn peer =
     \<lparr>c_cfg = demo_cfg, c_host = ''db1'', c_port = 33000, c_nc = 1, c_open = True, c_peer = peer, c_sent = [],
      c_br = no_bytes, c_deadline = None, c_clock = (\<lambda>_. 0), c_version = 12, c_broker = replicate 8 0,
      c_casPid = 0, c_sessionID = replicate 20 0, c_autoCommit = True, c_bad = False, c_closed = False,
      c_frames = None\<rparr>"

lemma demo_conn_simps [simp]:
  "Valid (demo_conn peer)" "c_open (demo_conn peer)" "s_in (c_br (demo_conn peer)) = []"
  "c_peer (demo_conn peer) = peer" "c_sent (demo_conn peer) = []" "c_version (demo_conn peer) = 12"
  "c_cfg (demo_conn peer) = demo_cfg" "c_autoCommit (demo_conn peer)" "c_deadline (demo_conn peer) = None"
  "c_bad (demo_conn peer) = False" "c_closed (demo_conn peer) = False"
  by (simp_all add: demo_conn_def Valid_def no_bytes_def)

lemma demo_serves:
  "(\<And>\<sigma> q. length (fst (srv \<sigma> q)) \<le> maxPayloadSize) \<Longrightarrow> serves srv \<sigma> (demo_conn (srv_peer srv \<sigma>))"
  by (simp add: serves_def answers_srv_peer)

text \<open>A peer that closes the connection on every write, and one that refuses every write.\<close>

definition hangup_peer :: peer where
  "hangup_peer sent = Delivered [] EOF"

definition broken_peer :: peer where
  "broken_peer sent = WriteFails (NetError ''broken pipe'')"

definition echo_srv :: "nat srv" where
  "echo_srv n q = (take 64 (fst q), Suc n)"

lemma echo_serves: "serves echo_srv n (demo_conn (srv_peer echo_srv n))"
  by (rule demo_serves) (simp add: echo_srv_def maxPayloadSize_def)

text \<open>A server that answers every request with the same payload.\<close>

definition const_srv :: "bytes \<Rightarrow> unit srv" where
  "const_srv b u q = (b, ())"

definition const_conn :: "bytes \<Rightarrow> conn" where
  "const_conn b = demo_conn (srv_peer (const_srv b) ())"

lemma const_serves: "length b \<le> maxPayloadSize \<Longrightarrow> serves (const_srv b) () (const_conn b)"
  unfolding const_conn_def by (rule demo_serves) (simp add: const_srv_def)

lemma const_roundTrip:
  assumes "length b \<le> maxPayloadSize"
  obtains c' where "roundTrip ctx p (const_conn b) = (Inr (NewReader b), c')"
    and "serves (const_srv b) () c'" and "same_session (const_conn b) c'"
  by (rule serves_roundTrip [OF const_serves [OF assms], of ctx p]) (auto simp: const_srv_def)

lemma const_serves_roundTrip:
  assumes "serves (const_srv b) () c"
  obtains c' where "roundTrip ctx p c = (Inr (NewReader b), c')" and "serves (const_srv b) () c'"
    and "same_session c c'" and "c_autoCommit c' = c_autoCommit c"
  by (rule serves_roundTrip [OF assms, of ctx p]) (auto simp: const_srv_def)

lemma serves_usable: "serves srv \<sigma> c \<Longrightarrow> Valid c \<and> c_open c"
  by (simp add: serves_def)

definition cap3 :: "nat \<Rightarrow> nat" where
  "cap3 n = min n 3"

lemma cap3_ok: "cap_ok cap3"
  by (simp add: cap_ok_def cap3_def)

lemma lob_serves: "serves (lob_srv cap3) content (demo_conn (srv_peer (lob_srv cap3) content))"
proof (rule demo_serves)
  fix \<sigma> q
  have "length (take (cap3 n) b) \<le> 3" for n and b :: bytes by (simp add: cap3_def)
  then show "length (fst (lob_srv cap3 \<sigma> q)) \<le> maxPayloadSize"
    by (auto simp: lob_srv_def maxPayloadSize_def Let_def cap3_def split: list.split option.split)
qed

text \<open>Rows of one INTEGER column.\<close>

definition int_col :: column where
  "int_col = zero_column\<lparr>col_Name := ''n'', col_TypeCode := TypeInt\<rparr>"

definition int_body :: "int32 \<Rightarrow> bytes" where
  "int_body v = put_u32 4 @ put_u32 v"

definition int_rows :: "nat \<Rightarrow> rows" where
  "int_rows total_rows = \<lparr>rs_stmt = \<lparr>st_sql = ''select n from t'', st_handle = 3, st_cmdType = cmdTypeSelect,
       st_paramCount = 0, st_cols = [int_col], st_closed = False, st_outParams = None, st_outRow = None\<rparr>,
     rs_cols = [int_col], rs_tuples = [], rs_pos = 0, rs_nextIndex = 1, rs_totalRows = of_nat total_rows,
     rs_fetchedAll = False, rs_closed = False, rs_ownsStmt = False\<rparr>"

lemma int_cell: "parses (readCell tz False int_col) (int_body v) (VInt32 v)"
proof -
  have "decodeCell tz False int_col (put_u32 v) = Inr (VInt32 v)"
    using decode_announced(2) [of tz "put_u32 v"]
    by (simp add: decodeCell_def decodeType_def int_col_def zero_column_def type_codes Let_def)
  then have "parses (\<lambda>r. bindE (wrapE f a (decodeCell tz False int_col (put_u32 v))) (\<lambda>v. Inr (v, r))) [] (VInt32 v)" for f a
    by (simp add: parses_return)
  moreover have "parses (\<lambda>r. Reader_Bytes r 4) (put_u32 v) (put_u32 v)" by (rule parses_Bytes) simp
  ultimately have data: "parses (\<lambda>r. bindE (Reader_Bytes r 4) (\<lambda>(data, r). bindE (wrapE ''cubrid: column %q: %w''
      [EStr (col_Name int_col)] (decodeCell tz False int_col data)) (\<lambda>v. Inr (v, r)))) (put_u32 v @ []) (VInt32 v)"
    by (rule parses_bind [rotated])
  define q where "q sz r = (if sint sz < 0 then Inr (VNil, r)
      else bindE (Reader_Bytes r (sint sz)) (\<lambda>(data, r). bindE (wrapE ''cubrid: column %q: %w''
      [EStr (col_Name int_col)] (decodeCell tz False int_col data)) (\<lambda>v. Inr (v, r))))" for sz :: int32 and r
  have "sint (4 :: int32) = 4" by simp
  with data have body: "parses (q 4) (put_u32 v) (VInt32 v)" by (simp add: q_def [abs_def])
  have eq: "readCell tz False int_col = (\<lambda>r. bindE (Int32 r) (\<lambda>(sz, r). q sz r))"
    by (simp add: fun_eq_iff readCell_def q_def)
  show ?thesis
    unfolding eq int_body_def by (rule parses_bind [where q = q, OF parses_Int32 body])
qed

lemma int_body_decodes: "decodes_to tz False [int_col] (int_body v) [VInt32 v]"
proof -
  have "parses (\<lambda>r. bindE (readCell tz False int_col r) (\<lambda>(v, r).
      bindE (readCells tz False [] r) (\<lambda>(vs, r). Inr (v # vs, r)))) (int_body v @ []) [VInt32 v]"
    by (rule parses_bind [OF int_cell]) (simp add: parses_return)
  then show ?thesis unfolding decodes_to_def readCells.simps by simp
qed

text \<open>An iterator over a result of integers, which the server sends at most three rows at a time.\<close>

lemma length_short_tuples: "\<forall>b \<in> set bs. length b \<le> 8 \<Longrightarrow> length (tuples_bytes i bs) \<le> 20 * length bs"
proof (induction bs arbitrary: i)
  case (Cons b bs)
  from Cons.prems Cons.IH [of "Suc i"] show ?case by (simp add: tuple_bytes_def)
qed simp

lemma length_block: "\<forall>b \<in> set bs. length b \<le> 8 \<Longrightarrow> length (block_bytes ver i bs x) \<le> 5 + 20 * length bs"
  using length_short_tuples [of bs i] by (simp add: block_bytes_def)

lemma length_fetch_reply:
  assumes "\<forall>b \<in> set bodies. length b \<le> 8"
  shows "length (fetch_reply cap ver bodies i n) \<le> 9 + 20 * length bodies"
proof -
  let ?bs = "take (cap n) (drop (i - 1) bodies)"
  have "\<forall>b \<in> set ?bs. length b \<le> 8" using assms by (meson in_set_takeD in_set_dropD)
  from length_block [OF this, of ver i "length bodies \<le> i - 1 + length ?bs"]
  have "length (block_bytes ver i ?bs (length bodies \<le> i - 1 + length ?bs)) \<le> 5 + 20 * length ?bs" .
  moreover have "length ?bs \<le> length bodies" by simp
  ultimately show ?thesis unfolding fetch_reply_def Let_def by (simp del: length_take length_drop)
qed

lemma length_execute_reply:
  assumes "\<forall>b \<in> set bodies. length b \<le> 8"
  shows "length (execute_reply ver k bodies) \<le> 60 + 20 * length bodies"
proof -
  have "\<forall>b \<in> set (take k bodies). length b \<le> 8" using assms by (meson in_set_takeD)
  from length_block [OF this, of ver 1 "length bodies \<le> k"]
  have "length (block_bytes ver 1 (take k bodies) (length bodies \<le> k)) \<le> 5 + 20 * length bodies"
    by (simp add: min_def split: if_splits)
  then show ?thesis by (simp add: execute_reply_def)
qed

text \<open>
  A database of one table of integers, with a query for all of them, one for those equal to a value,
  and one whose second row is too short to be an integer.
\<close>

definition short_body :: bytes where
  "short_body = put_u32 2 @ [0, 0]"

definition int_db :: "int32 list \<Rightarrow> database" where
  "int_db ns = [''select n from t'' \<mapsto> \<lparr>q_cols = [int_col], q_params = 0, q_rows = (\<lambda>_. map int_body ns)\<rparr>,
     ''select n from t where n = ?'' \<mapsto>
       \<lparr>q_cols = [int_col], q_params = 1, q_rows = (\<lambda>vs. map int_body (filter (\<lambda>n. VInt32 n \<in> set vs) ns))\<rparr>,
     ''select n from damaged'' \<mapsto>
       \<lparr>q_cols = [int_col], q_params = 0, q_rows = (\<lambda>_. [int_body 1, short_body, int_body 3])\<rparr>]"

definition db_init :: db_state where
  "db_init = \<lparr>db_next = 3, db_open = Map.empty\<rparr>"

lemma length_int_body [simp]: "length (int_body v) = 8" "length short_body = 6"
  by (simp_all add: int_body_def short_body_def)

lemma int_db_query:
  "int_db ns sql = Some q \<Longrightarrow> q_cols q = [int_col] \<and> (\<forall>b \<in> set (q_rows q vs). length b \<le> 8) \<and> length (q_rows q vs) \<le> length ns + 3"
  by (auto simp: int_db_def split: if_splits intro: trans_le_add1)

lemma int_db_rows:
  "\<forall>b \<in> set (db_rows (int_db ns) sql vs). length b \<le> 8" "length (db_rows (int_db ns) sql vs) \<le> length ns + 3"
  using int_db_query [of ns sql _ vs] by (cases "int_db ns sql"; simp add: db_rows_def)+

lemma int_db_serves:
  assumes "length ns \<le> 100"
  shows "serves (db_srv k cap tz 12 (int_db ns)) \<sigma> (demo_conn (srv_peer (db_srv k cap tz 12 (int_db ns)) \<sigma>))"
proof (rule demo_serves)
  fix \<sigma> and q :: "bytes \<times> bytes"
  note rows = int_db_rows [of ns]
  have "length (fetch_reply cap 12 (db_rows (int_db ns) sql vs) i n) \<le> maxPayloadSize" for sql vs i n
    using length_fetch_reply [OF rows(1), of cap 12 sql vs i n] rows(2) [of sql vs] assms by (simp add: maxPayloadSize_def)
  moreover have "length (execute_reply 12 k (db_rows (int_db ns) sql vs)) \<le> maxPayloadSize" for sql vs
    using length_execute_reply [OF rows(1), of 12 k sql vs] rows(2) [of sql vs] assms by (simp add: maxPayloadSize_def)
  moreover have "length (prepare_reply ty h n [int_col]) \<le> maxPayloadSize" for ty h n
    by (simp add: prepare_reply_def column_bytes_def type_bytes_def flag_bytes_def put_string_def int_col_def zero_column_def maxPayloadSize_def)
  ultimately show "length (fst (db_srv k cap tz 12 (int_db ns) \<sigma> q)) \<le> maxPayloadSize"
    by (auto simp: db_srv_def db_prepare_def db_execute_def db_fetch_def db_close_def db_refusal_def Let_def maxPayloadSize_def
        dest: int_db_query split: list.split option.split)
qed

abbreviation int_srv :: "int32 list \<Rightarrow> db_state srv" where
  "int_srv ns \<equiv> db_srv 0 cap3 (\<lambda>_. None) 12 (int_db ns)"

abbreviation int_cursor :: db_state where
  "int_cursor \<equiv> opened 3 ''select n from t'' [] db_init"

definition int_cursor_conn :: "int32 list \<Rightarrow> conn" where
  "int_cursor_conn ns = demo_conn (srv_peer (int_srv ns) int_cursor)"

definition int_rows_of :: "int32 list \<Rightarrow> value list list" where
  "int_rows_of ns = map (\<lambda>n. [VInt32 n]) ns"

lemma int_reading:
  assumes "length ns \<le> 100"
  shows "reading (int_srv ns) int_cursor cap3 tz (map int_body ns) (int_rows_of ns) (int_rows (length ns)) (int_cursor_conn ns)"
proof -
  have "serves (int_srv ns) int_cursor (int_cursor_conn ns)"
    unfolding int_cursor_conn_def using assms by (rule int_db_serves)
  moreover have "db_rows (int_db ns) ''select n from t'' [] = map int_body ns" by (simp add: db_rows_def int_db_def)
  then have "result_server (int_srv ns) int_cursor cap3 12 3 (map int_body ns)"
    using db_result.result_server_axioms [of 0 cap3 "\<lambda>_. None" 12 "int_db ns" 3 "''select n from t''" "[]" db_init] by simp
  moreover have "list_all2 (decodes_to tz False [int_col]) (map int_body ns) (int_rows_of ns)"
    by (simp add: int_rows_of_def list_all2_conv_all_nth int_body_decodes)
  moreover have "\<not> isCall (rs_stmt (int_rows (length ns)))" "rs_cols (int_rows (length ns)) = [int_col]"
    "st_handle (rs_stmt (int_rows (length ns))) = 3"
    by (simp_all add: int_rows_def isCall_def cmdTypeSelect_def cmdTypeCall_def cmdTypeCallSP_def)
  moreover have "cursor_ok (int_rows_of ns) False [int_col] (int_rows (length ns))"
    by (simp add: cursor_ok_def int_rows_def isCall_def cmdTypeSelect_def cmdTypeCall_def cmdTypeCallSP_def)
  ultimately show ?thesis
    using assms by (simp add: reading_def int_cursor_conn_def cap3_def int_rows_of_def demo_cfg_def)
qed

lemma int_pending: "pending (int_rows_of ns) (int_rows (length ns)) = int_rows_of ns"
  by (simp add: pending_def int_rows_def)

text \<open>A query on it, up to the first row.\<close>

lemma int_query_first:
  assumes "length ns < 100"
  obtains r c1 r2 c2
  where "sql_Query (\<lambda>_. None) contextBackground ''select n from t'' [] (demo_conn (srv_peer (int_srv (n # ns)) db_init)) = (Inr r, c1)"
    and "sql_rows_Next (\<lambda>_. None) r c1 = (Inr [VInt64 (scast n)], r2, c2)"
proof -
  let ?ns = "n # ns"
  define c where "c = demo_conn (srv_peer (int_srv ?ns) db_init)"
  define q where "q = \<lparr>q_cols = [int_col], q_params = 0, q_rows = (\<lambda>_. map int_body ?ns)\<rparr>"
  have v: "c_version c = 12" "c_cfg c = demo_cfg" by (simp_all add: c_def)
  have srv: "serves (int_srv ?ns) db_init c" unfolding c_def using assms by (intro int_db_serves) simp
  have 1: "int_db ?ns ''select n from t'' = Some q" by (simp add: int_db_def q_def)
  have 2: "query_ok ''select n from t'' q" by (simp add: query_ok_def q_def column_ok_def int_col_def zero_column_def)
  have 3: "bindArgs [] = Inr []" by (simp add: bindArgs_def)
  have 4: "list_all2 (decodes_to (\<lambda>_. None) False (q_cols q)) (q_rows q (map decoded_as [])) (int_rows_of ?ns)"
    by (simp add: q_def int_rows_of_def list_all2_conv_all_nth int_body_decodes nth_Cons' del: list.map)
  have ok: "db_ok db_init" by (simp add: db_ok_def db_init_def)
  have len: "length (int_rows_of ?ns) < 2147483647" using assms by (simp add: int_rows_of_def)
  obtain nr c1 where q1: "sql_Query (\<lambda>_. None) contextBackground ''select n from t'' [] c =
      (Inr \<lparr>sr_ctx = contextBackground, sr_nr = nr, sr_cols = q_cols q, sr_ownedStmt =
        Some (prepared cmdTypeSelect ''select n from t'' (of_nat (db_next db_init)) (q_params q) (q_cols q))\<rparr>, c1)"
    and fr: "fresh_iterator (prepared cmdTypeSelect ''select n from t'' (of_nat (db_next db_init)) (q_params q) (q_cols q)) (int_rows_of ?ns) nr"
    and rd: "reading (db_srv 0 cap3 (\<lambda>_. None) (c_version c) (int_db ?ns))
      (opened (of_nat (db_next db_init)) ''select n from t'' (map decoded_as []) (handed_out ''select n from t'' db_init)) cap3 (\<lambda>_. None)
      (q_rows q (map decoded_as [])) (int_rows_of ?ns) nr c1"
    by (rule sql_Query_db [OF srv [folded v(1)] _ ok 1 2 3 _ _ 4 len, where ctx = contextBackground])
      (simp_all add: cap3_def q_def v demo_cfg_def)
  let ?r = "\<lparr>sr_ctx = contextBackground, sr_nr = nr, sr_cols = q_cols q, sr_ownedStmt =
        Some (prepared cmdTypeSelect ''select n from t'' (of_nat (db_next db_init)) (q_params q) (q_cols q))\<rparr>"
  have "pending (int_rows_of ?ns) nr = [VInt32 n] # int_rows_of ns" using fr by (simp add: fresh_iterator_def int_rows_of_def)
  with Next_uncons [OF rd] obtain nr2 c2 where "Next (\<lambda>_. None) nr c1 = (Inr [VInt32 n], nr2, c2)" by auto
  then have "sql_rows_Next (\<lambda>_. None) ?r c1 = (Inr (map widened [VInt32 n]), ?r\<lparr>sr_nr := nr2\<rparr>, c2)"
    by (intro sql_rows_Next_row) simp_all
  with q1 that show ?thesis by (simp add: c_def)
qed

end
