(* ===== verification/Client_Properties.thy ===== *)
theory Client_Properties
  imports Demo
begin

section \<open>Properties of statements, batches and large objects\<close>

text \<open>
  What the client package promises above the wire protocol: prepared statements satisfy their
  invariant whatever the server answers, requests carry the arguments they are meant to, handles are
  released, and a large object read back is the one that was written.
\<close>

subsection \<open>Prepared statements\<close>

text \<open>
  C22. Whatever a server answers to PREPARE, a statement that comes out of it satisfies the statement
  invariant: its parameter count is at most the length of its SQL text, no OUT parameter is
  registered, a stored-procedure call has one column per parameter and one for the result, and it
  is open with a non-negative handle.
\<close>

theorem prepared_statement_ok:
  assumes "prepare ctx sql flag c = (Inr s, c')"
  shows "stmt_ok s \<and> \<not> st_closed s \<and> st_sql s = sql \<and> st_outParams s = None \<and> st_outRow s = None \<and>
    0 \<le> sint (st_handle s)"
proof -
  from assms obtain r r' where "parsePrepare sql r = Inr (s, r')"
    by (auto simp: prepare_def Let_def bindC_def returnC_def bindE_Inr_iff split: prod.splits sum.splits)
  then show ?thesis by (rule parsePrepare_ok)
qed

theorem prepared_statement_ok_witness:
  "\<exists>s c'. prepare contextBackground ''call f(?)'' 0
      (const_conn (put_u32 7 @ put_u32 0 @ [126] @ put_u32 1 @ [0] @ put_u32 0)) = (Inr s, c') \<and>
    stmt_ok s \<and> length (st_cols s) = 2"
proof -
  define b where "b = put_u32 7 @ put_u32 0 @ [126] @ put_u32 1 @ [0] @ put_u32 0"
  define sql where "sql = ''call f(?)''"
  let ?s = "\<lparr>st_sql = sql, st_handle = 7, st_cmdType = 126, st_paramCount = 1, st_cols = forceWidth 2 [],
    st_closed = False, st_outParams = None, st_outRow = None\<rparr>"
  have p: "parsePrepare sql (NewReader b) = Inr (?s, advance 18 (NewReader b))"
    by (simp add: parsePrepare_def ReadStatus_eq Int32_eq Reader_Byte_eq Remaining_eq cmdTypeCallSP_def Let_def
        numeral_2_eq_2 b_def sql_def)
  define req where "req = Writer_Bytes (ArgByte (ArgByte (ArgString (RawByte NewWriter FnPrepare) sql) 0)
    (boolByte (c_autoCommit (const_conn b))))"
  obtain c' where rt: "roundTrip contextBackground req (const_conn b) = (Inr (NewReader b), c')"
    by (rule const_roundTrip [of b contextBackground req]) (auto simp: maxPayloadSize_def b_def)
  have "prepare contextBackground sql 0 (const_conn b) = (Inr ?s, c')"
    using rt by (simp add: prepare_def bindC_def returnC_def p Let_def flip: req_def)
  from this prepared_statement_ok [OF this] have "\<exists>s c'. prepare contextBackground sql 0 (const_conn b) = (Inr s, c') \<and>
      stmt_ok s \<and> length (st_cols s) = 2"
    by (intro exI [of _ ?s] exI [of _ c']) simp
  then show ?thesis unfolding b_def sql_def .
qed

text \<open>
  The responses up to the count that is guarded, and what a guard promises: \<open>front n\<close> is a response up
  to the count \<open>n\<close>, of elements of at least \<open>k\<close> bytes, and \<open>body\<close> is what reads them.
\<close>

definition prepare_front :: "int32 \<Rightarrow> int32 \<Rightarrow> byte \<Rightarrow> int32 \<Rightarrow> byte \<Rightarrow> int32 \<Rightarrow> bytes" where
  "prepare_front h cache ty pc updatable n = put_u32 h @ put_u32 cache @ [ty] @ put_u32 pc @ [updatable] @ put_u32 n"

definition schema_front :: "int32 \<Rightarrow> int32 \<Rightarrow> int32 \<Rightarrow> bytes" where
  "schema_front h tuples n = put_u32 h @ put_u32 tuples @ put_u32 n"

definition batch_body :: "version \<Rightarrow> bool \<Rightarrow> nat \<Rightarrow> reader \<Rightarrow> error + batch_result list \<times> reader" where
  "batch_body ver st n r =
     bindE (parse_loop (\<lambda>_. ParseBatchResult st) 0 n r) (\<lambda>(out, r).
       if ver \<ge> 5 then bindE (Int32 r) (\<lambda>(_, r). Inr (out, r)) else Inr (out, r))"

definition after :: "bytes \<Rightarrow> bytes \<Rightarrow> reader" where
  "after front rest = advance (length front) (NewReader (front @ rest))"

definition count_guard ::
    "(int32 \<Rightarrow> bytes) \<Rightarrow> nat \<Rightarrow> string \<Rightarrow> (nat \<Rightarrow> reader \<Rightarrow> error + 'a \<times> reader) \<Rightarrow> (reader \<Rightarrow> error + 'b \<times> reader) \<Rightarrow> ('b \<Rightarrow> 'a \<Rightarrow> bool) \<Rightarrow> bool" where
  "count_guard front k msg body parse yields \<longleftrightarrow> (\<forall>n rest.
     (sint n < 0 \<or> sint n * int k > int (length rest) \<longrightarrow>
        parse (NewReader (front n @ rest)) = Inl (Errorf msg [EInt (sint n), EInt (int (length rest))])) \<and>
     (\<forall>xs r'. 0 \<le> sint n \<longrightarrow> body (nat (sint n)) (after (front n) rest) = Inr (xs, r') \<longrightarrow>
        (\<exists>y. parse (NewReader (front n @ rest)) = Inr (y, r') \<and> yields y xs)))"

lemma after_reader: "reader_ok (after front rest)" "Remaining (after front rest) = int (length rest)"
proof -
  show ok: "reader_ok (after front rest)" by (simp add: after_def)
  have "rem_bytes (after front rest) = rest" by (simp add: after_def)
  with ok show "Remaining (after front rest) = int (length rest)" by (simp add: Remaining_eq)
qed

text \<open>A parser that is its guard followed by the body keeps the promise if the body consumes \<open>k\<close> bytes per element.\<close>

lemma count_guardI:
  assumes "\<And>n rest. parse (NewReader (front n @ rest)) =
      (if sint n < 0 \<or> sint n * int k > Remaining (after (front n) rest)
       then Inl (Errorf msg [EInt (sint n), EInt (Remaining (after (front n) rest))])
       else bindE (body (nat (sint n)) (after (front n) rest)) (\<lambda>(xs, r). Inr (build xs, r)))"
    and "\<And>m r xs r'. reader_ok r \<Longrightarrow> body m r = Inr (xs, r') \<Longrightarrow> int m * int k \<le> Remaining r"
    and "\<And>xs. yields (build xs) xs"
  shows "count_guard front k msg body parse yields"
  unfolding count_guard_def
proof (intro allI conjI impI)
  fix n rest
  show "parse (NewReader (front n @ rest)) = Inl (Errorf msg [EInt (sint n), EInt (int (length rest))])"
    if "sint n < 0 \<or> sint n * int k > int (length rest)"
    using that by (simp add: assms(1) after_reader)
  fix xs r'
  assume n: "0 \<le> sint n" and b: "body (nat (sint n)) (after (front n) rest) = Inr (xs, r')"
  have "sint n * int k \<le> Remaining (after (front n) rest)"
    using assms(2) [OF after_reader(1) b] n by simp
  then have "parse (NewReader (front n @ rest)) = Inr (build xs, r')" using n b by (simp add: assms(1))
  then show "\<exists>y. parse (NewReader (front n @ rest)) = Inr (y, r') \<and> yields y xs" using assms(3) by blast
qed

lemma prepare_guard:
  assumes "0 \<le> sint h" and "0 \<le> sint pc" and "sint pc \<le> int (length sql)"
  shows "count_guard (prepare_front h cache ty pc upd) minColumnWireBytes ''cubrid: prepare: invalid column count %d (%d bytes remaining)''
    (parse_loop prepareColumn 0) (parsePrepare sql)
    (\<lambda>s cols. st_cols s = (if ty = cmdTypeCallSP then forceWidth (nat (sint pc) + 1) cols else cols))"
proof (rule count_guardI [where build = "\<lambda>cols. \<lparr>st_sql = sql, st_handle = h, st_cmdType = ty, st_paramCount = nat (sint pc),
    st_cols = (if ty = cmdTypeCallSP then forceWidth (nat (sint pc) + 1) cols else cols), st_closed = False, st_outParams = None, st_outRow = None\<rparr>"])
  fix n rest
  have "after (prepare_front h cache ty pc upd n) rest = advance 18 (NewReader (prepare_front h cache ty pc upd n @ rest))"
    by (simp add: after_def prepare_front_def)
  then show "parsePrepare sql (NewReader (prepare_front h cache ty pc upd n @ rest)) =
      (if sint n < 0 \<or> sint n * int minColumnWireBytes > Remaining (after (prepare_front h cache ty pc upd n) rest)
       then Inl (Errorf ''cubrid: prepare: invalid column count %d (%d bytes remaining)''
         [EInt (sint n), EInt (Remaining (after (prepare_front h cache ty pc upd n) rest))])
       else bindE (parse_loop prepareColumn 0 (nat (sint n)) (after (prepare_front h cache ty pc upd n) rest))
         (\<lambda>(cols, r). Inr (\<lparr>st_sql = sql, st_handle = h, st_cmdType = ty, st_paramCount = nat (sint pc),
            st_cols = (if ty = cmdTypeCallSP then forceWidth (nat (sint pc) + 1) cols else cols), st_closed = False, st_outParams = None, st_outRow = None\<rparr>, r)))"
    using assms by (simp add: parsePrepare_def prepare_front_def ReadStatus_eq Int32_eq Reader_Byte_eq Let_def)
qed (auto intro: prepare_cols.guard_complete)

lemma schema_guard:
  assumes "0 \<le> sint h"
  shows "count_guard (schema_front h tuples) minSchemaColumnWireBytes ''cubrid: schema info: invalid column count %d (%d bytes remaining)''
    (parse_loop schemaColumn 0) parseSchemaInfo (\<lambda>rs cols. rs_cols rs = cols)"
proof (rule count_guardI [where build = "\<lambda>cols. \<lparr>rs_stmt = \<lparr>st_sql = [], st_handle = h, st_cmdType = cmdTypeSelect, st_paramCount = 0,
      st_cols = cols, st_closed = False, st_outParams = None, st_outRow = None\<rparr>, rs_cols = cols, rs_tuples = [], rs_pos = 0, rs_nextIndex = 1,
    rs_totalRows = tuples, rs_fetchedAll = (tuples = 0), rs_closed = False, rs_ownsStmt = True\<rparr>"])
  fix n rest
  have "after (schema_front h tuples n) rest = advance 12 (NewReader (schema_front h tuples n @ rest))"
    by (simp add: after_def schema_front_def)
  then show "parseSchemaInfo (NewReader (schema_front h tuples n @ rest)) =
      (if sint n < 0 \<or> sint n * int minSchemaColumnWireBytes > Remaining (after (schema_front h tuples n) rest)
       then Inl (Errorf ''cubrid: schema info: invalid column count %d (%d bytes remaining)''
         [EInt (sint n), EInt (Remaining (after (schema_front h tuples n) rest))])
       else bindE (parse_loop schemaColumn 0 (nat (sint n)) (after (schema_front h tuples n) rest))
         (\<lambda>(cols, r). Inr (\<lparr>rs_stmt = \<lparr>st_sql = [], st_handle = h, st_cmdType = cmdTypeSelect, st_paramCount = 0,
              st_cols = cols, st_closed = False, st_outParams = None, st_outRow = None\<rparr>, rs_cols = cols, rs_tuples = [], rs_pos = 0,
            rs_nextIndex = 1, rs_totalRows = tuples, rs_fetchedAll = (tuples = 0), rs_closed = False, rs_ownsStmt = True\<rparr>, r)))"
    using assms by (simp add: parseSchemaInfo_def schema_front_def ReadStatus_eq Int32_eq Let_def)
qed (auto intro: schema_cols.guard_complete)

lemma batch_guard:
  "count_guard put_u32 minBatchResultBytes ''cubrid/protocol: invalid batch result count %d (%d bytes remaining)''
    (batch_body ver st) (ParseBatchResponse ver st) (=)"
proof (rule count_guardI [where build = id])
  fix n rest
  have "after (put_u32 n) rest = advance 4 (NewReader (put_u32 n @ rest))" by (simp add: after_def)
  moreover have "bindE (batch_body ver st m r) (\<lambda>(xs, r). Inr (id xs, r)) = batch_body ver st m r" for m r
    by (cases "batch_body ver st m r") auto
  ultimately show "ParseBatchResponse ver st (NewReader (put_u32 n @ rest)) =
      (if sint n < 0 \<or> sint n * int minBatchResultBytes > Remaining (after (put_u32 n) rest)
       then Inl (Errorf ''cubrid/protocol: invalid batch result count %d (%d bytes remaining)''
         [EInt (sint n), EInt (Remaining (after (put_u32 n) rest))])
       else bindE (batch_body ver st (nat (sint n)) (after (put_u32 n) rest)) (\<lambda>(xs, r). Inr (id xs, r)))"
    by (simp add: ParseBatchResponse_def batch_body_def Int32_eq AtLeast_def proto_versions)
qed (auto simp: batch_body_def bindE_Inr_iff intro: batch_loop.guard_complete)

text \<open>
  C26. Every count that arrives unauthenticated is checked against the bytes that are there before it
  is used as a length, and the check costs no well-formed response. For PREPARE, for schema
  information and for batch results alike: a negative count, or one that could not fit in the rest of
  the response, is refused with its own error before any element is read; and whenever as many
  elements as announced can be read at all, up to an exact fit, the parser returns them (the columns
  of a stored procedure cut or padded to the width of its parameters and result).
\<close>

theorem count_guards_complete:
  assumes "0 \<le> sint h" and "0 \<le> sint pc" and "sint pc \<le> int (length sql)"
  shows "count_guard (prepare_front h cache ty pc upd) minColumnWireBytes
      ''cubrid: prepare: invalid column count %d (%d bytes remaining)'' (parse_loop prepareColumn 0) (parsePrepare sql)
      (\<lambda>s cols. st_cols s = (if ty = cmdTypeCallSP then forceWidth (nat (sint pc) + 1) cols else cols)) \<and>
    count_guard (schema_front h tuples) minSchemaColumnWireBytes
      ''cubrid: schema info: invalid column count %d (%d bytes remaining)'' (parse_loop schemaColumn 0) parseSchemaInfo (\<lambda>rs cols. rs_cols rs = cols) \<and>
    count_guard put_u32 minBatchResultBytes
      ''cubrid/protocol: invalid batch result count %d (%d bytes remaining)'' (batch_body ver st) (ParseBatchResponse ver st) (=)"
  using prepare_guard [OF assms] schema_guard [OF assms(1)] batch_guard by blast

text \<open>An exact fit is parsed, and one byte less is refused.\<close>

theorem count_guards_complete_witness:
  "(\<exists>out r'. ParseBatchResponse 4 False (NewReader (put_u32 1 @ outcome_bytes False (Inr 5))) = Inr (out, r')) \<and>
    ParseBatchResponse 4 False (NewReader (put_u32 1 @ replicate 11 0)) =
      Inl (Errorf ''cubrid/protocol: invalid batch result count %d (%d bytes remaining)'' [EInt 1, EInt 11])"
proof -
  have g: "count_guard put_u32 minBatchResultBytes
      ''cubrid/protocol: invalid batch result count %d (%d bytes remaining)'' (batch_body 4 False) (ParseBatchResponse 4 False) (=)"
    using count_guards_complete [of 0 0 "[]"] by simp
  let ?b = "outcome_bytes False (Inr 5)"
  have "parses (\<lambda>r. parse_loop (\<lambda>_. ParseBatchResult False) 0 1 r)
      (concat (map (outcome_bytes False) [Inr 5])) (map outcome_result [Inr 5])"
    by (rule parses_batch_loop) simp_all
  from parsesD [OF this, of "after (put_u32 1) ?b" "[]"]
  have "\<exists>out r'. batch_body 4 False 1 (after (put_u32 1) ?b) = Inr (out, r')"
    by (simp add: batch_body_def after_def del: outcome_bytes.simps)
  with spec2 [OF g [unfolded count_guard_def], of 1 ?b] spec2 [OF g [unfolded count_guard_def], of 1 "replicate 11 0"] show ?thesis
    by (auto simp: minBatchResultBytes_def simp del: outcome_bytes.simps)
qed

subsection \<open>OUT parameters\<close>

text \<open>
  Registering a parameter of a CALL as OUT succeeds exactly for the indices from 1 to the
  parameter count, keeps the statement invariant and adds that marker to the registered ones; it
  never indexes out of range.
\<close>

lemma register_out_param:
  assumes "stmt_ok s" and "isCall s"
  shows "case RegisterOutParam i s of
      Inl e \<Rightarrow> \<not> (1 \<le> i \<and> i \<le> int (st_paramCount s)) \<and> \<not> is_panic e
    | Inr s' \<Rightarrow> 1 \<le> i \<and> i \<le> int (st_paramCount s) \<and> stmt_ok s' \<and>
        (\<forall>j. registered s' j \<longleftrightarrow> registered s j \<or> int j = i - 1)"
proof (cases "1 \<le> i \<and> i \<le> int (st_paramCount s)")
  case True
  let ?outs = "case st_outParams s of None \<Rightarrow> replicate (st_paramCount s) False | Some bs \<Rightarrow> bs"
  let ?s = "s\<lparr>st_outParams := Some (?outs[nat (i - 1) := True])\<rparr>"
  have len: "length ?outs = st_paramCount s" using assms(1) by (auto simp: stmt_ok_def split: option.split)
  have r: "RegisterOutParam i s = Inr ?s"
    using True assms(2) len by (simp add: RegisterOutParam_def go_index_def Let_def)
  have k: "nat (i - 1) < st_paramCount s" "\<And>j. int j = i - 1 \<longleftrightarrow> j = nat (i - 1)" using True by auto
  have "registered ?s j \<longleftrightarrow> registered s j \<or> int j = i - 1" for j
    unfolding k(2) using k(1) len by (auto simp: registered_def nth_list_update split: option.splits)
  with r True RegisterOutParam_ok(2) [OF assms(1) r] show ?thesis by simp
next
  case False
  then have "i < 1 \<or> int (st_paramCount s) < i" by linarith
  then show ?thesis using assms(2) False by (simp add: RegisterOutParam_def)
qed

definition call_stmt :: stmt where
  "call_stmt = \<lparr>st_sql = ''call f(?, ?)'', st_handle = 7, st_cmdType = cmdTypeCallSP, st_paramCount = 2,
     st_cols = replicate 3 zero_column, st_closed = False, st_outParams = None, st_outRow = None\<rparr>"

lemma call_stmt_ok: "stmt_ok call_stmt" "isCall call_stmt"
  by (simp_all add: call_stmt_def stmt_ok_def isCall_def)

text \<open>
  C27. The modes sent with a stored-procedure call and the values read after it agree on the
  registered markers: an unregistered parameter is IN, a registered one is OUT when bound to NULL
  and INOUT otherwise; \<^verbatim>\<open>OutValues\<close> lists, for the registered markers in ascending order, the value
  at the marker's position of the value row, NULL where the row is too short.
\<close>

theorem out_params_agree:
  assumes "stmt_ok s" and "length args = st_paramCount s" and "st_outRow s = Some row"
  shows "paramModes s args = Inr (map (\<lambda>i. mode_of (registered s i) (args ! i)) [0..<st_paramCount s]) \<and>
    OutValues s = map (\<lambda>i. if i + 1 < length row then row ! (i + 1) else VNil)
      (filter (registered s) [0..<st_paramCount s])"
proof -
  have "OutValues s = map (\<lambda>i. if i + 1 < length row then row ! (i + 1) else VNil)
      (filter (registered s) [0..<st_paramCount s])"
  proof (cases "st_outParams s")
    case None
    then show ?thesis using assms(3) by (simp add: OutValues_def registered_def)
  next
    case (Some outs)
    then have len: "length outs = st_paramCount s" using assms(1) by (simp add: stmt_ok_def)
    have "filter (registered s) [0..<st_paramCount s] = filter (\<lambda>j. outs ! j) [0..<length outs]"
      unfolding len [symmetric] by (rule filter_cong) (simp_all add: registered_def Some)
    then show ?thesis using assms(3) Some outValuesFrom_eq [of 0 outs row] by (simp add: OutValues_def)
  qed
  with paramModes_eq [OF assms(2)] show ?thesis by blast
qed

theorem out_params_agree_witness:
  "paramModes (call_stmt\<lparr>st_outParams := Some [False, True], st_outRow := Some [VNil, VNil, VInt32 9]\<rparr>)
      [VInt32 1, VNil] = Inr [1, 2] \<and>
   OutValues (call_stmt\<lparr>st_outParams := Some [False, True], st_outRow := Some [VNil, VNil, VInt32 9]\<rparr>) = [VInt32 9]"
proof -
  let ?s = "call_stmt\<lparr>st_outParams := Some [False, True], st_outRow := Some [VNil, VNil, VInt32 9]\<rparr>"
  have ok: "stmt_ok ?s" by (simp add: stmt_ok_def call_stmt_def isCall_def)
  have "[0..<2] = [0, Suc 0]" by (simp add: upt_rec)
  then show ?thesis
    using out_params_agree [OF ok, of "[VInt32 1, VNil]" "[VNil, VNil, VInt32 9]"]
    by (simp add: call_stmt_def registered_def mode_of_def paramModeIn_def paramModeOut_def)
qed

subsection \<open>Execution\<close>

text \<open>
  C13. The EXECUTE request is what the server expects for the statement and its arguments: behind the
  function code come the handle, the flags, the parameter modes (only for stored-procedure calls),
  the fetch and autocommit flags and, from protocol 4 on, the query timeout; then exactly two
  arguments per bound value, in order. They are the type byte and the content of the value, for every
  value that can be bound, locators, decimals and collections included, and a receiver that takes a
  length of zero for NULL reads from them what the value stands for (\<open>decoded_as\<close>: a decimal as its
  text, an empty []byte as NULL), provided a time is in the range of the wire format and a locator
  well-formed (\<open>bindable\<close>).
\<close>

theorem execute_request_layout:
  assumes "executeRequest s args ac ver = Inr w" and "length args = st_paramCount s"
  shows "\<exists>tcs. list_all2 sent_as args tcs \<and> Writer_Bytes w = request FnExecute
    ([put_u32 (st_handle s), [0], put_u32 0, put_u32 0,
      if st_cmdType s = cmdTypeCallSP then map (\<lambda>i. mode_of (registered s i) (args ! i)) [0..<st_paramCount s] else [],
      [boolByte (st_cmdType s = cmdTypeSelect)], [boolByte ac], [1], replicate 8 0] @
     (if ver \<ge> 4 then [put_u32 0] else []) @ arg_pairs tcs)"
  by (rule executeRequest_layout [OF assms])

definition insert_stmt :: stmt where
  "insert_stmt = \<lparr>st_sql = ''insert into t values (?)'', st_handle = 7, st_cmdType = cmdTypeInsert, st_paramCount = 1,
     st_cols = [], st_closed = False, st_outParams = None, st_outRow = None\<rparr>"

theorem execute_request_layout_witness:
  "\<exists>w. executeRequest insert_stmt [VNumeric ''1.50''] True 12 = Inr w \<and>
    Writer_Bytes w = request FnExecute
      [put_u32 7, [0], put_u32 0, put_u32 0, [], [0], [1], [1], replicate 8 0, put_u32 0, [TypeVarchar], string_bytes ''1.50'' @ [0]] \<and>
    read_param (\<lambda>_. None) TypeVarchar (string_bytes ''1.50'' @ [0]) = Inr (VString ''1.50'')"
proof -
  obtain w where w: "executeRequest insert_stmt [VNumeric ''1.50''] True 12 = Inr w"
    by (simp add: executeRequest_def insert_stmt_def cmd_types encodeArg_def EncodeParam_def Let_def)
  have "trimNul (string_bytes ''1.50'') = string_bytes ''1.50''" by code_simp
  then have t: "bytes_string (trimNul (string_bytes ''1.50'')) = ''1.50''" by (simp only: bytes_string_of_string_bytes)
  from execute_request_layout [OF w] obtain tcs where tcs: "list_all2 sent_as [VNumeric ''1.50''] tcs"
    and b: "Writer_Bytes w = request FnExecute
      ([put_u32 7, [0], put_u32 0, put_u32 0, [], [0], [1], [1], replicate 8 0, put_u32 0] @ arg_pairs tcs)"
    by (auto simp: insert_stmt_def cmd_types boolByte_def)
  from tcs have "tcs = [(TypeVarchar, string_bytes ''1.50'' @ [0])]"
    and "read_param (\<lambda>_. None) TypeVarchar (string_bytes ''1.50'' @ [0]) = Inr (VString ''1.50'')"
    by (auto simp: list_all2_Cons1 sent_as_def t)
  with w b show ?thesis by (simp add: arg_pairs_def)
qed

text \<open>
  C33. A row that cannot be decoded is lost. When such a row arrives in a batch, \<^verbatim>\<open>Next\<close> reports the
  error before the rows that precede it in the batch, which only later calls return; and because the
  cursor index is advanced before the row is decoded, the next FETCH asks for the rows after it, so
  no further call returns the row or reports it again.
\<close>

theorem undecodable_row_skipped:
  assumes srv: "serves srv \<sigma> c" and res: "result_server srv \<sigma> cap (c_version c) (st_handle (rs_stmt r)) (pre @ bad # post)"
    and dec: "list_all2 (decodes_to tz (isCall (rs_stmt r)) (rs_cols r)) pre vs"
    and bad: "undecodable tz (isCall (rs_stmt r)) (rs_cols r) bad e"
    and fresh: "rs_nextIndex r = 1" "rs_tuples r = []" "\<not> rs_fetchedAll r" "\<not> rs_closed r"
    and cap: "length pre < cap (unat (of_int (cfg_FetchSize (c_cfg c)) :: int32))"
    and len: "length (pre @ bad # post) < 2147483648"
  shows "\<exists>r' c'. Next tz r c = (Inl e, r', c') \<and> serves srv \<sigma> c' \<and> \<not> rs_closed r' \<and> drop (rs_pos r') (rs_tuples r') = vs \<and>
    (\<forall>n ci. \<exists>complete. srv \<sigma> (Writer_Bytes (fetchRequest r' n), ci) =
      (put_u32 0 @ block_bytes (c_version c) (length pre + 2) (take (cap (unat (of_int n :: int32))) post) complete, \<sigma>))"
proof -
  let ?r = "r\<lparr>rs_tuples := vs, rs_pos := 0, rs_nextIndex := of_nat (length pre + 2)\<rparr>"
  obtain c' where f: "fetchNext tz contextBackground r c = (Inl e, ?r, c')" and c': "serves srv \<sigma> c'"
    by (rule fetchNext_bad [OF srv res dec bad fresh(1) cap len, where ctx = contextBackground])
  have "unat (of_nat (length pre + 2) :: int32) = length pre + 2" using len by (intro unat32_of_nat) simp
  moreover have "drop (length pre + 2 - 1) (pre @ bad # post) = post" by simp
  ultimately have fetch: "\<exists>complete. srv \<sigma> (Writer_Bytes (fetchRequest ?r n), ci) =
      (put_u32 0 @ block_bytes (c_version c) (length pre + 2) (take (cap (unat (of_int n :: int32))) post) complete, \<sigma>)" for n ci
    using result_server.fetch_answer [OF res, of "of_nat (length pre + 2)" "of_int n" ci]
    by (auto simp: fetchRequest_bytes fetch_reply_def Let_def)
  show ?thesis
    using f c' fresh fetch by (intro exI [of _ ?r] exI [of _ c']) (simp add: Next_def)
qed

lemma short_undecodable:
  "undecodable tz False [int_col] short_body (Wrapf ''cubrid: column %q: %w'' [EStr ''n''] ErrShortBuffer)"
proof -
  have "decodeCell tz False int_col [0, 0] = Inl ErrShortBuffer"
    using decode_announced(2) [of tz "[0, 0]"]
    by (simp add: decodeCell_def decodeType_def int_col_def zero_column_def type_codes Let_def)
  then show ?thesis
    by (auto simp: undecodable_def readCell_def Int32_eq Reader_Bytes_def Reader_take_eq short_body_def int_col_def zero_column_def)
qed

theorem undecodable_row_skipped_witness:
  "\<exists>r' c'. Next (\<lambda>_. None) (int_rows 3) (demo_conn (srv_peer (int_srv []) (opened 3 ''select n from damaged'' [] db_init))) =
      (Inl (Wrapf ''cubrid: column %q: %w'' [EStr ''n''] ErrShortBuffer), r', c') \<and> drop (rs_pos r') (rs_tuples r') = [[VInt32 1]]"
proof -
  let ?\<sigma> = "opened 3 ''select n from damaged'' [] db_init" and ?bodies = "[int_body 1] @ short_body # [int_body 3]"
  let ?c = "demo_conn (srv_peer (int_srv []) ?\<sigma>)"
  have srv: "serves (int_srv []) ?\<sigma> ?c" by (rule int_db_serves) simp
  have "db_rows (int_db []) ''select n from damaged'' [] = ?bodies" by (simp add: db_rows_def int_db_def)
  then have res: "result_server (int_srv []) ?\<sigma> cap3 (c_version ?c) (st_handle (rs_stmt (int_rows 3))) ?bodies"
    using db_result.result_server_axioms [of 0 cap3 "\<lambda>_. None" 12 "int_db []" 3 "''select n from damaged''" "[]" db_init]
    by (simp add: int_rows_def)
  have st: "isCall (rs_stmt (int_rows 3)) = False" "rs_cols (int_rows 3) = [int_col]"
    by (simp_all add: int_rows_def isCall_def cmd_types)
  have dec: "list_all2 (decodes_to (\<lambda>_. None) False [int_col]) [int_body 1] [[VInt32 1]]" by (simp add: int_body_decodes)
  have n: "unat (of_int (cfg_FetchSize (c_cfg ?c)) :: int32) = 100" by (simp add: demo_cfg_def)
  show ?thesis
    using undecodable_row_skipped [OF srv res, unfolded st n, OF dec short_undecodable] by (simp add: int_rows_def cap3_def) blast
qed

subsection \<open>Releasing handles\<close>

lemma execute_keeps_handle:
  assumes "execute tz ctx args s c = (res, s', c')"
  shows "st_handle s' = st_handle s \<and> st_closed s' = st_closed s"
  using assms
  by (auto simp: execute_def executeCall_def Let_def split: if_splits sum.splits prod.splits)

lemma Stmt_Exec_keeps_handle:
  assumes "Stmt_Exec tz ctx args s c = (res, s', c')"
  shows "st_handle s' = st_handle s \<and> st_closed s' = st_closed s"
  using assms execute_keeps_handle [of tz ctx args s c]
  by (auto simp: Stmt_Exec_def split: sum.splits prod.splits)

lemma roundTrip_sends:
  assumes "Valid c" and "c_open c"
  shows "c_sent (snd (roundTrip ctx p c)) = c_sent c @ [WriteRequest p (requestCasInfo c)]"
  using assms
  by (auto simp: roundTrip_def roundTrip_io_def nc_Write_def Valid_def guard_end_def guard_begin_def Let_def
      requestCasInfo_def split: net_event.split prod.split sum.split)

text \<open>
  C14. \<^verbatim>\<open>Conn.Exec\<close> never leaks the statement it prepares: whether the execution succeeds or fails,
  the last request on a connection that is still usable is CLOSE_STATEMENT for the handle PREPARE
  returned, and the caller gets the outcome of the execution, not of the close.
\<close>

theorem exec_releases_handle:
  assumes "Prepare ctx sql c = (Inr s, c1)" and "Stmt_Exec tz ctx args s c1 = (res, s2, c2)"
    and "Valid c2" and "c_open c2"
  shows "\<exists>c'. Conn_Exec tz ctx sql args c = (res, c') \<and>
    c_sent c' = c_sent c2 @ [WriteRequest
      (request FnCloseStatement [put_u32 (st_handle s), [boolByte (c_autoCommit c2)]]) (requestCasInfo c2)]"
proof -
  let ?w = "ArgByte (ArgInt (RawByte NewWriter FnCloseStatement) (st_handle s)) (boolByte (c_autoCommit c2))"
  have "\<not> st_closed s"
    using assms(1) parsePrepare_ok
    by (fastforce simp: Prepare_def prepare_def Let_def bindC_def returnC_def bindE_Inr_iff split: prod.splits sum.splits)
  with Stmt_Exec_keeps_handle [OF assms(2)] have s2: "\<not> st_closed s2" "st_handle s2 = st_handle s" by simp_all
  have w: "Writer_Bytes ?w = request FnCloseStatement [put_u32 (st_handle s), [boolByte (c_autoCommit c2)]]"
    by (simp add: request_def wire_simps)
  obtain r c3 where rt: "roundTrip ctx (Writer_Bytes ?w) c2 = (r, c3)" by (cases "roundTrip ctx (Writer_Bytes ?w) c2")
  then have sent: "c_sent c3 = c_sent c2 @ [WriteRequest (Writer_Bytes ?w) (requestCasInfo c2)]"
    using roundTrip_sends [OF assms(3,4), of ctx "Writer_Bytes ?w"] by simp
  have "Conn_Exec tz ctx sql args c = (res, c3)"
    using assms(1,2) s2 rt
    by (auto simp: Conn_Exec_def bindC_def Stmt_Close_def Let_def returnC_def split: sum.splits)
  with sent w show ?thesis by simp
qed

text \<open>A reply that PREPARE reads as a statement without parameters or columns, and EXECUTE as 7 affected rows.\<close>

definition seven :: bytes where
  "seven = put_u32 7 @ replicate 14 0"

lemma seven_prepared:
  assumes "serves (const_srv seven) () c"
  obtains s c1 where "Prepare ctx sql c = (Inr s, c1)" and "st_handle s = 7" and "\<not> st_closed s"
    and "st_paramCount s = 0" and "st_cmdType s = 0" and "serves (const_srv seven) () c1"
    and "c_version c1 = c_version c"
proof -
  let ?s = "\<lparr>st_sql = sql, st_handle = 7, st_cmdType = 0, st_paramCount = 0, st_cols = [],
    st_closed = False, st_outParams = None, st_outRow = None\<rparr>"
  have z: "replicate 14 (0 :: byte) = put_u32 0 @ [0] @ put_u32 0 @ [0] @ put_u32 0"
    by (simp add: put_u32_def numeral_eq_Suc)
  have p: "parsePrepare sql (NewReader seven) = Inr (?s, advance 18 (NewReader seven))"
    unfolding seven_def z
    by (simp add: parsePrepare_def ReadStatus_eq Int32_eq Reader_Byte_eq Remaining_eq cmdTypeCallSP_def Let_def)
  define req where "req = Writer_Bytes (ArgByte (ArgByte (ArgString (RawByte NewWriter FnPrepare) sql) 0) (boolByte (c_autoCommit c)))"
  obtain c1 where rt: "roundTrip ctx req c = (Inr (NewReader seven), c1)" and c1: "serves (const_srv seven) () c1"
    and ses: "same_session c c1"
    by (rule const_serves_roundTrip [OF assms, of ctx req])
  have "Prepare ctx sql c = (Inr ?s, c1)"
    using rt by (simp add: Prepare_def prepare_def bindC_def returnC_def p Let_def flip: req_def)
  then show ?thesis using that c1 ses by (simp add: same_session_def)
qed

lemma seven_executed:
  assumes "serves (const_srv seven) () c" and "c_version c = 12" and "\<not> st_closed s" and "st_paramCount s = 0" and "st_cmdType s = 0"
  obtains s2 c2 where "Stmt_Exec tz ctx [] s c = (Inr 7, s2, c2)" and "serves (const_srv seven) () c2"
proof -
  have z: "replicate 14 (0 :: byte) = [0] @ put_u32 0 @ [0] @ put_u32 0 @ replicate 4 0"
    by (simp add: put_u32_def numeral_eq_Suc)
  have p: "parseExecute 12 (NewReader seven) = Inr (7, advance 14 (NewReader seven))"
    unfolding seven_def z
    by (simp add: parseExecute_def ReadStatus_eq Int32_eq Reader_Byte_eq AtLeast_def proto_versions Let_def)
  obtain w where w: "executeRequest (s\<lparr>st_outRow := None\<rparr>) [] (c_autoCommit c) (c_version c) = Inr w"
    using assms(5) by (simp add: executeRequest_def cmd_types Let_def)
  obtain c2 where rt: "roundTrip ctx (Writer_Bytes w) c = (Inr (NewReader seven), c2)" and c2: "serves (const_srv seven) () c2"
    and ses: "same_session c c2"
    by (rule const_serves_roundTrip [OF assms(1), of ctx "Writer_Bytes w"])
  have v: "c_version c2 = 12" using ses assms(2) by (simp add: same_session_def)
  have "Stmt_Exec tz ctx [] s c = (Inr 7, s\<lparr>st_outRow := None\<rparr>, c2)"
    using assms(3-5) w rt v p by (simp add: Stmt_Exec_def execute_def Let_def cmd_types isCall_def)
  then show ?thesis using that c2 by blast
qed

theorem exec_releases_handle_witness:
  "\<exists>c2 c'. Conn_Exec (\<lambda>_. None) contextBackground ''delete from t'' [] (const_conn seven) = (Inr 7, c') \<and>
    c_sent c' = c_sent c2 @ [WriteRequest
      (request FnCloseStatement [put_u32 7, [boolByte (c_autoCommit c2)]]) (requestCasInfo c2)]"
proof -
  have srv: "serves (const_srv seven) () (const_conn seven)"
    by (rule const_serves) (simp add: seven_def maxPayloadSize_def)
  obtain s c1 where s: "Prepare contextBackground ''delete from t'' (const_conn seven) = (Inr s, c1)" "st_handle s = 7"
    "\<not> st_closed s" "st_paramCount s = 0" "st_cmdType s = 0" "serves (const_srv seven) () c1" "c_version c1 = c_version (const_conn seven)"
    by (rule seven_prepared [OF srv])
  have v: "c_version c1 = 12" using s(7) by (simp add: const_conn_def)
  obtain s2 c2 where x: "Stmt_Exec (\<lambda>_. None) contextBackground [] s c1 = (Inr 7, s2, c2)" "serves (const_srv seven) () c2"
    by (rule seven_executed [OF s(6) v s(3-5), of "\<lambda>_. None" contextBackground])
  from exec_releases_handle [OF s(1) x(1)] serves_usable [OF x(2)] s(2) show ?thesis by metis
qed

subsection \<open>Batches\<close>

lemma batchRoundTrip_sends:
  assumes "Valid c \<and> c_open c"
  shows "c_sent (snd (batchRoundTrip ctx p st c)) = c_sent c @ [WriteRequest p (requestCasInfo c)]"
proof -
  obtain x c1 where rt: "roundTrip ctx p c = (x, c1)" by (cases "roundTrip ctx p c")
  from roundTrip_sends [of c ctx p] assms show ?thesis
    by (cases x) (simp_all add: batchRoundTrip_def bindC_def returnC_def rt)
qed

lemma batch_prep_bytes:
  "Writer_Bytes (ExecuteBatchPrepRequest NewWriter h ac ver) =
    request FnExecuteBatchPrep ([put_u32 h] @ (if ver \<ge> 4 then [put_u32 0] else []) @ [[autoCommitByte ac]])"
  by (simp add: ExecuteBatchPrepRequest_def request_def wire_simps AtLeast_def proto_versions Let_def)

lemma ExecBatch_request:
  assumes "\<not> st_closed s" and "rows \<noteq> []" and "st_paramCount s = 0 \<Longrightarrow> length rows = 1"
    and "\<forall>row \<in> set rows. length row = st_paramCount s"
    and "encodeBatchRows 0 (ExecuteBatchPrepRequest NewWriter (st_handle s) (c_autoCommit c) (c_version c)) rows = Inr w"
  shows "ExecBatch ctx rows s c = batchRoundTrip ctx (Writer_Bytes w) False c"
proof -
  have "checkRows 0 (st_paramCount s) rows = Inr ()" using assms(4) by (simp add: checkRows_iff)
  moreover have "\<not> (st_paramCount s = 0 \<and> length rows > 1)" using assms(3) by auto
  ultimately show ?thesis using assms(1,2,5) by (auto simp: ExecBatch_def Let_def)
qed

text \<open>
  C23. A batch reports one result per row, in order: against a server that answers the batch request
  with one outcome per row, \<^verbatim>\<open>ExecBatch\<close> returns exactly these outcomes, a failed row as its own
  server error. The request it sends carries every value of every row, row after row, as the type and
  content from which a receiver reads what that value stands for, as in C13.
\<close>

theorem batch_one_result_per_row:
  assumes "serves srv \<sigma> c" and "\<not> st_closed s" and "rows \<noteq> []" and "st_paramCount s = 0 \<Longrightarrow> length rows = 1"
    and "\<forall>row \<in> set rows. length row = st_paramCount s"
    and "encodeBatchRows 0 (ExecuteBatchPrepRequest NewWriter (st_handle s) (c_autoCommit c) (c_version c)) rows = Inr w"
    and "fst (srv \<sigma> (Writer_Bytes w, requestCasInfo c)) = put_u32 0 @ batch_bytes (c_version c) False os"
    and "length os = length rows" and "length rows < 2147483648" and "\<forall>x \<in> set os. outcome_ok x"
  shows "\<exists>c' tcs. ExecBatch ctx rows s c = (Inr (map outcome_result os), c') \<and>
    c_sent c' = c_sent c @ [WriteRequest (Writer_Bytes w) (requestCasInfo c)] \<and>
    list_all2 sent_as (concat rows) tcs \<and>
    Writer_Bytes w = request FnExecuteBatchPrep
      ([put_u32 (st_handle s)] @ (if c_version c \<ge> 4 then [put_u32 0] else []) @ [[autoCommitByte (c_autoCommit c)]] @ arg_pairs tcs)"
proof -
  have "\<exists>c'. batchRoundTrip ctx (Writer_Bytes w) False c = (Inr (map outcome_result os), c') \<and>
      serves srv (snd (srv \<sigma> (Writer_Bytes w, requestCasInfo c))) c'"
    by (rule batchRoundTrip_served [OF assms(1) assms(7)]) (use assms(8-10) in auto)
  then obtain c' where c': "ExecBatch ctx rows s c = (Inr (map outcome_result os), c')"
    using ExecBatch_request [OF assms(2-6)] by auto
  have sent: "c_sent c' = c_sent c @ [WriteRequest (Writer_Bytes w) (requestCasInfo c)]"
    using c' ExecBatch_request [OF assms(2-6), of ctx] batchRoundTrip_sends [OF serves_usable [OF assms(1)]] by (metis snd_conv)
  from encodeBatchRows_sent [OF assms(6)] obtain tcs where "list_all2 sent_as (concat rows) tcs"
      "w_buf w = w_buf (ExecuteBatchPrepRequest NewWriter (st_handle s) (c_autoCommit c) (c_version c)) @ encode_args (arg_pairs tcs)"
    by blast
  then show ?thesis
    using c' sent batch_prep_bytes [of "st_handle s" "c_autoCommit c" "c_version c"]
    by (intro exI [of _ c'] exI [of _ tcs]) (simp add: request_def Writer_Bytes_def)
qed

theorem batch_one_result_per_row_witness:
  "\<exists>c'. ExecBatch contextBackground [[VInt32 1], [VInt32 2]] insert_stmt
      (const_conn (put_u32 0 @ batch_bytes 12 False [Inr 1, Inl (-670, ''unique'')])) =
    (Inr [\<lparr>br_AffectedRows = 1, br_Err = None\<rparr>,
          \<lparr>br_AffectedRows = 0, br_Err = Some (ServerError (-670) ''unique'')\<rparr>], c')"
proof -
  define b where "b = put_u32 0 @ batch_bytes 12 False [Inr 1, Inl (-670, ''unique'')]"
  have srv: "serves (const_srv b) () (const_conn b)"
    by (rule const_serves) (simp add: b_def batch_bytes_def put_string_def maxPayloadSize_def)
  have v: "c_version (const_conn b) = 12" by (simp add: const_conn_def)
  have ans: "fst (const_srv b () q) = put_u32 0 @ batch_bytes (c_version (const_conn b)) False [Inr 1, Inl (-670, ''unique'')]" for q
    by (simp only: v const_srv_def fst_conv) (simp only: b_def)
  let ?h = "ExecuteBatchPrepRequest NewWriter (st_handle insert_stmt) (c_autoCommit (const_conn b)) (c_version (const_conn b))"
  obtain w where w: "encodeBatchRows 0 ?h [[VInt32 1], [VInt32 2]] = Inr w"
    by (simp add: encodeArg_def EncodeParam_def)
  have "\<exists>c' tcs. ExecBatch contextBackground [[VInt32 1], [VInt32 2]] insert_stmt (const_conn b) =
      (Inr (map outcome_result [Inr 1, Inl (-670, ''unique'')]), c') \<and>
      c_sent c' = c_sent (const_conn b) @ [WriteRequest (Writer_Bytes w) (requestCasInfo (const_conn b))] \<and>
      list_all2 sent_as (concat [[VInt32 1], [VInt32 2]]) tcs \<and>
      Writer_Bytes w = request FnExecuteBatchPrep ([put_u32 (st_handle insert_stmt)] @
        (if c_version (const_conn b) \<ge> 4 then [put_u32 0] else []) @ [[autoCommitByte (c_autoCommit (const_conn b))]] @ arg_pairs tcs)"
    by (rule batch_one_result_per_row [OF srv _ _ _ _ w ans]) (simp_all add: insert_stmt_def)
  then show ?thesis unfolding b_def [symmetric] by auto
qed

subsection \<open>Large objects\<close>

text \<open>
  C35. \<^verbatim>\<open>ReadAt\<close> honours the contract of \<^verbatim>\<open>io.ReaderAt\<close> with every server: it never returns more than
  it was asked for, and less only together with an error; a negative offset is an error that sends
  nothing.
\<close>

theorem read_at_contract:
  assumes "ReadAt ctx l len off c = ((q, err), c')"
  shows "length q \<le> len \<and> (err = None \<longrightarrow> length q = len) \<and> (sint off < 0 \<longrightarrow> err \<noteq> None \<and> q = [] \<and> c' = c)"
  using ReadAt_contract [OF assms] assms by (auto simp: ReadAt_def split: if_splits)

definition demo_lob :: "nat \<Rightarrow> lob" where
  "demo_lob sz = \<lparr>lob_handle =
      \<lparr>lh_DBType = 23, lh_Size = of_nat sz, lh_Locator = ''f'', lh_raw = put_u32 23 @ put_u64 (of_nat sz) @ put_u32 2 @ string_bytes ''f'' @ [0]\<rparr>,
     lob_isClob = False, lob_writable = True\<rparr>"

lemma demo_lob_tracks: "sz < 2 ^ 63 \<Longrightarrow> tracks (demo_lob sz) sz"
proof -
  assume sz: "sz < 2 ^ 63"
  have t: "trimNul (string_bytes ''f'' @ [0]) = string_bytes ''f''"
    by (simp add: trimNul_snoc string_bytes_def byte_of_char_def trimNul.simps)
  have "ParseLobHandle (lh_raw (lob_handle (demo_lob sz))) = Inr (lob_handle (demo_lob sz))"
    using t by (simp add: ParseLobHandle_eq demo_lob_def Let_def)
  with sz show ?thesis
    by (simp add: tracks_def lob_ok_def) (simp add: demo_lob_def unsigned_of_nat take_bit_nat_eq_self)
qed

theorem read_at_contract_witness:
  "\<exists>q err c'. ReadAt contextBackground (demo_lob 5) 4 0 (demo_conn (srv_peer (lob_srv cap3) [1, 2, 3, 4, 5])) = ((q, err), c') \<and>
    length q \<le> 4 \<and> (err = None \<longrightarrow> length q = 4)"
  by (metis read_at_contract prod.exhaust)

text \<open>
  C12. What is appended is what is read back: on an object the server stores, serving and storing as
  little per request as it likes, \<^verbatim>\<open>Append\<close> writes all of its bytes at the end and keeps the
  locator's size in step, and \<^verbatim>\<open>ReadAll\<close> then returns the old content followed by the new bytes.
\<close>

theorem lob_append_read_all:
  assumes "cap_ok cap" and "serves (lob_srv cap) content c" and "tracks l (length content)" and "lob_writable l"
    and "length content + length p < 9223372036854775808"
  shows "\<exists>l' c1 c2. Append ctx p l c = ((length p, None), l', c1) \<and> tracks l' (length content + length p) \<and>
    ReadAll ctx l' c1 = (Inr (content @ p), c2)"
proof -
  from Append_loop_content [OF assms(1), of content p 0 c l ctx] assms(2,3,5) obtain l' c1
    where a: "Append_loop ctx p 0 l c = ((length p, None), l', c1)" and s: "serves (lob_srv cap) (content @ p) c1"
      and t: "tracks l' (length content + length p)" by auto
  have "Append ctx p l c = ((length p, None), l', c1)" using a assms(4) by (simp add: Append_def)
  moreover obtain c2 where "ReadAll ctx l' c1 = (Inr (content @ p), c2)"
    using ReadAll_loop_content [OF assms(1) t _ s, of 0 "[]" ctx] assms(5) by (auto simp: ReadAll_def)
  ultimately show ?thesis using t by blast
qed

theorem lob_append_read_all_witness:
  "\<exists>l' c1 c2. Append contextBackground [4, 5, 6, 7] (demo_lob 3) (demo_conn (srv_peer (lob_srv cap3) [1, 2, 3])) =
      ((4, None), l', c1) \<and> ReadAll contextBackground l' c1 = (Inr [1, 2, 3, 4, 5, 6, 7], c2)"
proof -
  have t: "tracks (demo_lob 3) (length [1, 2, 3 :: byte])" and w: "lob_writable (demo_lob 3)"
    using demo_lob_tracks [of 3] by (simp_all add: numeral_3_eq_3 demo_lob_def)
  have len: "length [4, 5, 6, 7 :: byte] = 4" by simp
  from lob_append_read_all [OF cap3_ok lob_serves t w, of "[4, 5, 6, 7]" contextBackground]
  show ?thesis unfolding len by auto
qed

subsection \<open>Savepoints\<close>

text \<open>
  No savepoint name reaches the server unless it is a plain identifier: \<^verbatim>\<open>Savepoint\<close> and
  \<^verbatim>\<open>RollbackToSavepoint\<close> either refuse the name with the connection untouched, or the name is a
  non-empty word of letters, digits and underscores that does not start with a digit and so holds
  no space, quote, semicolon, comment sign or NUL.
\<close>

lemma savepoint_names_plain:
  "(name \<noteq> [] \<and> \<not> is_decimal (hd name) \<and> (\<forall>ch. ch \<in> set name \<longrightarrow> ident_char ch \<and>
      ch \<notin> {CHR '' '', CHR '';'', CHR 0x27, CHR 0x22, CHR ''-'', CHR 0x00})) \<or>
   (Savepoint tz ctx name c = (Inl (Errorf ''cubrid: invalid savepoint name %q'' [EStr name]), c) \<and>
    RollbackToSavepoint tz ctx name c = (Inl (Errorf ''cubrid: invalid savepoint name %q'' [EStr name]), c))"
proof (cases "savepointName name")
  case True
  from savepointName_chars [OF True] have "name \<noteq> []" "\<forall>ch \<in> set name. ident_char ch" by simp_all
  moreover have "\<not> is_decimal (hd name)"
    using True by (cases name) (auto simp: savepointName_def ident_start_def is_decimal_def Let_def)
  ultimately show ?thesis using ident_char_plain by blast
next
  case False
  then show ?thesis
    by (simp add: Savepoint_def RollbackToSavepoint_def checkSavepointName_def bindC_def returnC_def)
qed

end
