(* ===== verification/Failover.thy ===== *)
theory Failover
  imports Connect_Facts
begin

section \<open>Reaching a live broker\<close>

text \<open>
  What a broker has to do for an attempt to succeed, whether it serves the connection itself or
  redirects to a CAS port, in plain text or over TLS; and that the sweep then ends in a connection.
  The sweep is also read as a sequence of attempts, each with the dials it makes.
\<close>

subsection \<open>Live brokers\<close>

definition dials_to :: "net \<Rightarrow> string \<Rightarrow> peer \<Rightarrow> bool" where
  "dials_to net addr peer \<longleftrightarrow> (\<forall>ds dl. n_dial net (ds @ [(addr, dl)]) = Inr peer)"

definition auth_block :: "config \<Rightarrow> string \<Rightarrow> int \<Rightarrow> error + bytes" where
  "auth_block cfg host port = DBInfo (cfg_Database cfg) (cfg_User cfg) (cfg_Password cfg)
     (''cubrid://'' @ cfg_User cfg @ ''@'' @ host @ '':'' @ Itoa port @ ''/'' @ cfg_Database cfg) None"

definition admits :: "bytes \<Rightarrow> peer \<Rightarrow> bytes list \<Rightarrow> bool" where
  "admits db peer sent \<longleftrightarrow>
     (\<exists>pid bi casid sid ci e. 0 \<le> sint pid \<and> length bi = 8 \<and> length sid = 20 \<and> length ci = 4 \<and>
        peer (sent @ [db]) = Delivered (WriteRequest (reply_bytes pid bi casid sid) ci) e)"

definition secures :: "net \<Rightarrow> config \<Rightarrow> string \<Rightarrow> bytes \<Rightarrow> peer \<Rightarrow> bytes list \<Rightarrow> bool" where
  "secures net cfg host db peer sent \<longleftrightarrow>
     (if cfg_SSL cfg then \<exists>p. n_tls net host (cfg_SSLVerify cfg) peer = Inr p \<and> admits db p [] else admits db peer sent)"

definition live_broker :: "net \<Rightarrow> config \<Rightarrow> string \<Rightarrow> int \<Rightarrow> bool" where
  "live_broker net cfg host port \<longleftrightarrow>
     (\<exists>db peer p e. auth_block cfg host port = Inr db \<and> dials_to net (JoinHostPort host (Itoa port)) peer \<and>
        0 \<le> sint p \<and> peer [Greeting (cfg_SSL cfg)] = Delivered (put_u32 p) e \<and>
        (if p = 0 then secures net cfg host db peer [Greeting (cfg_SSL cfg)]
         else \<exists>cas. dials_to net (JoinHostPort host (Itoa (sint p))) cas \<and> secures net cfg host db cas []))"

subsection \<open>The phases of the handshake\<close>

lemma dial_live:
  assumes "dials_to net addr peer"
  obtains w' where "DialContext net ctx addr w = (Inr (Suc (length (w_dials w)), peer), w')"
  using assms by (simp add: DialContext_def dials_to_def Let_def)

lemma greet_live:
  assumes "c_open c" and "c_sent c = []" and "s_in (c_br c) = []"
    and "c_peer c [Greeting (cfg_SSL (c_cfg c))] = Delivered (put_u32 p) e"
  shows "handshake_greet c = (Inr p, c\<lparr>c_sent := [Greeting (cfg_SSL (c_cfg c))], c_br := \<lparr>s_in = [], s_end = e\<rparr>\<rparr>)"
  using assms by (simp add: handshake_greet_def bindC_def wrapC_def nc_Write_def read_int32_def ReadFull_def Let_def)

lemma length_reply_bytes: "length bi = 8 \<Longrightarrow> length sid = 20 \<Longrightarrow> length (reply_bytes pid bi casid sid) \<le> 36"
  by (simp add: reply_bytes_def)

lemma auth_live:
  assumes "c_open c" and "s_in (c_br c) = []" and db: "auth_block (c_cfg c) (c_host c) (c_port c) = Inr db"
    and "admits db (c_peer c) (c_sent c)"
  obtains c' where "handshake_auth c = (Inr (), c')"
proof -
  obtain pid bi casid sid ci e where r: "0 \<le> sint pid" "length bi = 8" "length sid = 20" "length ci = 4"
    "c_peer c (c_sent c @ [db]) = Delivered (WriteRequest (reply_bytes pid bi casid sid) ci) e"
    using assms(4) by (auto simp: admits_def)
  have small: "length (reply_bytes pid bi casid sid) \<le> maxPayloadSize"
    using length_reply_bytes [OF r(2,3), of pid casid] by (simp add: maxPayloadSize_def)
  have rd: "ReadResponse \<lparr>s_in = WriteRequest (reply_bytes pid bi casid sid) ci, s_end = e\<rparr> =
      (Inr (reply_bytes pid bi casid sid, ci), \<lparr>s_in = [], s_end = e\<rparr>)"
    using ReadResponse_frame [OF r(4) small, of "[]" "\<lparr>s_in = [], s_end = e\<rparr>"] by simp
  have "\<exists>c'. handshake_auth c = (Inr (), c')"
    using assms(1,2) r(5) rd db
    by (simp add: handshake_auth_def auth_block_def bindC_def returnC_def wrapC_def nc_Write_def read_response_def
        ParseConnectReply_reply [OF r(1-3)] Let_def)
  then show ?thesis using that by blast
qed

lemma upgrade_live:
  assumes "c_open c" and "s_in (c_br c) = []" and "auth_block (c_cfg c) (c_host c) (c_port c) = Inr db"
    and sec: "secures net (c_cfg c) (c_host c) db (c_peer c) (c_sent c)"
  shows "\<exists>c'. bindH (if cfg_SSL (c_cfg c) then liftH (handshake_tls net) else returnH (Inr ())) (\<lambda>_. liftH handshake_auth) c w =
    (Inr (), c', w)"
proof (cases "cfg_SSL (c_cfg c)")
  case True
  then obtain p where p: "n_tls net (c_host c) (cfg_SSLVerify (c_cfg c)) (c_peer c) = Inr p" "admits db p []"
    using sec by (auto simp: secures_def)
  let ?c = "c\<lparr>c_peer := p, c_sent := [], c_br := no_bytes\<rparr>"
  obtain c' where "handshake_auth ?c = (Inr (), c')"
    by (rule auth_live [of ?c db]) (use assms p(2) in \<open>simp_all add: no_bytes_def\<close>)
  then show ?thesis using True p(1) by (simp add: bindH_def liftH_def handshake_tls_def)
next
  case False
  obtain c' where "handshake_auth c = (Inr (), c')"
    by (rule auth_live [OF assms(1-3)]) (use False sec in \<open>simp add: secures_def\<close>)
  then show ?thesis using False by (simp add: bindH_def liftH_def returnH_def)
qed

lemma handshake_live:
  assumes c: "c = new_conn net cfg host port sock peer" and db: "auth_block cfg host port = Inr db"
    and greet: "0 \<le> sint p" "peer [Greeting (cfg_SSL cfg)] = Delivered (put_u32 p) e"
    and cas: "if p = 0 then secures net cfg host db peer [Greeting (cfg_SSL cfg)]
      else \<exists>cas. dials_to net (JoinHostPort host (Itoa (sint p))) cas \<and> secures net cfg host db cas []"
  shows "\<exists>c' w'. handshake net ctx c w = (Inr (), c', w')"
proof -
  let ?up = "\<lambda>c. bindH (if cfg_SSL (c_cfg c) then liftH (handshake_tls net) else returnH (Inr ())) (\<lambda>_. liftH handshake_auth) c"
  let ?c0 = "guard_begin ctx c"
  have c0: "c_open ?c0" "c_sent ?c0 = []" "s_in (c_br ?c0) = []" "c_cfg ?c0 = cfg" "c_host ?c0 = host" "c_port ?c0 = port"
    "c_peer ?c0 = peer" by (simp_all add: c new_conn_def guard_begin_def no_bytes_def)
  let ?c1 = "?c0\<lparr>c_sent := [Greeting (cfg_SSL cfg)], c_br := \<lparr>s_in = [], s_end = e\<rparr>\<rparr>"
  have g: "handshake_greet ?c0 = (Inr p, ?c1)"
    using greet_live [of ?c0 p e] c0 greet(2) by simp
  have "\<exists>c2 w2. bindH (if sint p > 0 then handshake_redirect net ctx p else returnH (Inr ())) (\<lambda>_ c. ?up c) ?c1 w = (Inr (), c2, w2)"
  proof (cases "p = 0")
    case True
    then have "\<exists>c'. ?up ?c1 w = (Inr (), c', w)"
      using cas c0 db by (intro upgrade_live [where db = db]) simp_all
    then show ?thesis using True by (auto simp: bindH_def [of "returnH (Inr ())"] returnH_def)
  next
    case False
    then obtain q where q: "dials_to net (JoinHostPort host (Itoa (sint p))) q" "secures net cfg host db q []"
      using cas by auto
    have pos: "0 < sint p" using False greet(1) by (metis order_less_le signed_0 signed_word_eqI)
    let ?cl = "nc_Close ?c1" and ?wl = "close_socket (c_nc ?c1) w"
    obtain w2 where d: "DialContext net ctx (JoinHostPort host (Itoa (sint p))) ?wl = (Inr (Suc (length (w_dials ?wl)), q), w2)"
      by (rule dial_live [OF q(1), of ctx ?wl])
    let ?c2 = "guard_begin ctx (?cl\<lparr>c_nc := Suc (length (w_dials ?wl)), c_open := True, c_peer := q, c_sent := [], c_br := no_bytes\<rparr>)"
    have h: "c_host ?cl = host" "c_cfg ?cl = cfg" "c_port ?cl = port" by (simp_all add: nc_Close_def c0)
    have r: "handshake_redirect net ctx p ?c1 w = (Inr (), ?c2, w2)"
      using d h by (simp add: handshake_redirect_def Let_def)
    have "\<exists>c'. ?up ?c2 w2 = (Inr (), c', w2)"
      using q(2) h db by (intro upgrade_live [where db = db]) (simp_all add: guard_begin_def no_bytes_def)
    then show ?thesis using pos r by (auto simp: bindH_def [of "handshake_redirect net ctx p"])
  qed
  then obtain c2 w2 where "bindH (if sint p > 0 then handshake_redirect net ctx p else returnH (Inr ())) (\<lambda>_ c. ?up c) ?c1 w = (Inr (), c2, w2)"
    by blast
  then show ?thesis using g greet(1) by (simp add: handshake_def bindH_def [of "liftH handshake_greet"] liftH_def [of handshake_greet])
qed

lemma connectHost_live:
  assumes "live_broker net cfg host port"
  obtains c w' where "connectHost net ctx cfg host port timeout w = (Inr c, w')"
proof -
  obtain db peer p e where l: "auth_block cfg host port = Inr db" "dials_to net (JoinHostPort host (Itoa port)) peer"
    "0 \<le> sint p" "peer [Greeting (cfg_SSL cfg)] = Delivered (put_u32 p) e"
    "if p = 0 then secures net cfg host db peer [Greeting (cfg_SSL cfg)]
      else \<exists>cas. dials_to net (JoinHostPort host (Itoa (sint p))) cas \<and> secures net cfg host db cas []"
    using assms unfolding live_broker_def by blast
  let ?ctx = "attempt_ctx net ctx timeout w"
  obtain w1 where d: "DialContext net ?ctx (JoinHostPort host (Itoa port)) w = (Inr (Suc (length (w_dials w)), peer), w1)"
    by (rule dial_live [OF l(2)])
  obtain c w' where "handshake net ?ctx (new_conn net cfg host port (Suc (length (w_dials w))) peer) w1 = (Inr (), c, w')"
    using handshake_live [OF refl l(1,3-5)] by blast
  then show ?thesis using that d by (simp add: connectHost_def Let_def flip: attempt_ctx_def)
qed

subsection \<open>The sweep\<close>

text \<open>A live target is never among the failed ones, so the sweep ends at it at the latest.\<close>

lemma sweeps_live:
  assumes "sweeps net ctx cfg timeout tgs w fails tg r w'" and "\<And>t. ctx_Err ctx t = None"
    and "i < length tgs" and "live_broker net cfg (fst (tgs ! i)) (snd (tgs ! i))"
  shows "r \<noteq> None \<and> length fails \<le> i"
  using assms(1,3,4)
proof (induction arbitrary: i rule: sweeps.induct)
  case (gave_up host port w e w' tgs)
  then show ?case using assms(2) by simp
next
  case (next_host host port w e w1 tgs fails tg r w')
  have "i \<noteq> 0"
  proof
    assume "i = 0"
    with next_host.prems(2) have "live_broker net cfg host port" by simp
    then obtain c w'' where "connectHost net ctx cfg host port timeout w = (Inr c, w'')" by (rule connectHost_live)
    with next_host.hyps(1) show False by simp
  qed
  then obtain k where i: "i = Suc k" by (cases i) simp_all
  then show ?case using next_host.IH [of k] next_host.prems by simp
qed simp_all

subsection \<open>The attempts of a sweep\<close>

text \<open>
  Failed attempts in a row: each is one \<^verbatim>\<open>connectHost\<close> from the state the one before left, and the
  caller's context has not ended when the next one starts.
\<close>

fun attempts_fail :: "net \<Rightarrow> ctx \<Rightarrow> config \<Rightarrow> int \<Rightarrow> ((string \<times> int) \<times> error) list \<Rightarrow> world \<Rightarrow> world \<Rightarrow> bool" where
  "attempts_fail net ctx cfg timeout [] w w' = (w' = w)"
| "attempts_fail net ctx cfg timeout (((host, port), e) # fails) w w' =
     (\<exists>w1. connectHost net ctx cfg host port timeout w = (Inl e, w1) \<and>
        (fails \<noteq> [] \<longrightarrow> ctx_Err ctx (length (w_dials w1)) = None) \<and> attempts_fail net ctx cfg timeout fails w1 w')"

lemma sweeps_attempts:
  "sweeps net ctx cfg timeout tgs w fails tg r w' \<Longrightarrow>
    \<exists>w1. attempts_fail net ctx cfg timeout fails w w1 \<and>
      (case tg of None \<Rightarrow> r = None \<and> w' = w1
       | Some (host, port) \<Rightarrow> (fails \<noteq> [] \<longrightarrow> ctx_Err ctx (length (w_dials w1)) = None) \<and>
           (\<exists>c. r = Some c \<and> connectHost net ctx cfg host port timeout w1 = (Inr c, w')))"
proof (induction rule: sweeps.induct)
  case (next_host host port w e w1 tgs fails tg r w')
  then obtain w2 where "attempts_fail net ctx cfg timeout fails w1 w2"
    and "case tg of None \<Rightarrow> r = None \<and> w' = w2
       | Some (host, port) \<Rightarrow> (fails \<noteq> [] \<longrightarrow> ctx_Err ctx (length (w_dials w2)) = None) \<and>
           (\<exists>c. r = Some c \<and> connectHost net ctx cfg host port timeout w2 = (Inr c, w'))" by blast
  with next_host(1,2) show ?case
    by (intro exI [of _ w2]) (cases fails; auto split: option.splits)
qed auto

text \<open>The first dial of an attempt is to the address of its target.\<close>

definition dials_of :: "string \<times> int \<Rightarrow> (string \<times> int option) list \<Rightarrow> bool" where
  "dials_of tg ds \<longleftrightarrow> (\<exists>dl rest. ds = (JoinHostPort (fst tg) (Itoa (snd tg)), dl) # rest)"

lemma connectHost_dials:
  assumes "world_ok w" and "connectHost net ctx cfg host port timeout w = (r, w')"
  shows "\<exists>ds. w_dials w' = w_dials w @ ds \<and> dials_of (host, port) ds"
  using assms(2)
proof (cases rule: connectHost_cases)
  case (refused e)
  from DialContext_cases(1) [OF this(1)] show ?thesis by (auto simp: dials_of_def)
next
  case (dialled sock peer w1 h c2 w2)
  note D = DialContext_cases [OF dialled(1)]
  have "attempt_ok (w_open w) (new_conn net cfg host port sock peer) w1"
    using D assms(1) by (auto simp: attempt_ok_def new_conn_def world_ok_def)
  from handshake.accounts [OF this dialled(2)] obtain ds where "w_dials w2 = w_dials w1 @ ds" by (auto simp: attempt_def)
  then show ?thesis using D(1) by (auto simp: dialled(4) dials_of_def close_socket_def split: sum.split)
qed

lemma attempts_fail_dials:
  assumes "world_ok w" and "attempts_fail net ctx cfg timeout fails w w'"
  shows "world_ok w' \<and> (\<exists>dss. w_dials w' = w_dials w @ concat dss \<and> list_all2 dials_of (map fst fails) dss)"
  using assms
proof (induction fails arbitrary: w)
  case Nil
  then show ?case by (auto intro!: exI [of _ "[]"])
next
  case (Cons f fails)
  obtain host port e where f: "f = ((host, port), e)" by (metis prod.collapse)
  from Cons.prems(2) f obtain w1 where a: "connectHost net ctx cfg host port timeout w = (Inl e, w1)"
    and rest: "attempts_fail net ctx cfg timeout fails w1 w'" by auto
  have "world_ok w1" using connectHost_accounted [OF Cons.prems(1) a] by (simp add: accounted_def)
  from Cons.IH [OF this rest] obtain dss where "world_ok w'" "w_dials w' = w_dials w1 @ concat dss"
    "list_all2 dials_of (map fst fails) dss" by blast
  moreover from connectHost_dials [OF Cons.prems(1) a] obtain ds where "w_dials w1 = w_dials w @ ds" "dials_of (host, port) ds" by blast
  ultimately show ?case by (intro conjI exI [of _ "ds # dss"]) (simp_all add: f)
qed

end
