(* ===== verification/Transactions.thy ===== *)
theory Transactions
  imports Query_Facts
begin

section \<open>A transactional database behind the protocol\<close>

text \<open>
  The server of the other statements: it keeps the committed data and the data of the running
  transaction, applies the update of an EXECUTE to the latter, and makes it permanent at once when
  the request says so (the autocommit flag) or at END_TRANSACTION. The client's transactions are
  related to it.
\<close>

subsection \<open>The server\<close>

record 'd update_def =
  u_type :: byte
  u_params :: nat
  u_run :: "value list \<Rightarrow> 'd \<Rightarrow> nat \<times> 'd"

type_synonym 'd updates = "string \<Rightarrow> 'd update_def option"

record 'd tx_state =
  tx_next :: nat
  tx_open :: "int32 \<Rightarrow> string option"
  tx_committed :: 'd
  tx_work :: 'd

definition tx_prepare :: "'d updates \<Rightarrow> 'd tx_state \<Rightarrow> bytes list \<Rightarrow> bytes \<times> 'd tx_state" where
  "tx_prepare upd \<sigma> as =
     (case as of
        [sqlb, flag, ac] \<Rightarrow>
          (let sql = bytes_string (butlast sqlb); h = of_nat (tx_next \<sigma>) in
           case upd sql of
             None \<Rightarrow> (db_refusal, \<sigma>)
           | Some u \<Rightarrow> (prepare_reply (u_type u) h (u_params u) [],
               \<sigma>\<lparr>tx_next := Suc (tx_next \<sigma>), tx_open := (tx_open \<sigma>)(h \<mapsto> sql)\<rparr>))
      | _ \<Rightarrow> (db_refusal, \<sigma>))"

definition update_reply :: "version \<Rightarrow> nat \<Rightarrow> bytes" where
  "update_reply ver n = put_u32 (of_nat n) @ [0] @ put_u32 0 @ (if ver \<ge> 2 then [0] else []) @ (if ver \<ge> 5 then put_u32 0 else [])"

definition tx_applied :: "bool \<Rightarrow> 'd \<Rightarrow> 'd tx_state \<Rightarrow> 'd tx_state" where
  "tx_applied ac d \<sigma> = \<sigma>\<lparr>tx_work := d, tx_committed := if ac then d else tx_committed \<sigma>\<rparr>"

definition tx_execute :: "tzdb \<Rightarrow> version \<Rightarrow> 'd updates \<Rightarrow> 'd tx_state \<Rightarrow> bytes list \<Rightarrow> bytes \<times> 'd tx_state" where
  "tx_execute tz ver upd \<sigma> as =
     (case as of
        hb # _ # _ # _ # _ # _ # acb # _ \<Rightarrow>
          (case Option.bind (tx_open \<sigma> (get_u32 hb)) upd of
             None \<Rightarrow> (db_refusal, \<sigma>)
           | Some u \<Rightarrow>
               (case u_run u (map (bound_value tz) (pair_args (execute_args ver as))) (tx_work \<sigma>) of
                  (n, d) \<Rightarrow> (update_reply ver n, tx_applied (acb = [1]) d \<sigma>)))
      | _ \<Rightarrow> (db_refusal, \<sigma>))"

definition tx_close :: "'d tx_state \<Rightarrow> bytes list \<Rightarrow> bytes \<times> 'd tx_state" where
  "tx_close \<sigma> as =
     (case as of
        [] \<Rightarrow> (db_refusal, \<sigma>)
      | hb # _ \<Rightarrow> (put_u32 0, \<sigma>\<lparr>tx_open := (tx_open \<sigma>)(get_u32 hb := None)\<rparr>))"

definition tx_end :: "'d tx_state \<Rightarrow> bytes list \<Rightarrow> bytes \<times> 'd tx_state" where
  "tx_end \<sigma> as =
     (if as = [[1]] then (put_u32 0, \<sigma>\<lparr>tx_committed := tx_work \<sigma>\<rparr>)
      else if as = [[2]] then (put_u32 0, \<sigma>\<lparr>tx_work := tx_committed \<sigma>\<rparr>)
      else (db_refusal, \<sigma>))"

definition tx_srv :: "tzdb \<Rightarrow> version \<Rightarrow> 'd updates \<Rightarrow> 'd tx_state srv" where
  "tx_srv tz ver upd \<sigma> q =
     (case fst q of
        [] \<Rightarrow> (db_refusal, \<sigma>)
      | fn # rest \<Rightarrow>
          (case split_args rest of
             None \<Rightarrow> (db_refusal, \<sigma>)
           | Some as \<Rightarrow>
               if fn = FnPrepare then tx_prepare upd \<sigma> as
               else if fn = FnExecute then tx_execute tz ver upd \<sigma> as
               else if fn = FnCloseStatement then tx_close \<sigma> as
               else if fn = FnEndTransaction then tx_end \<sigma> as
               else if fn = FnSetDBParameter then (put_u32 0, \<sigma>)
               else (db_refusal, \<sigma>)))"

lemma tx_srv_request:
  assumes "\<And>a. a \<in> set as \<Longrightarrow> length a < 2 ^ 32"
  shows "tx_srv tz ver upd \<sigma> (request fn as, ci) =
    (if fn = FnPrepare then tx_prepare upd \<sigma> as
     else if fn = FnExecute then tx_execute tz ver upd \<sigma> as
     else if fn = FnCloseStatement then tx_close \<sigma> as
     else if fn = FnEndTransaction then tx_end \<sigma> as
     else if fn = FnSetDBParameter then (put_u32 0, \<sigma>)
     else (db_refusal, \<sigma>))"
  using split_args_encode [OF assms, of as] by (simp add: tx_srv_def request_def)

subsection \<open>One statement\<close>

definition update_ok :: "string \<Rightarrow> 'd update_def \<Rightarrow> bool" where
  "update_ok sql u \<longleftrightarrow> u_params u \<le> length sql \<and> length sql < 2147483648 \<and>
     u_type u \<notin> {cmdTypeSelect, cmdTypeCall, cmdTypeCallSP} \<and> (\<forall>vs d. fst (u_run u vs d) < 2147483648)"

lemma parseExecute_update:
  assumes "n < 2147483648"
  shows "\<exists>r. parseExecute ver (NewReader (update_reply ver n)) = Inr (of_nat n, r)"
proof -
  have n: "0 \<le> sint (of_nat n :: int32)" using assms by simp
  show ?thesis
    unfolding update_reply_def using n
    by (simp add: parseExecute_def ReadStatus_eq Int32_eq Reader_Byte_eq AtLeast_def proto_versions Let_def)
qed

lemma widened_count: "n < 2147483648 \<Longrightarrow> scast (of_nat n :: int32) = (of_nat n :: int64)"
proof (rule signed_word_eqI)
  assume n: "n < 2147483648"
  have "sint (of_nat n :: int64) = int n" using n by (simp only: signed_of_nat) (simp add: signed_take_bit_int_eq_self_iff)
  with n show "sint (scast (of_nat n :: int32) :: int64) = sint (of_nat n :: int64)"
    by (simp only: widen_int sint32_of_nat)
qed

lemma tx_execute_sent:
  assumes "list_all2 sent_as args tcs" and "list_all arg_ok args" and "tx_open \<sigma> h = Some sql" and "upd sql = Some u"
    and "u_run u (map decoded_as args) (tx_work \<sigma>) = (n, d)"
  shows "tx_srv tz ver upd \<sigma> (execute_req ver h query ac tcs, ci) = (update_reply ver n, tx_applied ac d \<sigma>)"
proof -
  let ?as = "[put_u32 h, [0], put_u32 0, put_u32 0, [], [boolByte query], [boolByte ac], [1], replicate 8 0] @
      (if ver \<ge> 4 then [put_u32 0] else []) @ arg_pairs tcs"
  have "tx_srv tz ver upd \<sigma> (request FnExecute ?as, ci) = tx_execute tz ver upd \<sigma> ?as"
    using sent_short [OF assms(1,2)] by (subst tx_srv_request) (auto simp: fn_codes split: if_splits)
  moreover have "execute_args ver ?as = arg_pairs tcs" by (simp add: execute_args_def)
  ultimately show ?thesis
    using assms(3-5) by (simp add: execute_req_def tx_execute_def pair_args_pairs bound_values_sent [OF assms(1,2)])
qed

definition tx_done :: "bool \<Rightarrow> 'd \<Rightarrow> 'd tx_state \<Rightarrow> 'd tx_state" where
  "tx_done ac d \<sigma> = tx_applied ac d (\<sigma>\<lparr>tx_next := Suc (tx_next \<sigma>), tx_open := (tx_open \<sigma>)(of_nat (tx_next \<sigma>) := None)\<rparr>)"

lemma sql_Exec_tx:
  fixes \<sigma> :: "'d tx_state"
  assumes srv: "serves (tx_srv tz (c_version c) upd) \<sigma> c" and u: "upd sql = Some u" "update_ok sql u" and h: "tx_next \<sigma> < 2147483648"
    and args: "bindArgs nvs = Inr args" "list_all arg_ok args" "length args = u_params u"
    and run: "u_run u (map decoded_as args) (tx_work \<sigma>) = (n, d)"
  obtains c' where "sql_Exec tz ctx sql nvs c = (Inr (of_nat n), c')"
    and "serves (tx_srv tz (c_version c) upd) (tx_done (c_autoCommit c) d \<sigma>) c'"
    and "same_session c c'" and "c_autoCommit c' = c_autoCommit c"
proof -
  let ?srv = "tx_srv tz (c_version c) upd" and ?h = "of_nat (tx_next \<sigma>) :: int32" and ?ac = "c_autoCommit c"
  let ?\<sigma>1 = "\<sigma>\<lparr>tx_next := Suc (tx_next \<sigma>), tx_open := (tx_open \<sigma>)(?h \<mapsto> sql)\<rparr>" and ?\<sigma>3 = "tx_done ?ac d \<sigma>"
  let ?s = "prepared (u_type u) sql ?h (u_params u) []" and ?as = "[string_bytes sql @ [0], [0], [boolByte ?ac]]"
  have ty: "u_type u \<noteq> cmdTypeCallSP" "u_type u \<noteq> cmdTypeSelect" "u_type u \<noteq> cmdTypeCall" and n: "n < 2147483648"
    using u(2) run by (auto simp: update_ok_def dest: spec2 [of _ "map decoded_as args" "tx_work \<sigma>"])
  have "?srv \<sigma> (request FnPrepare ?as, ci) = tx_prepare upd \<sigma> ?as" for ci
    using u(2) by (subst tx_srv_request) (auto simp: update_ok_def)
  then have ans: "?srv \<sigma> (prepare_req sql ?ac, ci) = (prepare_reply (u_type u) ?h (u_params u) [], ?\<sigma>1)" for ci
    using u(1) by (simp add: prepare_req_def tx_prepare_def Let_def)
  have ok: "0 \<le> sint ?h" "u_params u \<le> length sql" "u_params u < 2147483648" using u(2) h by (auto simp: update_ok_def)
  obtain c1 where p: "Prepare ctx sql c = (Inr ?s, c1)" and c1: "serves ?srv ?\<sigma>1 c1" "same_session c c1" "c_autoCommit c1 = ?ac"
    by (rule Prepare_answered [OF srv ans ok _ _ ty(1), where ctx = ctx]) simp_all
  obtain w tcs where w: "executeRequest ?s args ?ac (c_version c) = Inr w" and tcs: "list_all2 sent_as args tcs"
    and req: "Writer_Bytes w = execute_req (c_version c) ?h (u_type u = cmdTypeSelect) ?ac tcs"
    by (rule executeRequest_sent [OF args(2,3) ty(1)])
  let ?\<sigma>2 = "tx_applied ?ac d ?\<sigma>1"
  have exec: "?srv ?\<sigma>1 (Writer_Bytes w, ci) = (update_reply (c_version c) n, ?\<sigma>2)" for ci
    unfolding req by (rule tx_execute_sent [OF tcs args(2), where sql = sql and u = u]) (simp_all add: run u(1))
  obtain c2 where rt: "roundTrip ctx (Writer_Bytes w) c1 = (Inr (NewReader (update_reply (c_version c) n)), c2)"
    and c2: "serves ?srv ?\<sigma>2 c2" "same_session c1 c2" "c_autoCommit c2 = ?ac"
    by (rule serves_roundTrip [OF c1(1), of ctx "Writer_Bytes w"]) (use c1(3) in \<open>auto simp: exec\<close>)
  obtain r where r: "parseExecute (c_version c) (NewReader (update_reply (c_version c) n)) = Inr (of_nat n, r)"
    using parseExecute_update [OF n] by blast
  have v: "c_version c1 = c_version c" "c_version c2 = c_version c" using c1(2) c2(2) by (simp_all add: same_session_def)
  have s: "?s\<lparr>st_outRow := None\<rparr> = ?s" "\<not> st_closed ?s" "st_paramCount ?s = length args" "st_cmdType ?s = u_type u" "st_handle ?s = ?h"
    using args(3) by (simp_all add: prepared_def)
  have e: "Stmt_Exec tz ctx args ?s c1 = (Inr (scast (of_nat n :: int32)), ?s, c2)"
    using w rt r s v c1(3) ty by (simp add: Stmt_Exec_def execute_def isCall_def Let_def)
  have "?srv ?\<sigma>2 (request FnCloseStatement [put_u32 ?h, [boolByte ?ac]], ci) = (put_u32 0, ?\<sigma>3)" for ci
    by (subst tx_srv_request) (auto simp: fn_codes tx_close_def tx_applied_def tx_done_def)
  then have close: "?srv ?\<sigma>2 (close_req (st_handle ?s) (c_autoCommit c2), ci) = (put_u32 0, ?\<sigma>3)" for ci
    by (simp add: close_req_def s(5) c2(3))
  obtain s' c3 where cl: "Stmt_Close contextBackground ?s c2 = (Inr (), s', c3)"
    and c3: "serves ?srv ?\<sigma>3 c3" "same_session c2 c3" "c_autoCommit c3 = ?ac"
    using Stmt_Close_answered [OF c2(1) s(2) close, where ctx = contextBackground] c2(3) by metis
  have "sql_Exec tz ctx sql nvs c = (Inr (of_nat n), c3)"
    using p e cl args(1) widened_count [OF n] by (simp add: sql_Exec_def bindC_def mapErrC_def)
  moreover have "same_session c c3" using c1(2) c2(2) c3(2) by (simp add: same_session_def)
  ultimately show ?thesis using that c3 by blast
qed

subsection \<open>Statements in a row, and the end of the transaction\<close>

fun sql_Execs :: "tzdb \<Rightarrow> ctx \<Rightarrow> (string \<times> named_value list) list \<Rightarrow> conn \<Rightarrow> (error + int64) list \<times> conn" where
  "sql_Execs tz ctx [] c = ([], c)"
| "sql_Execs tz ctx ((sql, nvs) # qs) c =
     (case sql_Exec tz ctx sql nvs c of (r, c) \<Rightarrow> (case sql_Execs tz ctx qs c of (rs, c) \<Rightarrow> (r # rs, c)))"

text \<open>What the statements mean: the updates one after the other.\<close>

definition bound_args :: "named_value list \<Rightarrow> value list" where
  "bound_args nvs = (case bindArgs nvs of Inl _ \<Rightarrow> [] | Inr args \<Rightarrow> map decoded_as args)"

definition update_of :: "'d updates \<Rightarrow> string \<times> named_value list \<Rightarrow> 'd \<Rightarrow> nat \<times> 'd" where
  "update_of upd q d = (case upd (fst q) of None \<Rightarrow> (0, d) | Some u \<Rightarrow> u_run u (bound_args (snd q)) d)"

fun run_updates :: "'d updates \<Rightarrow> (string \<times> named_value list) list \<Rightarrow> 'd \<Rightarrow> nat list \<times> 'd" where
  "run_updates upd [] d = ([], d)"
| "run_updates upd (q # qs) d = (case update_of upd q d of (n, d) \<Rightarrow> (case run_updates upd qs d of (ns, d) \<Rightarrow> (n # ns, d)))"

definition runnable :: "'d updates \<Rightarrow> string \<times> named_value list \<Rightarrow> bool" where
  "runnable upd q \<longleftrightarrow> (\<exists>u args. upd (fst q) = Some u \<and> update_ok (fst q) u \<and> bindArgs (snd q) = Inr args \<and>
     list_all arg_ok args \<and> length args = u_params u)"

lemma sql_Execs_tx:
  fixes \<sigma> :: "'d tx_state"
  assumes "serves (tx_srv tz (c_version c) upd) \<sigma> c" and "list_all (runnable upd) qs" and "tx_next \<sigma> + length qs \<le> 2147483648"
    and "\<not> c_autoCommit c" and "run_updates upd qs (tx_work \<sigma>) = (ns, d)"
  shows "\<exists>c' \<sigma>'. sql_Execs tz ctx qs c = (map (\<lambda>n. Inr (of_nat n)) ns, c') \<and> serves (tx_srv tz (c_version c) upd) \<sigma>' c' \<and>
    same_session c c' \<and> \<not> c_autoCommit c' \<and> tx_committed \<sigma>' = tx_committed \<sigma> \<and> tx_work \<sigma>' = d"
  using assms
proof (induction qs arbitrary: c \<sigma> ns)
  case Nil
  then show ?case by (auto simp: same_session_def)
next
  case (Cons q qs)
  obtain sql nvs where q: "q = (sql, nvs)" by (cases q)
  from Cons.prems(2) q obtain u args where u: "upd sql = Some u" "update_ok sql u"
    and args: "bindArgs nvs = Inr args" "list_all arg_ok args" "length args = u_params u" by (auto simp: runnable_def)
  obtain n d1 where run: "u_run u (map decoded_as args) (tx_work \<sigma>) = (n, d1)" by (cases "u_run u (map decoded_as args) (tx_work \<sigma>)")
  have one: "update_of upd q (tx_work \<sigma>) = (n, d1)" using u args run by (simp add: q update_of_def bound_args_def)
  obtain ms where rest: "run_updates upd qs d1 = (ms, d)" and ns: "ns = n # ms"
    using Cons.prems(5) one by (auto split: prod.splits)
  obtain c1 where e: "sql_Exec tz ctx sql nvs c = (Inr (of_nat n), c1)"
    and c1: "serves (tx_srv tz (c_version c) upd) (tx_done (c_autoCommit c) d1 \<sigma>) c1" "same_session c c1" "c_autoCommit c1 = c_autoCommit c"
    by (rule sql_Exec_tx [OF Cons.prems(1) u _ args run, where ctx = ctx]) (use Cons.prems(3) in simp)
  let ?\<sigma> = "tx_done (c_autoCommit c) d1 \<sigma>"
  have st: "tx_work ?\<sigma> = d1" "tx_committed ?\<sigma> = tx_committed \<sigma>" "tx_next ?\<sigma> = Suc (tx_next \<sigma>)"
    using Cons.prems(4) by (simp_all add: tx_done_def tx_applied_def)
  have v: "c_version c1 = c_version c" using c1(2) by (simp add: same_session_def)
  from Cons.IH [of c1 ?\<sigma> ms] obtain c' \<sigma>' where "sql_Execs tz ctx qs c1 = (map (\<lambda>n. Inr (of_nat n)) ms, c')"
    "serves (tx_srv tz (c_version c) upd) \<sigma>' c'" "same_session c1 c'" "\<not> c_autoCommit c'" "tx_committed \<sigma>' = tx_committed \<sigma>" "tx_work \<sigma>' = d"
    using c1 v st rest Cons.prems(2-4) by auto
  then show ?case using e c1(2) by (intro exI [of _ c'] exI [of _ \<sigma>']) (simp add: q ns same_session_def)
qed

lemma serves_autocommit: "serves srv \<sigma> c \<Longrightarrow> serves srv \<sigma> (SetAutoCommit on c)"
  by (simp add: serves_def SetAutoCommit_def Valid_def)

lemma endTransaction_tx:
  assumes "serves (tx_srv tz ver upd) \<sigma> c" and "tx_end \<sigma> [[t]] = (put_u32 0, \<sigma>')"
  obtains c' where "endTransaction ctx t c = (Inr (), c')" and "serves (tx_srv tz ver upd) \<sigma>' c'"
proof -
  define req where "req = Writer_Bytes (ArgByte (RawByte NewWriter FnEndTransaction) t)"
  have eq: "req = request FnEndTransaction [[t]]" by (simp add: req_def request_def wire_simps)
  have ans: "tx_srv tz ver upd \<sigma> (req, ci) = (put_u32 0, \<sigma>')" for ci
    unfolding eq by (subst tx_srv_request) (simp_all add: fn_codes assms(2))
  obtain c' where rt: "roundTrip ctx req c = (Inr (NewReader (put_u32 0)), c')" and c': "serves (tx_srv tz ver upd) \<sigma>' c'"
    by (rule serves_roundTrip [OF assms(1), of ctx req]) (auto simp: ans)
  have "endTransaction ctx t c = (Inr (), c')"
    using rt by (simp add: endTransaction_def bindC_def returnC_def status_only_ok Let_def flip: req_def)
  then show ?thesis using that c' by blast
qed

lemma BeginTx_tx:
  assumes "serves (tx_srv tz ver upd) \<sigma> c" and "nativeIsolation level = Some lv"
  obtains c' where "BeginTx ctx False level c = (Inr (), c')" and "serves (tx_srv tz ver upd) \<sigma> c'"
    and "same_session c c'" and "\<not> c_autoCommit c'"
proof (cases "lv = 0")
  case True
  with assms serves_autocommit [OF assms(1), of False] show ?thesis
    by (intro that [of "SetAutoCommit False c"]) (simp_all add: BeginTx_def bindC_def returnC_def same_session_def SetAutoCommit_def)
next
  case False
  let ?as = "[put_u32 1, put_u32 lv]"
  have range: "4 \<le> sint lv" "sint lv \<le> 6"
    using assms(2) False by (auto simp: nativeIsolation_def IsolationReadCommitted_def IsolationRepeatableRead_def
        IsolationSerializable_def split: if_splits)
  have ans: "tx_srv tz ver upd \<sigma> (request FnSetDBParameter ?as, ci) = (put_u32 0, \<sigma>)" for ci
    by (subst tx_srv_request) (auto simp: fn_codes)
  obtain c1 where rt: "roundTrip ctx (request FnSetDBParameter ?as) c = (Inr (NewReader (put_u32 0)), c1)"
    and c1: "serves (tx_srv tz ver upd) \<sigma> c1" "same_session c c1"
    by (rule serves_roundTrip [OF assms(1), of ctx "request FnSetDBParameter ?as"]) (auto simp: ans)
  have "SetIsolationLevel ctx lv c = (Inr (), c1)"
    using rt range by (simp add: SetIsolationLevel_eq bindC_def returnC_def status_only_ok Let_def)
  with assms(2) False serves_autocommit [OF c1(1), of False] c1(2) show ?thesis
    by (intro that [of "SetAutoCommit False c1"]) (simp_all add: BeginTx_def bindC_def mapErrC_def same_session_def SetAutoCommit_def)
qed

end
