(* ===== verification/Row_Values.thy ===== *)
theory Row_Values
  imports Query_Facts
begin

section \<open>The values of a result\<close>

text \<open>
  The native values a result can hold, whatever the server sends, and what the adapter makes of them:
  values of the types database/sql knows, with collections as slices of such values. The pass-through
  branch of \<^verbatim>\<open>toDriverValue\<close> for unanticipated types is never taken on a result.
\<close>

subsection \<open>Native values\<close>

fun wire_value :: "value \<Rightarrow> bool" where
  "wire_value VNil = True"
| "wire_value (VInt16 _) = True"
| "wire_value (VInt32 _) = True"
| "wire_value (VInt64 _) = True"
| "wire_value (VFloat32 _) = True"
| "wire_value (VFloat64 _) = True"
| "wire_value (VString _) = True"
| "wire_value (VBytes _) = True"
| "wire_value (VTime _) = True"
| "wire_value (VLob l) = (l \<noteq> None)"
| "wire_value (VSlice vs) = list_all wire_value vs"
| "wire_value _ = False"

lemma decode_wire_value:
  "decodeValue tz t data depth = Inr v \<Longrightarrow> wire_value v"
  "decodeCollection tz b depth = Inr vs \<Longrightarrow> list_all wire_value vs"
  "decodeElems tz et depth n r = Inr vs \<Longrightarrow> list_all wire_value vs"
proof (induction tz t data depth and tz b depth and tz et depth n r
    arbitrary: v and vs and vs rule: decodeValue_decodeCollection_decodeElems.induct)
  case (1 tz t data depth)
  show ?case
  proof (cases "\<exists>vs. v = VSlice vs")
    case True
    then obtain vs where v: "v = VSlice vs" by blast
    with "1.prems" have t: "t \<in> {TypeSet, TypeMultiset, TypeSequence}" and c: "decodeCollection tz data depth = Inr vs"
      by (auto simp: decodeValue.simps [of tz t data depth] bindE_Inr_iff split: if_splits)
    have "t \<in> {TypeSet, TypeMultiset, TypeSequence} \<Longrightarrow> list_all wire_value vs"
      by (rule "1.IH") (use c in \<open>auto simp: type_codes\<close>)
    with t show ?thesis by (simp only: v wire_value.simps)
  next
    case False
    with "1.prems" show ?thesis
      by (auto simp: decodeValue.simps [of tz t data depth] bindE_Inr_iff split: if_splits)
  qed
next
  case (2 tz b depth)
  then show ?case
    by (auto simp: decodeCollection.simps [of tz b depth] bindE_Inr_iff split: if_splits)
next
  case (3 tz et depth n r)
  then show ?case
    by (fastforce simp: decodeElems.simps [of tz et depth n r] bindE_Inr_iff split: if_splits)
qed

lemma bindE_result: "bindE m f = Inr v \<Longrightarrow> (\<And>x. f x = Inr v \<Longrightarrow> P) \<Longrightarrow> P"
  by (cases m) auto

lemma DecodeSelfDescribedValue_wire:
  assumes "DecodeSelfDescribedValue tz data = Inr v"
  shows "wire_value v"
proof (cases "length data = 0")
  case True
  with assms show ?thesis by (simp add: DecodeSelfDescribedValue_def)
next
  case False
  show ?thesis
    using assms unfolding DecodeSelfDescribedValue_def if_not_P [OF False]
    by (elim bindE_result) (auto simp: DecodeValue_def split: if_splits dest: decode_wire_value(1))
qed

lemma decodeCell_wire: "decodeCell tz call col data = Inr v \<Longrightarrow> wire_value v"
  by (auto simp: decodeCell_def DecodeValue_def bindE_Inr_iff Let_def split: if_splits
      dest: decode_wire_value(1) DecodeSelfDescribedValue_wire)

lemma readCell_wire: "readCell tz call col rd = Inr (v, rd') \<Longrightarrow> wire_value v"
  by (auto simp: readCell_def bindE_Inr_iff split: if_splits dest: decodeCell_wire)

lemma readCells_wire:
  "readCells tz call cols rd = Inr (row, rd') \<Longrightarrow> list_all wire_value row \<and> length row = length cols"
  by (induction cols arbitrary: rd row) (auto simp: bindE_Inr_iff dest: readCell_wire)

subsection \<open>Iterators\<close>

definition wire_rows :: "rows \<Rightarrow> bool" where
  "wire_rows r \<longleftrightarrow> (\<forall>row \<in> set (rs_tuples r). list_all wire_value row \<and> length row = length (rs_cols r))"

lemma consumeTuples_wire:
  "wire_rows r \<Longrightarrow> wire_rows (snd (consumeTuples tz n rd r)) \<and> rs_cols (snd (consumeTuples tz n rd r)) = rs_cols r"
proof (induction n arbitrary: rd r)
  case (Suc n)
  show ?case
  proof (cases "Int32 rd")
    case (Inr y)
    obtain idx rd1 where y: "y = (idx, rd1)" by (cases y)
    let ?r = "r\<lparr>rs_nextIndex := idx + 1\<rparr>"
    let ?p = "bindE (Reader_Bytes rd1 8) (\<lambda>(_, rd). readCells tz (isCall (rs_stmt ?r)) (rs_cols ?r) rd)"
    show ?thesis
    proof (cases ?p)
      case p: (Inr z)
      obtain row rd2 where z: "z = (row, rd2)" by (cases z)
      have "list_all wire_value row \<and> length row = length (rs_cols r)"
        using p z by (auto simp: bindE_Inr_iff dest: readCells_wire)
      then have "wire_rows (?r\<lparr>rs_tuples := rs_tuples ?r @ [row]\<rparr>)" using Suc.prems by (simp add: wire_rows_def)
      from Suc.IH [OF this] Inr y p z show ?thesis by simp
    qed (use Inr y Suc.prems in \<open>simp add: wire_rows_def\<close>)
  qed (use Suc.prems in simp)
qed simp

lemma consumeFetch_wire:
  assumes "wire_rows r"
  shows "wire_rows (snd (consumeFetch tz ver rd r)) \<and> rs_cols (snd (consumeFetch tz ver rd r)) = rs_cols r"
proof (cases "Int32 rd")
  case (Inr y)
  obtain n rd1 where y: "y = (n, rd1)" by (cases y)
  obtain x r1 where t: "consumeTuples tz (nat (sint n)) rd1 r = (x, r1)" by (cases "consumeTuples tz (nat (sint n)) rd1 r")
  then have "wire_rows r1 \<and> rs_cols r1 = rs_cols r" using consumeTuples_wire [OF assms, of tz "nat (sint n)" rd1] by simp
  with Inr y t show ?thesis
    by (simp add: consumeFetch_def wire_rows_def split: sum.split prod.split)
qed (use assms in \<open>simp add: consumeFetch_def\<close>)

lemma fetchNext_wire:
  assumes "wire_rows r" and "fetchNext tz ctx r c = (x, r', c')"
  shows "wire_rows r' \<and> rs_cols r' = rs_cols r"
proof -
  have "wire_rows (r\<lparr>rs_tuples := [], rs_pos := 0\<rparr>)" by (simp add: wire_rows_def)
  note F = consumeFetch_wire [OF this, of tz]
  show ?thesis
    using assms F by (auto simp: fetchNext_def split: prod.splits sum.splits) (metis snd_conv rows.select_convs)+
qed

lemma Next_wire:
  assumes "wire_rows r" and "Next tz r c = (x, r', c')"
  shows "wire_rows r' \<and> rs_cols r' = rs_cols r \<and>
    (\<forall>row. x = Inr row \<longrightarrow> list_all wire_value row \<and> length row = length (rs_cols r))"
proof (cases "rs_closed r \<or> rs_pos r < length (rs_tuples r) \<or> rs_fetchedAll r")
  case True
  with assms show ?thesis by (auto simp: Next_def wire_rows_def split: if_splits)
next
  case False
  obtain y r1 c1 where f: "fetchNext tz contextBackground r c = (y, r1, c1)" by (cases "fetchNext tz contextBackground r c")
  from fetchNext_wire [OF assms(1) this] have "wire_rows r1" "rs_cols r1 = rs_cols r" by simp_all
  with False assms(2) f show ?thesis by (auto simp: Next_def wire_rows_def split: sum.splits if_splits)
qed

lemma executeQuery_wire:
  assumes "executeQuery tz ver s rc r = Inr (rc', Some rs)"
  shows "wire_rows rs"
proof -
  let ?r = "(new_rows s rc)\<lparr>rs_nextIndex := 1\<rparr>"
  have w: "wire_rows ?r" by (simp add: wire_rows_def new_rows_def)
  show ?thesis
  proof (cases "sint rc > 0 \<and> Remaining r > 4")
    case True
    from assms obtain rd where "(case consumeFetch tz ver rd ?r of (Inl e, _) \<Rightarrow> Inl e | (Inr _, rows) \<Rightarrow> Inr (rc, Some rows)) =
        Inr (rc', Some rs)"
      unfolding executeQuery_def Let_def if_P [OF True] by (elim bindE_result) (auto split: prod.splits)
    then show ?thesis using consumeFetch_wire [OF w, of tz ver rd] by (auto split: prod.splits sum.splits)
  next
    case False
    then show ?thesis using assms w unfolding executeQuery_def Let_def if_not_P [OF False] by (auto simp: wire_rows_def)
  qed
qed

lemma executeCall_wire:
  assumes "executeCall tz ctx s rc c = (Inr (rc', Some rs), s', c')"
  shows "wire_rows rs"
proof -
  let ?r = "(new_rows s rc)\<lparr>rs_nextIndex := 1\<rparr>"
  have w: "wire_rows ?r" by (simp add: wire_rows_def new_rows_def)
  obtain y r1 c1 where f: "fetchNext tz ctx ?r c = (y, r1, c1)" by (cases "fetchNext tz ctx ?r c")
  from fetchNext_wire [OF w f] assms f show ?thesis
    by (auto simp: executeCall_def wire_rows_def Let_def split: sum.splits if_splits)
qed

lemma Stmt_Query_wire:
  assumes "Stmt_Query tz ctx args s c = (Inr rs, s', c')"
  shows "wire_rows rs"
proof (cases "\<exists>rc s1 c1. execute tz ctx args s c = (Inr (rc, Some rs), s1, c1)")
  case True
  then obtain rc s1 c1 where "execute tz ctx args s c = (Inr (rc, Some rs), s1, c1)" by blast
  then show ?thesis
    by (auto simp: execute_def Let_def dest: executeQuery_wire executeCall_wire split: if_splits sum.splits prod.splits)
next
  case False
  with assms show ?thesis
    by (auto simp: Stmt_Query_def wire_rows_def new_rows_def split: prod.splits sum.splits option.splits)
qed

subsection \<open>Driver values\<close>

text \<open>
  The types of \<^verbatim>\<open>driver.Value\<close>: nil, int64, float64, bool, []byte, string and time.Time. A collection is
  handed over as a slice of such values, which database/sql can only scan into an \<^verbatim>\<open>any\<close>.
\<close>

fun driver_value :: "value \<Rightarrow> bool" where
  "driver_value VNil = True"
| "driver_value (VInt64 _) = True"
| "driver_value (VFloat64 _) = True"
| "driver_value (VBool _) = True"
| "driver_value (VBytes _) = True"
| "driver_value (VString _) = True"
| "driver_value (VTime _) = True"
| "driver_value _ = False"

fun driver_result :: "value \<Rightarrow> bool" where
  "driver_result (VSlice vs) = list_all driver_result vs"
| "driver_result v = driver_value v"

text \<open>What a native value becomes: numbers keep their value, a locator becomes bytes, a collection stays one.\<close>

fun adapted :: "value \<Rightarrow> value \<Rightarrow> bool" where
  "adapted (VInt16 n) d = (\<exists>m. d = VInt64 m \<and> sint m = sint n)"
| "adapted (VInt32 n) d = (\<exists>m. d = VInt64 m \<and> sint m = sint n)"
| "adapted (VFloat32 w) d = (d = VFloat64 (widenFloat w))"
| "adapted (VLob l) d = (\<exists>b. d = VBytes b)"
| "adapted (VSlice vs) d = (case d of VSlice ds \<Rightarrow> list_all2 adapted vs ds | _ \<Rightarrow> False)"
| "adapted v d = (d = v)"

lemma toDriverValue_adapted:
  "toDriverValue ctx v c = (Inr dv, c') \<Longrightarrow> adapted v dv"
  "toDriverValues ctx i vs c = (Inr dvs, c') \<Longrightarrow> list_all2 adapted vs dvs"
proof (induction ctx v c and ctx i vs c arbitrary: dv c' and dvs c' rule: toDriverValue_toDriverValues.induct)
  case (1 ctx v c)
  note eq = "1.prems" [unfolded toDriverValue.simps [of ctx v c]]
  show ?case
  proof (cases "\<exists>vs. v = VSlice vs")
    case True
    then obtain vs where v: "v = VSlice vs" by blast
    from eq obtain out c1 where "toDriverValues ctx 0 vs c = (Inr out, c1)" "dv = VSlice out"
      by (auto simp: v bindC_def returnC_def split: prod.splits sum.splits)
    with "1.IH" [OF v] v show ?thesis by auto
  next
    case False
    with eq show ?thesis
      by (cases v) (auto simp: widen_int mapErrC_def bindC_def returnC_def
          split: if_splits option.splits prod.splits sum.splits elim!: mapErrR.elims)
  qed
next
  case (2 ctx i c)
  then show ?case by simp
next
  case (3 ctx i e es c)
  then show ?case by (auto split: prod.splits sum.splits)
qed

lemma toDriverRow_adapted: "toDriverRow ctx vs c = (Inr dvs, c') \<Longrightarrow> list_all2 adapted vs dvs"
proof (induction ctx vs c arbitrary: dvs c' rule: toDriverRow.induct)
  case (2 ctx v vs c)
  then show ?case
    by (auto simp: bindC_def returnC_def dest: toDriverValue_adapted(1) split: prod.splits sum.splits)
qed simp

lemma adapted_result: "adapted v d \<Longrightarrow> wire_value v \<Longrightarrow> driver_result d \<and> (driver_value d \<or> (\<exists>vs. v = VSlice vs))"
proof (induction v d rule: adapted.induct)
  case (5 vs d)
  then obtain ds where d: "d = VSlice ds" "list_all2 adapted vs ds" by (cases d) auto
  have "driver_result e" if e: "e \<in> set ds" for e
  proof -
    have "\<exists>v \<in> set vs. adapted v e" using d(2) e by (induction rule: list_all2_induct) auto
    then obtain v where "v \<in> set vs" "adapted v e" by blast
    with 5 d e show ?thesis by (auto simp: list_all_iff)
  qed
  with d show ?case by (simp add: list_all_iff)
qed auto

lemma sql_rows_Next_wire:
  assumes "wire_rows (sr_nr r)" and "sql_rows_Next tz r c = (x, r', c')"
  shows "wire_rows (sr_nr r') \<and> rs_cols (sr_nr r') = rs_cols (sr_nr r)"
proof -
  obtain y nr c1 where n: "Next tz (sr_nr r) c = (y, nr, c1)" by (cases "Next tz (sr_nr r) c")
  from Next_wire [OF assms(1) n] assms(2) n show ?thesis
    by (auto simp: sql_rows_Next_def split: sum.splits prod.splits if_splits)
qed

lemma sql_Nexts_wire:
  assumes "wire_rows (sr_nr r)" and "sql_Nexts tz n r c = (xs, r', c')"
  shows "wire_rows (sr_nr r') \<and> rs_cols (sr_nr r') = rs_cols (sr_nr r)"
  using assms
proof (induction n arbitrary: r c xs)
  case (Suc n)
  obtain x r1 c1 where x: "sql_rows_Next tz r c = (x, r1, c1)" by (cases "sql_rows_Next tz r c")
  obtain ys where ys: "sql_Nexts tz n r1 c1 = (ys, r', c')" using Suc.prems(2) x by (auto split: prod.splits)
  from sql_rows_Next_wire [OF Suc.prems(1) x] Suc.IH [OF _ ys] show ?case by simp
qed simp

text \<open>Every iterator the adapter hands out starts with wire values only.\<close>

lemma sql_Query_wire:
  assumes "sql_Query tz ctx sql nvs c = (Inr r, c')"
  shows "wire_rows (sr_nr r) \<and> length (sql_rows_Columns r) = length (rs_cols (sr_nr r))"
  using assms
  by (auto simp: sql_Query_def sql_rows_Columns_def Rows_Columns_def bindC_def dest: Stmt_Query_wire split: sum.splits prod.splits)

lemma sql_stmt_Query_wire:
  assumes "sql_stmt_Query tz ctx nvs s c = (Inr r, s', c')"
  shows "wire_rows (sr_nr r) \<and> length (sql_rows_Columns r) = length (rs_cols (sr_nr r))"
  using assms
  by (auto simp: sql_stmt_Query_def sql_rows_Columns_def Rows_Columns_def dest: Stmt_Query_wire split: sum.splits prod.splits)

end
