(* ===== verification/Driver_Properties.thy ===== *)
theory Driver_Properties
  imports Client_Properties Failover Transactions Row_Values
begin

section \<open>Properties of connecting and of the database/sql adapter\<close>

text \<open>
  Configuration, the connection sweep with its sockets, deadlines and progress, and what the adapter
  promises to database/sql: canonical values, arguments by ordinal, atomic transactions, sessions
  returned to the pool in a known state. Index grouping of the schema helpers is here as well.
\<close>

subsection \<open>Configuration\<close>

text \<open>
  C37. A DSN that is accepted yields a configuration the driver can rely on: a host, exactly one
  database name without a slash, a positive fetch size, a timeout that is not negative, and standby
  addresses in the joined form that \<^verbatim>\<open>Connect\<close> parses again without error.
\<close>

theorem dsn_accepted_ok:
  assumes "ParseDSN url_Parse dur dsn = Inr cfg"
  shows "config_ok cfg \<and> (\<exists>tgs. alt_targets (cfg_AltHosts cfg) = Inr tgs \<and>
    map (\<lambda>(h, p). JoinHostPort h (Itoa p)) tgs = cfg_AltHosts cfg)"
proof -
  have ok: "config_ok cfg" by (rule ParseDSN_ok [OF assms])
  have "\<forall>a \<in> set as. \<exists>h p. splitAltHost a = Inr (h, p) \<and> a = JoinHostPort h (Itoa p) \<Longrightarrow>
      \<exists>tgs. alt_targets as = Inr tgs \<and> map (\<lambda>(h, p). JoinHostPort h (Itoa p)) tgs = as" for as
  proof (induction as)
    case (Cons a as)
    then obtain h p tgs where "splitAltHost a = Inr (h, p)" "a = JoinHostPort h (Itoa p)"
      "alt_targets as = Inr tgs" "map (\<lambda>(h, p). JoinHostPort h (Itoa p)) tgs = as" by auto
    then show ?case by (intro exI [of _ "(h, p) # tgs"]) simp
  qed simp
  from this [of "cfg_AltHosts cfg"] ok show ?thesis by (simp add: config_ok_def)
qed

definition demo_url :: url where
  "demo_url = \<lparr>u_Scheme = ''cubrid'', u_Hostname = ''db1'', u_Port = ''99'', u_Path = ''/demodb'',
     u_User = Some (''dba'', None), u_Query = [(''fetch_size'', [''5'']), (''altHosts'', [''db2:98, [::1]:97''])]\<rparr>"

lemma demo_url_parses: "\<exists>cfg. ParseDSN (\<lambda>_. Inr demo_url) (\<lambda>_. None) ''cubrid://db1/demodb'' = Inr cfg \<and>
    cfg_AltHosts cfg = [''db2:98'', ''[::1]:97'']"
proof -
  have "(case ParseDSN (\<lambda>_. Inr demo_url) (\<lambda>_. None) ''cubrid://db1/demodb'' of
      Inl _ \<Rightarrow> False | Inr cfg \<Rightarrow> cfg_AltHosts cfg = [''db2:98'', ''[::1]:97''])" by code_simp
  then show ?thesis by (auto split: sum.splits)
qed

theorem dsn_accepted_ok_witness:
  "\<exists>cfg. ParseDSN (\<lambda>_. Inr demo_url) (\<lambda>_. None) ''cubrid://db1/demodb'' = Inr cfg \<and> config_ok cfg"
  using demo_url_parses dsn_accepted_ok by blast

text \<open>
  C38. The order in which Go's map iteration visits the DSN parameters does not matter: if one order
  is accepted, every other order is, with the same configuration.
\<close>

theorem dsn_order_irrelevant:
  assumes "url_Parse dsn = Inr u" and "ParseDSN url_Parse dur dsn = Inr cfg"
    and "mset q = mset (u_Query u)" and "distinct (map fst (u_Query u))"
  shows "ParseDSN (\<lambda>_. Inr (u\<lparr>u_Query := q\<rparr>)) dur dsn = Inr cfg"
proof -
  have "dsn_params dur q c0 = Inr cfg" if "dsn_params dur (u_Query u) c0 = Inr cfg" for c0
    by (rule dsn_params_order [OF assms(3) [symmetric] assms(4) that])
  with assms(1,2) show ?thesis
    by (auto simp: ParseDSN_def bindE_Inr_iff Let_def split: if_splits prod.splits option.splits)
qed

theorem dsn_order_irrelevant_witness:
  "\<exists>cfg. ParseDSN (\<lambda>_. Inr (demo_url\<lparr>u_Query := rev (u_Query demo_url)\<rparr>)) (\<lambda>_. None) ''cubrid://db1/demodb'' = Inr cfg \<and>
    cfg_AltHosts cfg = [''db2:98'', ''[::1]:97'']"
proof -
  obtain cfg where cfg: "ParseDSN (\<lambda>_. Inr demo_url) (\<lambda>_. None) ''cubrid://db1/demodb'' = Inr cfg"
    "cfg_AltHosts cfg = [''db2:98'', ''[::1]:97'']" using demo_url_parses by blast
  from dsn_order_irrelevant [OF refl cfg(1), of "rev (u_Query demo_url)"] cfg(2)
  show ?thesis by (simp add: demo_url_def)
qed

subsection \<open>Connecting\<close>

text \<open>The targets of a configuration, and the timeout of each attempt.\<close>

definition sweep_timeout :: "config \<Rightarrow> int" where
  "sweep_timeout cfg =
     (if cfg_AltHosts cfg \<noteq> [] \<and> cfg_ConnectTimeout cfg \<le> 0 then defaultFailoverTimeout else cfg_ConnectTimeout cfg)"

lemma Connect_sweeps:
  assumes "cfg_AltHosts cfg \<noteq> []" and "alt_targets (cfg_AltHosts cfg) = Inr alts" and "Connect net ctx cfg w = (r, w')"
  obtains fails tg cr where
    "sweeps net ctx cfg (sweep_timeout cfg) ((cfg_Host cfg, cfg_Port cfg) # alts) w fails tg cr w'"
    and "r = (case cr of None \<Rightarrow> Inl (Wrapf ''cubrid: all hosts unreachable: %w'' [] (Joined (map attempt_error fails)))
                       | Some c \<Rightarrow> Inr c)"
proof -
  let ?tgs = "(cfg_Host cfg, cfg_Port cfg) # alts"
  obtain fails tg cr where sw: "sweeps net ctx cfg (sweep_timeout cfg) ?tgs w fails tg cr
      (snd (sweep net ctx cfg (sweep_timeout cfg) ?tgs [] w))"
    and res: "fst (sweep net ctx cfg (sweep_timeout cfg) ?tgs [] w) =
      (case cr of None \<Rightarrow> Inl (map attempt_error fails) | Some c \<Rightarrow> Inr c)"
    using sweep_sweeps [of net ctx cfg "sweep_timeout cfg" ?tgs w "[]"] unfolding append_Nil by blast
  have "Connect net ctx cfg w = (case sweep net ctx cfg (sweep_timeout cfg) ?tgs [] w of
      (Inr c, w) \<Rightarrow> (Inr c, w)
    | (Inl errs, w) \<Rightarrow> (Inl (Wrapf ''cubrid: all hosts unreachable: %w'' [] (Joined errs)), w))"
    using assms(1,2) by (simp add: Connect_def sweep_timeout_def Let_def del: sweep.simps)
  with sw res assms(3) that show ?thesis
    by (cases "sweep net ctx cfg (sweep_timeout cfg) ?tgs [] w") (auto split: option.splits sum.splits simp del: sweep.simps)
qed

text \<open>
  C15. Connecting leaks no socket: when \<^verbatim>\<open>Connect\<close> fails, on whatever step of whatever attempt (dial,
  greeting, redirect, TLS, authentication), exactly the sockets that were open before are open; when
  it succeeds, exactly one more is, the one of the connection returned, which is usable, in
  autocommit mode and without a deadline. With a timeout set, every dial ran under a deadline at
  most that far ahead.
\<close>

theorem connect_leaks_no_socket:
  assumes "world_ok w" and "Connect net ctx cfg w = (r, w')"
  shows "bounded_dials net (sweep_timeout cfg) w w' \<and>
    (case r of Inl e \<Rightarrow> w_open w' = w_open w
     | Inr c \<Rightarrow> w_open w' = c_nc c # w_open w \<and> Valid c \<and> c_open c \<and> c_autoCommit c \<and> c_deadline c = None \<and> c_cfg c = cfg)"
proof (cases "cfg_AltHosts cfg = []")
  case True
  then have "connectHost net ctx cfg (cfg_Host cfg) (cfg_Port cfg) (sweep_timeout cfg) w = (r, w')"
    using assms(2) by (simp add: Connect_def sweep_timeout_def)
  from connectHost_accounted [OF assms(1) this] show ?thesis
    by (auto simp: accounted_def ready_def split: sum.splits)
next
  case False
  show ?thesis
  proof (cases "alt_targets (cfg_AltHosts cfg)")
    case (Inl e)
    with False assms(2) show ?thesis by (auto simp: Connect_def bounded_dials_refl Let_def)
  next
    case (Inr alts)
    obtain fails tg cr where sw: "sweeps net ctx cfg (sweep_timeout cfg) ((cfg_Host cfg, cfg_Port cfg) # alts) w fails tg cr w'"
      and r: "r = (case cr of None \<Rightarrow> Inl (Wrapf ''cubrid: all hosts unreachable: %w'' [] (Joined (map attempt_error fails)))
                       | Some c \<Rightarrow> Inr c)"
      by (rule Connect_sweeps [OF False Inr assms(2)])
    from sweeps_accounted [OF sw assms(1)] show ?thesis
      by (auto simp: r ready_def split: option.splits)
  qed
qed

definition refusing_net :: net where
  "refusing_net = \<lparr>n_dial = (\<lambda>_. Inr broken_peer), n_tls = (\<lambda>_ _ p. Inr p), n_clock = (\<lambda>_. 0), n_frame_dir = []\<rparr>"

definition new_world :: world where
  "new_world = \<lparr>w_dials = [], w_open = []\<rparr>"

theorem connect_leaks_no_socket_witness:
  "\<exists>e w'. Connect refusing_net contextBackground demo_cfg new_world = (Inl e, w') \<and> w_open w' = [] \<and> w_dials w' \<noteq> []"
proof -
  obtain r w' where r: "Connect refusing_net contextBackground demo_cfg new_world = (r, w')"
    by (cases "Connect refusing_net contextBackground demo_cfg new_world")
  have "(\<exists>e. r = Inl e) \<and> w_dials w' \<noteq> []"
    using r by (auto simp: Connect_def demo_cfg_def connectHost_def DialContext_def new_world_def refusing_net_def
        handshake_def bindH_def liftH_def handshake_greet_def bindC_def wrapC_def nc_Write_def new_conn_def guard_begin_def
        broken_peer_def close_socket_def Let_def)
  moreover have "world_ok new_world" by (simp add: world_ok_def new_world_def)
  from connect_leaks_no_socket [OF this r] have "\<forall>e. r = Inl e \<longrightarrow> w_open w' = []" by (auto simp: new_world_def)
  ultimately show ?thesis using r by auto
qed

text \<open>
  C16. Failover tries the primary broker first and then the standbys in the order of the
  configuration, and stops at the first that answers. The sweep is a sequence of attempts, each run
  in the state the one before left and dialling its own target first: the failed ones, which are the
  targets from the primary on with none left out, and, when a connection is returned, exactly one
  more, whose success it is. Without a connection the error lists every attempt, and a target was
  left untried only because the caller's own context had ended.
\<close>

theorem failover_in_order:
  assumes "cfg_AltHosts cfg \<noteq> []" and "alt_targets (cfg_AltHosts cfg) = Inr alts"
    and "world_ok w" and "Connect net ctx cfg w = (r, w')"
  defines "tgs \<equiv> (cfg_Host cfg, cfg_Port cfg) # alts"
  shows "\<exists>fails w1. attempts_fail net ctx cfg (sweep_timeout cfg) fails w w1 \<and> map fst fails = take (length fails) tgs \<and>
    (case r of
       Inr c \<Rightarrow> length fails < length tgs \<and> (fails \<noteq> [] \<longrightarrow> ctx_Err ctx (length (w_dials w1)) = None) \<and>
         (\<exists>host port. tgs ! length fails = (host, port) \<and> c_host c = host \<and> c_port c = port \<and>
            connectHost net ctx cfg host port (sweep_timeout cfg) w1 = (Inr c, w'))
     | Inl e \<Rightarrow> w' = w1 \<and> e = Wrapf ''cubrid: all hosts unreachable: %w'' [] (Joined (map attempt_error fails)) \<and>
         (length fails < length tgs \<longrightarrow> ctx_Err ctx (length (w_dials w')) \<noteq> None)) \<and>
    (\<exists>dss. w_dials w' = w_dials w @ concat dss \<and> list_all2 dials_of (take (length fails + (if isl r then 0 else 1)) tgs) dss)"
proof -
  obtain fails tg cr where sw: "sweeps net ctx cfg (sweep_timeout cfg) tgs w fails tg cr w'"
    and r: "r = (case cr of None \<Rightarrow> Inl (Wrapf ''cubrid: all hosts unreachable: %w'' [] (Joined (map attempt_error fails)))
                       | Some c \<Rightarrow> Inr c)"
    unfolding tgs_def by (rule Connect_sweeps [OF assms(1,2,4)])
  from sweeps_attempts [OF sw] obtain w1 where a: "attempts_fail net ctx cfg (sweep_timeout cfg) fails w w1"
    and e: "case tg of None \<Rightarrow> cr = None \<and> w' = w1
       | Some (host, port) \<Rightarrow> (fails \<noteq> [] \<longrightarrow> ctx_Err ctx (length (w_dials w1)) = None) \<and>
           (\<exists>c. cr = Some c \<and> connectHost net ctx cfg host port (sweep_timeout cfg) w1 = (Inr c, w'))" by blast
  from attempts_fail_dials [OF assms(3) a] obtain dss where w1: "world_ok w1"
    and d: "w_dials w1 = w_dials w @ concat dss" "list_all2 dials_of (map fst fails) dss" by blast
  note order = sweeps_order [OF sw]
  show ?thesis
  proof (cases tg)
    case None
    with e order r d a show ?thesis by (intro exI [of _ fails] exI [of _ w1]) auto
  next
    case (Some t)
    obtain host port where t: "t = (host, port)" by (cases t)
    from e Some t obtain c where c: "cr = Some c" "connectHost net ctx cfg host port (sweep_timeout cfg) w1 = (Inr c, w')"
      "fails \<noteq> [] \<longrightarrow> ctx_Err ctx (length (w_dials w1)) = None" by auto
    have o: "length fails < length tgs" "tgs ! length fails = (host, port)" "map fst fails = take (length fails) tgs"
      using order Some t by auto
    obtain ds where ds: "w_dials w' = w_dials w1 @ ds" "dials_of (host, port) ds"
      using connectHost_dials [OF w1 c(2)] by blast
    have "list_all2 dials_of (take (Suc (length fails)) tgs) (dss @ [ds])"
      using d(2) ds(2) o by (simp add: take_Suc_conv_app_nth list_all2_appendI)
    moreover have "c_host c = host" "c_port c = port"
      using connectHost_accounted [OF w1 c(2)] by (simp_all add: accounted_def ready_def)
    ultimately show ?thesis
      using a o c ds d(1) r by (intro exI [of _ fails] exI [of _ w1]) (auto intro!: exI [of _ "dss @ [ds]"])
  qed
qed

definition standby_cfg :: config where
  "standby_cfg = demo_cfg\<lparr>cfg_AltHosts := [''db2:98'']\<rparr>"

lemma standby_targets: "alt_targets (cfg_AltHosts standby_cfg) = Inr [(''db2'', 98)]"
  by (simp add: standby_cfg_def) code_simp

text \<open>Both brokers hang up: two attempts, both in the error, one dial each.\<close>

theorem failover_in_order_witness:
  "\<exists>e1 e2 w' dss. Connect refusing_net contextBackground standby_cfg new_world =
      (Inl (Wrapf ''cubrid: all hosts unreachable: %w''
        [] (Joined [attempt_error ((''db1'', 33000), e1), attempt_error ((''db2'', 98), e2)])), w') \<and>
    w_dials w' = concat dss \<and> list_all2 dials_of [(''db1'', 33000), (''db2'', 98)] dss"
proof -
  let ?tgs = "[(''db1'', 33000), (''db2'', 98 :: int)]"
  obtain r w' where r: "Connect refusing_net contextBackground standby_cfg new_world = (r, w')"
    by (cases "Connect refusing_net contextBackground standby_cfg new_world")
  have no: "connectHost refusing_net ctx cfg host port t w \<noteq> (Inr c, w')" for ctx cfg host port t w c w'
    by (simp add: connectHost_def DialContext_def refusing_net_def handshake_def bindH_def liftH_def handshake_greet_def
        bindC_def wrapC_def nc_Write_def new_conn_def guard_begin_def broken_peer_def Let_def)
  have ok: "cfg_AltHosts standby_cfg \<noteq> []" "world_ok new_world" and tgs: "(cfg_Host standby_cfg, cfg_Port standby_cfg) = (''db1'', 33000)"
    by (simp_all add: standby_cfg_def demo_cfg_def world_ok_def new_world_def)
  note order = failover_in_order [OF ok(1) standby_targets ok(2) r, unfolded tgs]
  obtain e where e: "r = Inl e" using order no by (cases r) auto
  have alive: "ctx_Err contextBackground t = None" for t by (simp add: contextBackground_def)
  from order obtain fails dss where "map fst fails = take (length fails) ?tgs" "\<not> length fails < length ?tgs"
    "e = Wrapf ''cubrid: all hosts unreachable: %w'' [] (Joined (map attempt_error fails))"
    "w_dials w' = w_dials new_world @ concat dss" "list_all2 dials_of (take (length fails) ?tgs) dss"
    unfolding e alive by (auto simp del: take_Suc_Cons)
  moreover from arg_cong [OF calculation(1), of length] calculation(2) have "length fails = 2" by simp
  ultimately have f: "map fst fails = ?tgs" "length fails = 2" "w_dials w' = concat dss" "list_all2 dials_of ?tgs dss"
    "r = Inl (Wrapf ''cubrid: all hosts unreachable: %w'' [] (Joined (map attempt_error fails)))"
    by (simp_all add: e new_world_def)
  then obtain e1 e2 where "fails = [((''db1'', 33000), e1), ((''db2'', 98), e2)]"
    by (auto simp: numeral_2_eq_2 length_Suc_conv)
  with f r show ?thesis by auto
qed

text \<open>
  C10. Failover gets through: as long as the caller's context does not end, \<^verbatim>\<open>Connect\<close> returns a
  connection whenever one of the configured brokers is live, that is, accepts the dial, answers the
  greeting (itself or with a redirect to a port that accepts a dial), completes TLS where it is asked
  for, and admits the login; the connection is to that broker or to one listed before it.
\<close>

theorem failover_reaches_live_broker:
  assumes "alt_targets (cfg_AltHosts cfg) = Inr alts" and "world_ok w" and "\<And>t. ctx_Err ctx t = None"
    and "i \<le> length alts" and "((cfg_Host cfg, cfg_Port cfg) # alts) ! i = (host, port)" and "live_broker net cfg host port"
  shows "\<exists>c w' j. Connect net ctx cfg w = (Inr c, w') \<and> Valid c \<and> j \<le> i \<and>
    (c_host c, c_port c) = ((cfg_Host cfg, cfg_Port cfg) # alts) ! j"
proof (cases "cfg_AltHosts cfg = []")
  case True
  then have i: "i = 0" "host = cfg_Host cfg" "port = cfg_Port cfg" using assms(1,4,5) by auto
  obtain c w' where c: "connectHost net ctx cfg host port (cfg_ConnectTimeout cfg) w = (Inr c, w')"
    by (rule connectHost_live [OF assms(6)])
  from connectHost_accounted [OF assms(2) c] c True i show ?thesis
    by (auto simp: Connect_def accounted_def ready_def)
next
  case False
  let ?tgs = "(cfg_Host cfg, cfg_Port cfg) # alts"
  obtain r w' where r: "Connect net ctx cfg w = (r, w')" by (cases "Connect net ctx cfg w")
  obtain fails tg cr where sw: "sweeps net ctx cfg (sweep_timeout cfg) ?tgs w fails tg cr w'"
    and cr: "r = (case cr of None \<Rightarrow> Inl (Wrapf ''cubrid: all hosts unreachable: %w'' [] (Joined (map attempt_error fails)))
                       | Some c \<Rightarrow> Inr c)"
    by (rule Connect_sweeps [OF False assms(1) r])
  have "cr \<noteq> None" and len: "length fails \<le> i"
    using sweeps_live [OF sw assms(3), of i] assms(4-6) by simp_all
  then obtain c where c: "cr = Some c" by auto
  from sweeps_accounted [OF sw assms(2)] c obtain h p where "tg = Some (h, p)" "ready cfg h p c" by auto
  moreover from this sweeps_order [OF sw] have "?tgs ! length fails = (h, p)" by simp
  ultimately show ?thesis using r cr c len
    by (intro exI [of _ c] exI [of _ w'] exI [of _ "length fails"]) (simp add: ready_def)
qed

text \<open>A network whose primary refuses every dial and whose standby redirects to a CAS port.\<close>

definition cas_peer :: peer where
  "cas_peer sent = Delivered (WriteRequest (reply_bytes 7 (replicate 8 0) 0 (replicate 20 0)) [0, 0, 0, 0]) EOF"

definition standby_net :: net where
  "standby_net = \<lparr>n_dial = (\<lambda>ds. if fst (last ds) = ''db2:98'' then Inr (\<lambda>_. Delivered (put_u32 35) EOF)
      else if fst (last ds) = ''db2:35'' then Inr cas_peer else Inl (NetError ''connection refused'')),
    n_tls = (\<lambda>_ _ p. Inr p), n_clock = (\<lambda>_. 0), n_frame_dir = []\<rparr>"

lemma standby_live: "live_broker standby_net standby_cfg ''db2'' 98"
proof -
  have a: "JoinHostPort ''db2'' (Itoa 98) = ''db2:98''" "JoinHostPort ''db2'' (Itoa 35) = ''db2:35''" "length (Itoa 98) = 2"
    by code_simp+
  obtain db where "auth_block standby_cfg ''db2'' 98 = Inr db"
    using a(3) by (simp add: auth_block_def DBInfo_def DBInfo_put_def standby_cfg_def demo_cfg_def Let_def)
  moreover have "admits db cas_peer []" for db
    unfolding admits_def cas_peer_def by (intro exI conjI; (rule refl | simp))
  then have "secures standby_net standby_cfg ''db2'' db cas_peer []" for db
    by (simp add: secures_def standby_cfg_def demo_cfg_def)
  ultimately show ?thesis
    unfolding live_broker_def
    by (intro exI [of _ db] exI [of _ "\<lambda>_. Delivered (put_u32 35) EOF"] exI [of _ 35] exI [of _ EOF])
      (auto simp: dials_to_def standby_net_def a intro!: exI [of _ cas_peer])
qed

theorem failover_reaches_live_broker_witness:
  "\<exists>c w' j. Connect standby_net contextBackground standby_cfg new_world = (Inr c, w') \<and> Valid c \<and> j \<le> 1 \<and>
    (c_host c, c_port c) = [(''db1'', 33000), (''db2'', 98)] ! j"
proof -
  have "world_ok new_world" by (simp add: world_ok_def new_world_def)
  then show ?thesis
    using standby_targets failover_reaches_live_broker [of standby_cfg "[(''db2'', 98)]" new_world contextBackground 1 "''db2''" 98 standby_net]
      standby_live by (simp add: contextBackground_def standby_cfg_def demo_cfg_def)
qed

subsection \<open>The adapter\<close>

text \<open>
  C34. Whatever a server sends, every value of every row a query hands to database/sql is of a type
  it knows: nil, int64, float64, bool, []byte, string or time.Time. Only the value of a collection
  column is something else, a slice of such values, which \<^verbatim>\<open>toDriverValue\<close> documents. Integers keep
  their value, locators arrive as bytes, and the row is as wide as the column list. This holds for
  every iterator \<^verbatim>\<open>Query\<close> returns, on the connection and on a statement, after any number of calls of
  \<^verbatim>\<open>Next\<close>, whatever happens to the connection in between; so the pass-through branch of
  \<^verbatim>\<open>toDriverValue\<close> is never taken for a result.
\<close>

theorem driver_values_canonical:
  assumes "sql_Query tz ctx sql nvs c = (Inr r, c1) \<or> sql_stmt_Query tz ctx nvs s c = (Inr r, s', c1)"
    and "sql_Nexts tz n r c2 = (outs, r1, c3)" and "sql_rows_Next tz r1 c4 = (Inr dvs, r2, c5)"
  shows "length dvs = length (sql_rows_Columns r) \<and>
    (\<exists>row nr c6. Next tz (sr_nr r1) c4 = (Inr row, nr, c6) \<and>
      list_all2 (\<lambda>v d. adapted v d \<and> driver_result d \<and> (driver_value d \<or> (\<exists>vs. v = VSlice vs))) row dvs)"
proof -
  have "wire_rows (sr_nr r) \<and> length (sql_rows_Columns r) = length (rs_cols (sr_nr r))"
    using assms(1) sql_Query_wire sql_stmt_Query_wire by blast
  with sql_Nexts_wire [OF _ assms(2)] have w: "wire_rows (sr_nr r1)" "length (sql_rows_Columns r) = length (rs_cols (sr_nr r1))"
    by auto
  from assms(3) obtain row nr c6 where n: "Next tz (sr_nr r1) c4 = (Inr row, nr, c6)"
    and t: "toDriverRow (sr_ctx r1) row c6 = (Inr dvs, c5)"
    by (auto simp: sql_rows_Next_def split: prod.splits sum.splits)
  have row: "list_all wire_value row" "length row = length (rs_cols (sr_nr r1))" using Next_wire [OF w(1) n] by simp_all
  have a: "list_all2 adapted row dvs" by (rule toDriverRow_adapted [OF t])
  then have "list_all2 (\<lambda>v d. adapted v d \<and> driver_result d \<and> (driver_value d \<or> (\<exists>vs. v = VSlice vs))) row dvs"
    using row(1) by (induction rule: list_all2_induct) (auto dest: adapted_result)
  then show ?thesis using n row(2) w(2) list_all2_lengthD [OF a] by auto
qed

theorem driver_values_canonical_witness:
  "\<exists>r c1 r2 c2. sql_Query (\<lambda>_. None) contextBackground ''select n from t'' [] (demo_conn (srv_peer (int_srv [10, 20]) db_init)) =
      (Inr r, c1) \<and> sql_rows_Next (\<lambda>_. None) r c1 = (Inr [VInt64 10], r2, c2) \<and> length (sql_rows_Columns r) = 1"
proof -
  obtain r c1 r2 c2 where q: "sql_Query (\<lambda>_. None) contextBackground ''select n from t'' [] (demo_conn (srv_peer (int_srv [10, 20]) db_init)) =
      (Inr r, c1)" and n: "sql_rows_Next (\<lambda>_. None) r c1 = (Inr [VInt64 10], r2, c2)"
    by (rule int_query_first [of "[20]" 10]) (simp, simp)
  from driver_values_canonical [OF disjI1 [OF q] _ n, of 0 c1] q n show ?thesis by auto
qed

text \<open>
  Arguments are bound by their ordinal, in whatever order they come: when every argument is
  unnamed and the ordinals are the numbers from 1 to the number of arguments, each value stands at
  its place; the legacy positional form binds its values as they are.
\<close>

lemma bind_by_ordinal:
  assumes "ordinals_ok args"
  shows "\<exists>vals. bindArgs args = Inr vals \<and> length vals = length args \<and>
    (\<forall>a \<in> set args. vals ! nat (nv_Ordinal a - 1) = nv_Value a) \<and> bindArgs (valuesToNamed vals) = Inr vals"
proof -
  have legacy: "bindArgs (valuesToNamed vals) = Inr vals" for vals
    using bindArgsLoop_values [of "replicate (length vals) VNil" "length vals" 0 vals]
    by (simp add: bindArgs_def valuesToNamed_def)
  from assms bindArgsLoop_ok [of args "length args" "replicate (length args) VNil"]
  obtain vals where "bindArgsLoop (length args) (replicate (length args) VNil) args = Inr vals" "length vals = length args"
    "\<forall>a \<in> set args. vals ! nat (nv_Ordinal a - 1) = nv_Value a"
    by (auto simp: ordinals_ok_def)
  then show ?thesis using legacy by (intro exI [of _ vals]) (simp add: bindArgs_def)
qed

lemma roundTrip_open:
  assumes "roundTrip ctx p c = (Inr r, c')"
  shows "c_open c"
  using assms
  by (auto simp: roundTrip_def roundTrip_io_def nc_Write_def guard_begin_def Let_def split: if_splits prod.splits)

text \<open>
  C4. A database/sql transaction is atomic. Against a transactional server, \<^verbatim>\<open>BeginTx\<close> at any supported
  isolation level followed by any statements leaves what is committed untouched while every statement
  returns its own number of affected rows, computed on the effects of those before it; \<^verbatim>\<open>Commit\<close> then
  makes exactly their combined effect permanent, \<^verbatim>\<open>Rollback\<close> discards all of it, and after either the
  connection is back in autocommit mode with no transaction open.
\<close>

theorem transaction_atomic:
  assumes srv: "serves (tx_srv tz (c_version c) upd) \<sigma> c" and idle: "tx_work \<sigma> = tx_committed \<sigma>"
    and level: "nativeIsolation level = Some lv"
    and qs: "list_all (runnable upd) qs" "tx_next \<sigma> + length qs \<le> 2147483648"
    and run: "run_updates upd qs (tx_committed \<sigma>) = (ns, d)"
  shows "\<exists>c1 c2 \<sigma>2 c3 \<sigma>3 c4 \<sigma>4. BeginTx ctx False level c = (Inr (), c1) \<and>
    sql_Execs tz ctx qs c1 = (map (\<lambda>n. Inr (of_nat n)) ns, c2) \<and>
    serves (tx_srv tz (c_version c) upd) \<sigma>2 c2 \<and> tx_committed \<sigma>2 = tx_committed \<sigma> \<and>
    tx_Commit c2 = (Inr (), c3) \<and> serves (tx_srv tz (c_version c) upd) \<sigma>3 c3 \<and> c_autoCommit c3 \<and>
    tx_committed \<sigma>3 = d \<and> tx_work \<sigma>3 = d \<and>
    tx_Rollback c2 = (Inr (), c4) \<and> serves (tx_srv tz (c_version c) upd) \<sigma>4 c4 \<and> c_autoCommit c4 \<and>
    tx_committed \<sigma>4 = tx_committed \<sigma> \<and> tx_work \<sigma>4 = tx_committed \<sigma>"
proof -
  let ?srv = "tx_srv tz (c_version c) upd"
  obtain c1 where b: "BeginTx ctx False level c = (Inr (), c1)" and c1: "serves ?srv \<sigma> c1" "same_session c c1" "\<not> c_autoCommit c1"
    by (rule BeginTx_tx [OF srv level])
  have v: "c_version c1 = c_version c" using c1(2) by (simp add: same_session_def)
  obtain c2 \<sigma>2 where e: "sql_Execs tz ctx qs c1 = (map (\<lambda>n. Inr (of_nat n)) ns, c2)" and c2: "serves ?srv \<sigma>2 c2"
    and w: "tx_committed \<sigma>2 = tx_committed \<sigma>" "tx_work \<sigma>2 = d"
    using sql_Execs_tx [OF c1(1) [folded v] qs c1(3), of ns d ctx] run idle v by auto
  have cend: "tx_end \<sigma>2 [[tranCommit]] = (put_u32 0, \<sigma>2\<lparr>tx_committed := tx_work \<sigma>2\<rparr>)"
    and rend: "tx_end \<sigma>2 [[tranRollback]] = (put_u32 0, \<sigma>2\<lparr>tx_work := tx_committed \<sigma>2\<rparr>)"
    by (simp_all add: tx_end_def tranCommit_def tranRollback_def)
  obtain c3 where "endTransaction contextBackground tranCommit c2 = (Inr (), c3)" "serves ?srv (\<sigma>2\<lparr>tx_committed := tx_work \<sigma>2\<rparr>) c3"
    by (rule endTransaction_tx [OF c2 cend])
  then have cm: "tx_Commit c2 = (Inr (), SetAutoCommit True c3)" "serves ?srv (\<sigma>2\<lparr>tx_committed := tx_work \<sigma>2\<rparr>) (SetAutoCommit True c3)"
    by (simp_all add: tx_Commit_def Commit_def serves_autocommit)
  obtain c4 where "endTransaction contextBackground tranRollback c2 = (Inr (), c4)" "serves ?srv (\<sigma>2\<lparr>tx_work := tx_committed \<sigma>2\<rparr>) c4"
    by (rule endTransaction_tx [OF c2 rend])
  then have rb: "tx_Rollback c2 = (Inr (), SetAutoCommit True c4)" "serves ?srv (\<sigma>2\<lparr>tx_work := tx_committed \<sigma>2\<rparr>) (SetAutoCommit True c4)"
    by (simp_all add: tx_Rollback_def Rollback_def serves_autocommit)
  show ?thesis
    using b e c2 w cm rb
    by (intro exI [of _ c1] exI [of _ c2] exI [of _ \<sigma>2] exI [of _ "SetAutoCommit True c3"] exI [of _ "\<sigma>2\<lparr>tx_committed := tx_work \<sigma>2\<rparr>"]
        exI [of _ "SetAutoCommit True c4"] exI [of _ "\<sigma>2\<lparr>tx_work := tx_committed \<sigma>2\<rparr>"]) (simp add: SetAutoCommit_def)
qed

text \<open>A table of values with an INSERT.\<close>

definition insert_updates :: "value list updates" where
  "insert_updates = [''insert into t values (?)'' \<mapsto>
     \<lparr>u_type = cmdTypeInsert, u_params = 1, u_run = (\<lambda>vs d. (1, d @ vs))\<rparr>]"

definition empty_table :: "value list tx_state" where
  "empty_table = \<lparr>tx_next = 1, tx_open = Map.empty, tx_committed = [], tx_work = []\<rparr>"

lemma insert_serves: "serves (tx_srv tz 12 insert_updates) \<sigma> (demo_conn (srv_peer (tx_srv tz 12 insert_updates) \<sigma>))"
proof (rule demo_serves)
  fix \<sigma> and q :: "bytes \<times> bytes"
  have "length (prepare_reply ty h n []) \<le> maxPayloadSize" "length (update_reply 12 n) \<le> maxPayloadSize" for ty h n
    by (simp_all add: prepare_reply_def update_reply_def maxPayloadSize_def)
  then show "length (fst (tx_srv tz 12 insert_updates \<sigma> q)) \<le> maxPayloadSize"
    by (auto simp: tx_srv_def tx_prepare_def tx_execute_def tx_close_def tx_end_def db_refusal_def maxPayloadSize_def Let_def
        split: list.split option.split prod.split)
qed

theorem transaction_atomic_witness:
  "\<exists>c1 c2 c3 \<sigma>3 c4 \<sigma>4. BeginTx contextBackground False 6 (demo_conn (srv_peer (tx_srv (\<lambda>_. None) 12 insert_updates) empty_table)) = (Inr (), c1) \<and>
    sql_Execs (\<lambda>_. None) contextBackground [(''insert into t values (?)'', valuesToNamed [VInt32 5]),
      (''insert into t values (?)'', valuesToNamed [VInt32 6])] c1 = ([Inr 1, Inr 1], c2) \<and>
    tx_Commit c2 = (Inr (), c3) \<and> serves (tx_srv (\<lambda>_. None) 12 insert_updates) \<sigma>3 c3 \<and> tx_committed \<sigma>3 = [VInt32 5, VInt32 6] \<and>
    tx_Rollback c2 = (Inr (), c4) \<and> serves (tx_srv (\<lambda>_. None) 12 insert_updates) \<sigma>4 c4 \<and> tx_committed \<sigma>4 = []"
proof -
  let ?qs = "[(''insert into t values (?)'', valuesToNamed [VInt32 5]), (''insert into t values (?)'', valuesToNamed [VInt32 6])]"
  define c where "c = demo_conn (srv_peer (tx_srv (\<lambda>_. None) 12 insert_updates) empty_table)"
  have v: "c_version c = 12" by (simp add: c_def)
  have srv: "serves (tx_srv (\<lambda>_. None) (c_version c) insert_updates) empty_table c" unfolding v by (simp add: c_def insert_serves)
  have b: "bindArgs (valuesToNamed [VInt32 n]) = Inr [VInt32 n]" for n by (simp add: bindArgs_def valuesToNamed_def)
  have 1: "list_all (runnable insert_updates) ?qs"
    by (simp add: runnable_def insert_updates_def update_ok_def b cmd_types arg_ok_def scalar_def)
  have 2: "run_updates insert_updates ?qs (tx_committed empty_table) = ([1, 1], [VInt32 5, VInt32 6])"
    by (simp add: update_of_def insert_updates_def bound_args_def b empty_table_def)
  have 3: "nativeIsolation 6 = Some IsolationSerializable" by (simp add: nativeIsolation_def)
  have 4: "tx_work empty_table = tx_committed empty_table" "tx_next empty_table + length ?qs \<le> 2147483648" by (simp_all add: empty_table_def)
  have 5: "tx_committed empty_table = []" by (simp add: empty_table_def)
  from transaction_atomic [OF srv 4(1) 3 1 4(2) 2, of contextBackground] show ?thesis
    unfolding v 5 c_def [symmetric] by (simp only: list.map of_nat_1) blast
qed

text \<open>
  What \<^verbatim>\<open>ResetSession\<close> does with any connection when it succeeds: it goes by the client's own autocommit
  flag, sends nothing when that is set and exactly a ROLLBACK when it is not, and leaves a usable
  connection in autocommit mode.
\<close>

lemma reset_session_sends:
  assumes "ResetSession ctx c = (Inr (), c')"
  shows "Valid c' \<and> c_autoCommit c' \<and>
    c_sent c' = c_sent c @ (if c_autoCommit c then []
      else [WriteRequest (request FnEndTransaction [[tranRollback]]) (requestCasInfo c)])"
proof (cases "c_autoCommit c")
  case True
  with assms show ?thesis by (auto simp: ResetSession_def AutoCommit_def split: if_splits)
next
  case False
  let ?p = "Writer_Bytes (ArgByte (RawByte NewWriter FnEndTransaction) tranRollback)"
  from assms False obtain c1 where rb: "Rollback ctx c = (Inr (), c1)" and c': "c' = SetAutoCommit True c1" and v: "Valid c"
    by (auto simp: ResetSession_def AutoCommit_def split: if_splits prod.splits sum.splits)
  from rb obtain r where rt: "roundTrip ctx ?p c = (Inr r, c1)"
    by (auto simp: Rollback_def endTransaction_def Let_def bindC_def returnC_def split: prod.splits sum.splits)
  have "c_sent c1 = c_sent c @ [WriteRequest ?p (requestCasInfo c)]"
    using roundTrip_sends [OF v roundTrip_open [OF rt], of ctx ?p] rt by simp
  moreover have "?p = request FnEndTransaction [[tranRollback]]" by (simp add: request_def wire_simps)
  ultimately show ?thesis using ResetSession_neutral [OF assms] False by (simp add: c' SetAutoCommit_def)
qed

text \<open>
  C24. \<^verbatim>\<open>ResetSession\<close> undoes a transaction that was begun and neither committed nor rolled back.
  Against a transactional server, a connection in autocommit mode is handed out again as it is, with
  nothing sent. After \<^verbatim>\<open>BeginTx\<close> and any statements, \<^verbatim>\<open>ResetSession\<close> sends exactly one request, a
  ROLLBACK; then the server's working data are the committed data of before \<^verbatim>\<open>BeginTx\<close> again, and the
  connection is usable and in autocommit mode. The decision is made on the client's autocommit flag
  and not on the server's state: C25 is the case where the two differ.
\<close>

theorem reset_session_neutral:
  assumes srv: "serves (tx_srv tz (c_version c) upd) \<sigma> c" and idle: "tx_work \<sigma> = tx_committed \<sigma>" "c_autoCommit c"
    and level: "nativeIsolation level = Some lv"
    and qs: "list_all (runnable upd) qs" "tx_next \<sigma> + length qs \<le> 2147483648"
    and run: "run_updates upd qs (tx_committed \<sigma>) = (ns, d)"
  shows "ResetSession ctx' c = (Inr (), c) \<and>
    (\<exists>c1 c2 \<sigma>2 c3 \<sigma>3. BeginTx ctx False level c = (Inr (), c1) \<and>
      sql_Execs tz ctx qs c1 = (map (\<lambda>n. Inr (of_nat n)) ns, c2) \<and>
      serves (tx_srv tz (c_version c) upd) \<sigma>2 c2 \<and> tx_work \<sigma>2 = d \<and>
      ResetSession ctx' c2 = (Inr (), c3) \<and>
      c_sent c3 = c_sent c2 @ [WriteRequest (request FnEndTransaction [[tranRollback]]) (requestCasInfo c2)] \<and>
      Valid c3 \<and> c_autoCommit c3 \<and> serves (tx_srv tz (c_version c) upd) \<sigma>3 c3 \<and>
      tx_work \<sigma>3 = tx_committed \<sigma> \<and> tx_committed \<sigma>3 = tx_committed \<sigma>)"
proof -
  let ?srv = "tx_srv tz (c_version c) upd"
  have usable: "Valid c" using srv by (simp add: serves_def)
  obtain c1 where b: "BeginTx ctx False level c = (Inr (), c1)" and c1: "serves ?srv \<sigma> c1" "same_session c c1" "\<not> c_autoCommit c1"
    by (rule BeginTx_tx [OF srv level])
  have v: "c_version c1 = c_version c" using c1(2) by (simp add: same_session_def)
  obtain c2 \<sigma>2 where e: "sql_Execs tz ctx qs c1 = (map (\<lambda>n. Inr (of_nat n)) ns, c2)" and c2: "serves ?srv \<sigma>2 c2" "\<not> c_autoCommit c2"
    and w: "tx_committed \<sigma>2 = tx_committed \<sigma>" "tx_work \<sigma>2 = d"
    using sql_Execs_tx [OF c1(1) [folded v] qs c1(3), of ns d ctx] run idle(1) v by auto
  let ?\<sigma> = "\<sigma>2\<lparr>tx_work := tx_committed \<sigma>2\<rparr>"
  have rend: "tx_end \<sigma>2 [[tranRollback]] = (put_u32 0, ?\<sigma>)" by (simp add: tx_end_def tranRollback_def)
  obtain c3 where "endTransaction ctx' tranRollback c2 = (Inr (), c3)" and c3: "serves ?srv ?\<sigma> c3"
    by (rule endTransaction_tx [OF c2(1) rend])
  then have r: "ResetSession ctx' c2 = (Inr (), SetAutoCommit True c3)"
    using c2 by (simp add: ResetSession_def AutoCommit_def Rollback_def serves_def)
  have "ResetSession ctx' c = (Inr (), c)" using usable idle(2) by (simp add: ResetSession_def AutoCommit_def)
  with b e c2 w r reset_session_sends [OF r] serves_autocommit [OF c3, of True] show ?thesis
    by (intro conjI exI [of _ c1] exI [of _ c2] exI [of _ \<sigma>2] exI [of _ "SetAutoCommit True c3"] exI [of _ ?\<sigma>]) simp_all
qed

theorem reset_session_neutral_witness:
  "\<exists>c1 c2 \<sigma>2 c3 \<sigma>3. BeginTx contextBackground False 6 (demo_conn (srv_peer (tx_srv (\<lambda>_. None) 12 insert_updates) empty_table)) = (Inr (), c1) \<and>
    sql_Execs (\<lambda>_. None) contextBackground [(''insert into t values (?)'', valuesToNamed [VInt32 5])] c1 = ([Inr 1], c2) \<and>
    serves (tx_srv (\<lambda>_. None) 12 insert_updates) \<sigma>2 c2 \<and> tx_work \<sigma>2 = [VInt32 5] \<and>
    ResetSession contextBackground c2 = (Inr (), c3) \<and> c_autoCommit c3 \<and>
    serves (tx_srv (\<lambda>_. None) 12 insert_updates) \<sigma>3 c3 \<and> tx_work \<sigma>3 = []"
proof -
  let ?qs = "[(''insert into t values (?)'', valuesToNamed [VInt32 5])]"
  define c where "c = demo_conn (srv_peer (tx_srv (\<lambda>_. None) 12 insert_updates) empty_table)"
  have v: "c_version c = 12" "c_autoCommit c" by (simp_all add: c_def)
  have srv: "serves (tx_srv (\<lambda>_. None) (c_version c) insert_updates) empty_table c" unfolding v by (simp add: c_def insert_serves)
  have b: "bindArgs (valuesToNamed [VInt32 5]) = Inr [VInt32 5]" by (simp add: bindArgs_def valuesToNamed_def)
  have 1: "list_all (runnable insert_updates) ?qs"
    by (simp add: runnable_def insert_updates_def update_ok_def b cmd_types arg_ok_def scalar_def)
  have 2: "run_updates insert_updates ?qs (tx_committed empty_table) = ([1], [VInt32 5])"
    by (simp add: update_of_def insert_updates_def bound_args_def b empty_table_def)
  have 3: "nativeIsolation 6 = Some IsolationSerializable" by (simp add: nativeIsolation_def)
  have 4: "tx_work empty_table = tx_committed empty_table" "tx_next empty_table + length ?qs \<le> 2147483648" by (simp_all add: empty_table_def)
  have 5: "tx_committed empty_table = []" by (simp add: empty_table_def)
  from reset_session_neutral [OF srv 4(1) v(2) 3 1 4(2) 2, of contextBackground contextBackground, THEN conjunct2] show ?thesis
    unfolding v(1) 5 c_def [symmetric] by (simp only: list.map of_nat_1) blast
qed

text \<open>
  C25. A COMMIT the server refuses is not rolled back by the pool: \<^verbatim>\<open>Commit\<close> reports the error but
  switches the connection to autocommit all the same, so the following \<^verbatim>\<open>ResetSession\<close> sees no
  transaction, sends nothing, and returns the session, whose transaction the server has not ended,
  to the pool as neutral.
\<close>

theorem refused_commit_not_rolled_back:
  assumes "Commit contextBackground c = (Inl e, c1)" and "Valid c1"
  shows "\<exists>c2. tx_Commit c = (Inl (mapErr e), c2) \<and> ResetSession ctx c2 = (Inr (), c2) \<and> c_sent c2 = c_sent c1"
  using assms by (simp add: tx_Commit_def ResetSession_def AutoCommit_def SetAutoCommit_def Valid_def)

definition refusal :: bytes where
  "refusal = put_u32 (-1) @ put_u32 (-966) @ [0]"

theorem refused_commit_not_rolled_back_witness:
  "\<exists>c2. tx_Commit ((const_conn refusal)\<lparr>c_autoCommit := False\<rparr>) = (Inl (ServerError (-966) []), c2) \<and>
    ResetSession contextBackground c2 = (Inr (), c2)"
proof -
  let ?c = "(const_conn refusal)\<lparr>c_autoCommit := False\<rparr>"
  have "serves (const_srv refusal) () (const_conn refusal)"
    by (rule const_serves) (simp add: refusal_def maxPayloadSize_def)
  then have srv: "serves (const_srv refusal) () ?c" by (simp add: serves_def Valid_def)
  define p where "p = Writer_Bytes (ArgByte (RawByte NewWriter FnEndTransaction) tranCommit)"
  obtain c1 where rt: "roundTrip contextBackground p ?c = (Inr (NewReader refusal), c1)" and s1: "serves (const_srv refusal) () c1"
    by (rule const_serves_roundTrip [OF srv, of contextBackground p])
  have "status_only (NewReader refusal) = Inl (ServerError (-966) [])"
    by (simp add: status_only_def ReadStatus_eq refusal_def trimNul.simps Let_def)
  with rt have "Commit contextBackground ?c = (Inl (ServerError (-966) []), c1)"
    by (simp add: Commit_def endTransaction_def bindC_def returnC_def Let_def flip: p_def)
  from refused_commit_not_rolled_back [OF this] serves_usable [OF s1]
  show ?thesis by (auto simp: mapErr_def)
qed

subsection \<open>Index listings\<close>

lemma index_columns_zip:
  "map (\<lambda>i. (ix_Name i, ix_Columns i)) (index_columns out idxCols) =
    zip (map ix_Name out) (map (\<lambda>kcs. map fst (sort_key snd kcs)) idxCols)"
  by (simp add: index_columns_def zip_map_map split_def)

lemma index_fold_parts:
  assumes "foldE indexes_row ([], [], Map.empty) rows = Inr (out, idxCols, byName)"
  shows "map ix_Name out = index_names rows" and "idxCols = map (index_keys rows) (index_names rows)"
    and "\<And>name i. byName name = Some i \<longleftrightarrow> i < length (index_names rows) \<and> index_names rows ! i = name"
  using indexes_fold_ok [OF assms] by (simp_all add: index_acc_ok_def)

lemma index_columns_names:
  assumes "foldE indexes_row ([], [], Map.empty) rows = Inr (out, idxCols, byName)"
  shows "map ix_Name (index_columns out idxCols) = index_names rows"
proof -
  have len: "length (map ix_Name out) = length (map (\<lambda>kcs. map fst (sort_key snd kcs)) idxCols)"
    by (simp only: index_fold_parts [OF assms] length_map)
  have "map ix_Name (index_columns out idxCols) = map fst (map (\<lambda>i. (ix_Name i, ix_Columns i)) (index_columns out idxCols))"
    by (simp add: comp_def)
  also have "\<dots> = map ix_Name out" unfolding index_columns_zip using len by (rule map_fst_zip)
  finally show ?thesis by (simp only: index_fold_parts(1) [OF assms])
qed

text \<open>
  C39. The constraint rows are grouped as documented: one index per index name, in order of first
  appearance, with the columns of its rows in key order, rows of equal key order (and rows that do
  not carry one) keeping the order in which the server sent them.
\<close>

theorem index_grouping:
  assumes "foldE indexes_row ([], [], Map.empty) rows = Inr (out, idxCols, byName)"
  shows "map (\<lambda>i. (ix_Name i, ix_Columns i)) (index_columns out idxCols) =
    map (\<lambda>name. (name, map fst (sort_key snd (index_keys rows name)))) (index_names rows)"
  unfolding index_columns_zip index_fold_parts(1,2) [OF assms]
  by (simp add: zip_map2 zip_same_conv_map comp_def)

definition constraint_rows :: "value list list" where
  "constraint_rows =
     [[VInt16 0, VString ''u1'', VString ''b'', VNil, VNil, VInt16 0, VInt32 2],
      [VInt16 1, VString ''i2'', VString ''c'', VNil, VNil, VInt16 0, VInt32 1],
      [VInt16 0, VString ''u1'', VString ''a'', VNil, VNil, VInt16 0, VInt32 1]]"

lemma constraint_rows_fold:
  obtains out idxCols byName where
    "foldE indexes_row ([], [], Map.empty) constraint_rows = Inr (out, idxCols, byName)"
  by (simp add: constraint_rows_def indexes_row_def int_or_def Let_def)

theorem index_grouping_witness:
  "\<exists>out idxCols byName. foldE indexes_row ([], [], Map.empty) constraint_rows = Inr (out, idxCols, byName) \<and>
    map (\<lambda>i. (ix_Name i, ix_Columns i)) (index_columns out idxCols) = [(''u1'', [''a'', ''b'']), (''i2'', [''c''])]"
proof -
  obtain out idxCols byName where
    f: "foldE indexes_row ([], [], Map.empty) constraint_rows = Inr (out, idxCols, byName)"
    by (rule constraint_rows_fold)
  have "index_names constraint_rows = [''u1'', ''i2'']"
    "sort_key snd (index_keys constraint_rows ''u1'') = [(''a'', 1), (''b'', 2)]"
    "sort_key snd (index_keys constraint_rows ''i2'') = [(''c'', 1)]"
    by (simp_all add: index_names_def index_keys_def row_key_def row_index_def int_or_def constraint_rows_def)
  with index_grouping [OF f] f show ?thesis by auto
qed

text \<open>
  The primary key is listed exactly once: in the merged listing all index names differ, and when
  the table has a primary key (rows of sibling tables that the pattern request also matched do not
  count) an index of its name is there, marked primary and unique.
\<close>

lemma primary_key_listed_once:
  assumes "foldE indexes_row ([], [], Map.empty) rows = Inr (out, idxCols, byName)"
    and "own = sort_key (\<lambda>k. sint (kc_Seq k)) (filter (\<lambda>k. kc_Table k = unqualifyName table) pk)"
    and "result = merge_primary table (index_columns out idxCols) byName pk"
  shows "distinct (map ix_Name result) \<and>
    (own \<noteq> [] \<longrightarrow> (\<exists>i \<in> set result. ix_Name i = kc_KeyName (hd own) \<and> ix_IsPrimary i \<and> ix_Unique i))"
proof -
  let ?out = "index_columns out idxCols"
  have names: "map ix_Name ?out = index_names rows" by (rule index_columns_names [OF assms(1)])
  then have len: "length ?out = length (index_names rows)" by (metis length_map)
  show ?thesis
  proof (cases "own = []")
    case True
    then have "filter (\<lambda>k. kc_Table k = unqualifyName table) pk = []" using assms(2) by (metis length_0_conv length_sort)
    then show ?thesis using True names by (simp add: assms(3) merge_primary_def)
  next
    case False
    then have ne: "filter (\<lambda>k. kc_Table k = unqualifyName table) pk \<noteq> []" using assms(2) by auto
    let ?name = "kc_KeyName (hd own)"
    show ?thesis
    proof (cases "byName ?name")
      case (Some i)
      then have i: "i < length ?out" "index_names rows ! i = ?name" using index_fold_parts(3) [OF assms(1)] len by auto
      let ?e = "(?out ! i)\<lparr>ix_IsPrimary := True, ix_Unique := True\<rparr>"
      have r: "result = ?out[i := ?e]"
        using Some ne by (simp add: assms(3) merge_primary_def assms(2) [symmetric] Let_def)
      have nm: "ix_Name (?out ! i) = ?name" using i names by (metis nth_map)
      have "map ix_Name result = index_names rows"
        using list_update_id [of "index_names rows" i] i(2) nm by (simp add: r map_update names)
      moreover have "?e \<in> set result" using i(1) by (simp add: r set_update_memI)
      ultimately show ?thesis using nm by (intro conjI impI bexI [of _ ?e]) simp_all
    next
      case None
      then have new: "?name \<notin> set (index_names rows)"
        using index_fold_parts(3) [OF assms(1)] by (metis in_set_conv_nth option.distinct(1))
      have "result = \<lparr>ix_Name = ?name, ix_Unique = True, ix_Columns = map kc_Column own, ix_IsPrimary = True\<rparr> # ?out"
        using None ne by (simp add: assms(3) merge_primary_def assms(2) [symmetric] Let_def)
      then show ?thesis using new by (simp add: names)
    qed
  qed
qed

end
