(* ===== verification/Fake_Broker.thy ===== *)
theory Fake_Broker
  imports Connect_Facts
begin

section \<open>The scripted broker (internal/prototest/fakebroker.go)\<close>

text \<open>
  The in-process broker the client is tested against. Its state is the queues of scripted responses
  by function code, the requests seen and the handshake fields. A session is a coroutine over the
  bytes of its socket: it is blocked in an \<^verbatim>\<open>io.ReadFull\<close> of a known size until that many bytes have
  arrived, then runs to the next one. \<open>session_run\<close> runs it as far as the bytes received allow.
  Creating the listener and the certificate happens outside: their outcomes are arguments.
\<close>

record fake_broker =
  fb_addr :: string
  fb_queues :: "byte \<Rightarrow> bytes list"
  fb_requests :: "bytes list"
  fb_greeting :: bytes
  fb_tlsConf :: "bytes option"
  fb_BrokerInfo :: bytes
  fb_CASPid :: int32

definition FB_Start :: "error + string \<Rightarrow> error + fake_broker" where
  "FB_Start listen = bindE listen (\<lambda>addr. Inr
     \<lparr>fb_addr = addr, fb_queues = (\<lambda>_. []), fb_requests = [], fb_greeting = [], fb_tlsConf = None,
      fb_BrokerInfo = [0, 1, 1, 0, 0x4C, 0, 0, 0], fb_CASPid = 4242\<rparr>)"

definition Addr :: "fake_broker \<Rightarrow> string" where
  "Addr f = fb_addr f"

definition SetProtocolVersion :: "int \<Rightarrow> fake_broker \<Rightarrow> fake_broker" where
  "SetProtocolVersion v f =
     f\<lparr>fb_BrokerInfo := (fb_BrokerInfo f)[4 := 0x40 OR word_of_int (v AND 0x3F)]\<rparr>"

text \<open>\<open>cert\<close> is what key generation and \<^verbatim>\<open>x509.CreateCertificate\<close> yield.\<close>

definition EnableTLS :: "error + bytes \<Rightarrow> fake_broker \<Rightarrow> error + fake_broker" where
  "EnableTLS cert f = bindE cert (\<lambda>der. Inr (f\<lparr>fb_tlsConf := Some der\<rparr>))"

definition Queue :: "byte \<Rightarrow> bytes \<Rightarrow> fake_broker \<Rightarrow> fake_broker" where
  "Queue fn payload f = f\<lparr>fb_queues := (fb_queues f)(fn := fb_queues f fn @ [payload])\<rparr>"

definition FB_Greeting :: "fake_broker \<Rightarrow> bytes" where
  "FB_Greeting f = fb_greeting f"

definition Requests :: "fake_broker \<Rightarrow> bytes list" where
  "Requests f = fb_requests f"

subsection \<open>Sessions\<close>

definition writeFrame :: "bytes \<Rightarrow> bytes" where
  "writeFrame payload =
     (let hdr = replicate 8 0;
          hdr = copy_into hdr 0 4 (put_u32 (of_nat (length payload)));
          hdr = hdr[4 := 1]
      in hdr @ payload)"

datatype session = ReadGreeting | TLSHandshake | ReadDBInfo | ReadHeader | ReadPayload nat | SessionClosed

fun needs :: "session \<Rightarrow> nat option" where
  "needs ReadGreeting = Some 10"
| "needs TLSHandshake = None"
| "needs ReadDBInfo = Some 628"
| "needs ReadHeader = Some 8"
| "needs (ReadPayload n) = Some n"
| "needs SessionClosed = None"

text \<open>The body of a session between two reads: what it writes, where it blocks next.\<close>

definition session_greeted :: "bytes \<Rightarrow> fake_broker \<Rightarrow> bytes \<times> session \<times> fake_broker" where
  "session_greeted greeting f =
     (let f = f\<lparr>fb_greeting := greeting\<rparr>;
          ssl = (take 5 greeting = string_bytes ''CUBRS'')
      in if ssl \<and> fb_tlsConf f = None then (put_u32 (- 10103), SessionClosed, f)
         else (put_u32 0, if ssl then TLSHandshake else ReadDBInfo, f))"

definition session_authenticated :: "fake_broker \<Rightarrow> bytes \<times> session \<times> fake_broker" where
  "session_authenticated f =
     (writeFrame (put_u32 (fb_CASPid f) @ fb_BrokerInfo f @ put_u32 7 @ replicate 20 0), ReadHeader, f)"

definition fb_reply :: "bytes \<Rightarrow> fake_broker \<Rightarrow> bytes \<times> fake_broker" where
  "fb_reply payload f =
     (let fn = hd payload;
          f = f\<lparr>fb_requests := fb_requests f @ [payload]\<rparr>
      in case fb_queues f fn of
           resp # q \<Rightarrow> (resp, f\<lparr>fb_queues := (fb_queues f)(fn := q)\<rparr>)
         | [] \<Rightarrow> ([0, 0, 0, 0], f))"

definition session_request :: "bytes \<Rightarrow> fake_broker \<Rightarrow> bytes \<times> session \<times> fake_broker" where
  "session_request payload f =
     (if payload = [] then ([], SessionClosed, f)
      else case fb_reply payload f of
        (resp, f) \<Rightarrow> (writeFrame resp, if hd payload = 31 then SessionClosed else ReadHeader, f))"

fun resume :: "session \<Rightarrow> bytes \<Rightarrow> fake_broker \<Rightarrow> bytes \<times> session \<times> fake_broker" where
  "resume ReadGreeting b f = session_greeted b f"
| "resume ReadDBInfo b f = session_authenticated f"
| "resume ReadHeader b f = ([], ReadPayload (unat (get_u32 (take 4 b))), f)"
| "resume (ReadPayload n) b f = session_request b f"
| "resume s b f = ([], s, f)"

lemma session_request_state: "(out, s, f') = session_request p f \<Longrightarrow> s = SessionClosed \<or> s = ReadHeader"
  by (auto simp: session_request_def split: if_splits prod.splits)

function session_run :: "session \<Rightarrow> bytes \<Rightarrow> fake_broker \<Rightarrow> bytes \<times> session \<times> bytes \<times> fake_broker" where
  "session_run s buf f =
     (case needs s of
        None \<Rightarrow> ([], s, buf, f)
      | Some n \<Rightarrow>
          if length buf < n then ([], s, buf, f)
          else case resume s (take n buf) f of
            (out, s', f') \<Rightarrow>
              (case session_run s' (drop n buf) f' of (out', r) \<Rightarrow> (out @ out', r)))"
  by pat_completeness auto
termination
proof (relation "measures [\<lambda>(s, buf, f). length buf, \<lambda>(s, buf, f). case s of ReadPayload _ \<Rightarrow> 1 | _ \<Rightarrow> 0]", goal_cases)
  case (2 s buf f n)
  then show ?case by (cases s) (auto dest!: session_request_state)
qed simp

declare session_run.simps [simp del]

text \<open>The socket of a session as the client's peer; a read that nothing answers fails with \<open>idle\<close>.\<close>

type_synonym fb_state = "session \<times> bytes \<times> fake_broker"

definition fb_feed :: "fb_state \<Rightarrow> bytes \<Rightarrow> bytes \<times> fb_state" where
  "fb_feed st b = (case st of (s, buf, f) \<Rightarrow> session_run s (buf @ b) f)"

definition fb_after :: "fb_state \<Rightarrow> bytes list \<Rightarrow> fb_state" where
  "fb_after st sent = foldl (\<lambda>st b. snd (fb_feed st b)) st sent"

definition fb_peer :: "error \<Rightarrow> fb_state \<Rightarrow> peer" where
  "fb_peer idle st sent =
     (case fb_feed (fb_after st (butlast sent)) (last sent) of
        (out, st') \<Rightarrow> Delivered out (if fst st' = SessionClosed then EOF else idle))"

subsection \<open>Response payloads\<close>

type_synonym resp_writer = bytes

definition RW_B :: "resp_writer \<Rightarrow> byte \<Rightarrow> resp_writer" where
  "RW_B w v = w @ [v]"

definition RW_I16 :: "resp_writer \<Rightarrow> int16 \<Rightarrow> resp_writer" where
  "RW_I16 w v = w @ put_u16 v"

definition RW_I32 :: "resp_writer \<Rightarrow> int32 \<Rightarrow> resp_writer" where
  "RW_I32 w v = w @ put_u32 v"

definition RW_I64 :: "resp_writer \<Rightarrow> int64 \<Rightarrow> resp_writer" where
  "RW_I64 w v = w @ put_u64 v"

definition RW_Str :: "resp_writer \<Rightarrow> string \<Rightarrow> resp_writer" where
  "RW_Str w s = w @ put_u32 (of_nat (length s + 1)) @ string_bytes s @ [0]"

definition RW_Raw :: "resp_writer \<Rightarrow> bytes \<Rightarrow> resp_writer" where
  "RW_Raw w p = w @ p"

subsection \<open>How bytes are cut into reads does not matter\<close>

lemma session_run_append:
  "session_run s (a @ b) f =
    (case session_run s a f of (out, s', buf, f') \<Rightarrow>
       (case session_run s' (buf @ b) f' of (out', r) \<Rightarrow> (out @ out', r)))"
proof (induction s a f rule: session_run.induct)
  case (1 s a f)
  show ?case
  proof (cases "\<exists>n. needs s = Some n \<and> n \<le> length a")
    case True
    then obtain n where n: "needs s = Some n" "n \<le> length a" by blast
    obtain out s' f' where r: "resume s (take n a) f = (out, s', f')" by (cases "resume s (take n a) f")
    from 1 n r have ih: "session_run s' (drop n a @ b) f' =
      (case session_run s' (drop n a) f' of (out, s', buf, f') \<Rightarrow>
         (case session_run s' (buf @ b) f' of (out', r) \<Rightarrow> (out @ out', r)))" by simp
    have l: "session_run s (a @ b) f = (case session_run s' (drop n a @ b) f' of (o1, r) \<Rightarrow> (out @ o1, r))"
      using n r by (subst session_run.simps) simp
    have "session_run s a f = (case session_run s' (drop n a) f' of (o1, r) \<Rightarrow> (out @ o1, r))"
      using n r by (subst session_run.simps) simp
    with l ih show ?thesis by (simp split: prod.split)
  next
    case False
    then have "session_run s a f = ([], s, a, f)"
      by (subst session_run.simps) (auto split: option.split)
    then show ?thesis by (simp split: prod.split)
  qed
qed

lemma fb_feed_append:
  "fb_feed st (a @ b) = (case fb_feed st a of (out, st') \<Rightarrow> (case fb_feed st' b of (out', r) \<Rightarrow> (out @ out', r)))"
proof -
  obtain s buf f where st: "st = (s, buf, f)" by (cases st)
  show ?thesis
    unfolding fb_feed_def st prod.case append_assoc [symmetric] session_run_append [of s "buf @ a"]
    by (auto split: prod.split)
qed

end
