(* ===== verification/Fake_Broker_Facts.thy ===== *)
theory Fake_Broker_Facts
  imports Fake_Broker
begin

section \<open>Facts about the scripted broker\<close>

text \<open>
  A request on a connection to the broker is one reply of its script, the script is described by
  position, the client's handshake with the broker is run to its end in plain text and over TLS, and
  what \<^verbatim>\<open>RespWriter\<close> writes is what \<^verbatim>\<open>Reader\<close> reads.
\<close>

subsection \<open>Serving requests\<close>

lemma writeFrame_eq: "writeFrame payload = WriteRequest payload [1, 0, 0, 0]"
proof -
  have "copy_into (replicate 8 0) 0 4 (put_u32 n) = put_u32 n @ [0, 0, 0, 0]" for n
    by (simp add: copy_into_def Let_def flip: replicate_add) (simp add: numeral_eq_Suc)
  then show ?thesis by (simp add: writeFrame_def WriteRequest_def Let_def list_update_append)
qed

definition request_ok :: "bytes \<Rightarrow> bool" where
  "request_ok p \<longleftrightarrow> p \<noteq> [] \<and> hd p \<noteq> 31 \<and> length p < 2 ^ 32"

lemma session_run_blocked: "needs s = Some (Suc n) \<Longrightarrow> session_run s [] f = ([], s, [], f)"
  by (subst session_run.simps) simp

lemma session_run_request:
  assumes "request_ok p" and "length ci = 4"
  shows "session_run ReadHeader (WriteRequest p ci) f =
    (writeFrame (fst (fb_reply p f)), ReadHeader, [], snd (fb_reply p f))"
proof -
  have n: "unat (of_nat (length p) :: int32) = length p"
    using assms(1) by (simp add: request_ok_def unat_of_nat)
  have "session_run ReadHeader (WriteRequest p ci) f = session_run (ReadPayload (length p)) p f"
    using assms(2) by (subst session_run.simps) (simp add: WriteRequest_def n)
  also have "\<dots> = (writeFrame (fst (fb_reply p f)), ReadHeader, [], snd (fb_reply p f))"
    using assms(1)
    by (subst session_run.simps) (simp add: request_ok_def session_request_def session_run_blocked split: prod.split)
  finally show ?thesis .
qed

definition fb_connected :: "fake_broker \<Rightarrow> conn \<Rightarrow> bool" where
  "fb_connected f c \<longleftrightarrow> Valid c \<and> c_open c \<and> s_in (c_br c) = [] \<and>
     (\<exists>idle st. c_peer c = fb_peer idle st \<and> fb_after st (c_sent c) = (ReadHeader, [], f))"

lemma fb_connectedI:
  "Valid c \<Longrightarrow> c_open c \<Longrightarrow> s_in (c_br c) = [] \<Longrightarrow> c_peer c = fb_peer idle st \<Longrightarrow>
    fb_after st (c_sent c) = (ReadHeader, [], f) \<Longrightarrow> fb_connected f c"
  unfolding fb_connected_def by blast

definition replies_fit :: "fake_broker \<Rightarrow> bool" where
  "replies_fit f \<longleftrightarrow> (\<forall>fn. \<forall>b \<in> set (fb_queues f fn). length b \<le> maxPayloadSize)"

lemma fb_reply_fits: "replies_fit f \<Longrightarrow> length (fst (fb_reply p f)) \<le> maxPayloadSize \<and> replies_fit (snd (fb_reply p f))"
  unfolding replies_fit_def fb_reply_def Let_def
  by (cases "fb_queues f (hd p)") (auto simp: maxPayloadSize_def dest!: spec [of _ "hd p"])

lemma fb_after_snoc: "fb_after st (sent @ [b]) = snd (fb_feed (fb_after st sent) b)"
  by (simp add: fb_after_def)

text \<open>A request on a connection to the broker is one reply of its script.\<close>

lemma fb_roundTrip:
  assumes "fb_connected f c" and "replies_fit f" and "request_ok p"
  obtains c' where "roundTrip ctx p c = (Inr (NewReader (fst (fb_reply p f))), c')"
    and "fb_connected (snd (fb_reply p f)) c'" and "replies_fit (snd (fb_reply p f))"
    and "same_session c c'"
proof -
  let ?q = "(p, requestCasInfo c)"
  from assms(1) obtain idle st where V: "Valid c" "c_open c" "s_in (c_br c) = []"
    and peer: "c_peer c = fb_peer idle st" and st: "fb_after st (c_sent c) = (ReadHeader, [], f)"
    by (auto simp: fb_connected_def)
  have run: "fb_feed (ReadHeader, [], f) (frame ?q) =
      (WriteRequest (fst (fb_reply p f)) [1, 0, 0, 0], ReadHeader, [], snd (fb_reply p f))"
    using session_run_request [OF assms(3), of "requestCasInfo c" f]
    by (simp add: fb_feed_def frame_def writeFrame_eq)
  have deliv: "c_peer c (c_sent c @ [frame ?q]) = Delivered (WriteRequest (fst (fb_reply p f)) [1, 0, 0, 0]) idle"
    by (simp add: peer fb_peer_def st run)
  have st': "fb_after st (c_sent c @ [frame ?q]) = (ReadHeader, [], snd (fb_reply p f))"
    by (simp add: fb_after_snoc st run)
  note fits = fb_reply_fits [OF assms(2), of p]
  show ?thesis
    by (rule roundTrip_delivered [OF V _ conjunct1 [OF fits] deliv, of ctx])
       (simp, rule that, use fits st' peer in \<open>auto intro: fb_connectedI\<close>)
qed

fun fb_script :: "fake_broker \<Rightarrow> bytes list \<Rightarrow> bytes list \<times> fake_broker" where
  "fb_script f [] = ([], f)"
| "fb_script f (p # ps) =
     (case fb_reply p f of (r, f) \<Rightarrow> (case fb_script f ps of (rs, f) \<Rightarrow> (r # rs, f)))"

lemma fb_roundTrips:
  assumes "fb_connected f c" and "replies_fit f" and "list_all request_ok ps"
  obtains c' where "roundTrips ctx ps c = (map (Inr \<circ> NewReader) (fst (fb_script f ps)), c')"
    and "fb_connected (snd (fb_script f ps)) c'"
  using assms
proof (induction ps arbitrary: f c thesis)
  case (Cons p ps)
  from Cons.prems(4) have p: "request_ok p" and ps: "list_all request_ok ps" by simp_all
  obtain c1 where r: "roundTrip ctx p c = (Inr (NewReader (fst (fb_reply p f))), c1)"
    and c1: "fb_connected (snd (fb_reply p f)) c1" and fit: "replies_fit (snd (fb_reply p f))"
    by (rule fb_roundTrip [OF Cons.prems(2,3) p, of ctx])
  obtain c2 where "roundTrips ctx ps c1 = (map (Inr \<circ> NewReader) (fst (fb_script (snd (fb_reply p f)) ps)), c2)"
    and "fb_connected (snd (fb_script (snd (fb_reply p f)) ps)) c2"
    by (rule Cons.IH [OF _ c1 fit ps])
  with r show ?case by (intro Cons.prems(1)) (auto split: prod.split)
qed simp

text \<open>
  The script by position: the \<open>k\<close>-th request with a function code gets the \<open>k\<close>-th response queued
  for it, and the generic OK status when there are no more.
\<close>

definition scripted :: "(byte \<Rightarrow> bytes list) \<Rightarrow> bytes list \<Rightarrow> nat \<Rightarrow> bytes" where
  "scripted queues ps i =
     (let fn = hd (ps ! i); k = length (filter (\<lambda>p. hd p = fn) (take i ps))
      in if k < length (queues fn) then queues fn ! k else [0, 0, 0, 0])"

lemma fb_reply_eq:
  assumes "fb_reply p f = (r, f')"
  shows "fb_queues f' = (fb_queues f)(hd p := tl (fb_queues f (hd p)))"
    and "fb_requests f' = fb_requests f @ [p]" and "r = scripted (fb_queues f) (p # ps) 0"
  using assms by (cases "fb_queues f (hd p)"; force simp: fb_reply_def scripted_def Let_def)+

lemma fb_script_greeting: "fb_greeting (snd (fb_script f ps)) = fb_greeting f"
proof (induction ps arbitrary: f)
  case (Cons p ps)
  have "fb_greeting (snd (fb_reply p f)) = fb_greeting f"
    by (simp add: fb_reply_def Let_def split: list.split)
  with Cons show ?case by (simp split: prod.split) (metis snd_conv)
qed simp

lemma scripted_Suc:
  "scripted queues (p # ps) (Suc i) = scripted (queues(hd p := tl (queues (hd p)))) ps i"
  by (auto simp: scripted_def Let_def nth_tl)

lemma fb_script_eq:
  "fst (fb_script f ps) = map (scripted (fb_queues f) ps) [0..<length ps] \<and>
   Requests (snd (fb_script f ps)) = Requests f @ ps"
proof (induction ps arbitrary: f)
  case (Cons p ps)
  let ?q = "fb_queues f"
  obtain r f' where r: "fb_reply p f = (r, f')" by (cases "fb_reply p f")
  note reply = fb_reply_eq [OF r]
  obtain rs f'' where s: "fb_script f' ps = (rs, f'')" by (cases "fb_script f' ps")
  have "map (scripted ?q (p # ps)) [0..<length (p # ps)] =
      scripted ?q (p # ps) 0 # map (\<lambda>i. scripted ?q (p # ps) (Suc i)) [0..<length ps]"
    by (rule nth_equalityI) (auto simp: nth_Cons simp del: upt_Suc split: nat.split)
  also have "\<dots> = r # rs"
    unfolding scripted_Suc reply(3) [of ps, symmetric] reply(1) [symmetric] using Cons [of f'] by (simp add: s)
  finally have "fst (fb_script f (p # ps)) = map (scripted ?q (p # ps)) [0..<length (p # ps)]"
    by (simp add: r s)
  moreover have "Requests (snd (fb_script f (p # ps))) = Requests f @ p # ps"
    using Cons [of f'] by (simp add: r s Requests_def reply(2))
  ultimately show ?case ..
qed (simp add: Requests_def)

subsection \<open>The handshake with the broker\<close>

lemma Greeting_bytes:
  "Greeting ssl = string_bytes (if ssl then ''CUBRS'' else ''CUBRK'') @ [3, 0x4C, 0xC0, 0, 0]"
proof -
  have "Greeting True = string_bytes ''CUBRS'' @ [3, 0x4C, 0xC0, 0, 0]"
    and "Greeting False = string_bytes ''CUBRK'' @ [3, 0x4C, 0xC0, 0, 0]" by code_simp+
  then show ?thesis by (cases ssl) simp_all
qed

lemma fb_feed_greeting:
  "fb_feed (ReadGreeting, [], f) (Greeting ssl) =
    (if ssl \<and> fb_tlsConf f = None then (put_u32 (- 10103), SessionClosed, [], f\<lparr>fb_greeting := Greeting ssl\<rparr>)
     else (put_u32 0, if ssl then TLSHandshake else ReadDBInfo, [], f\<lparr>fb_greeting := Greeting ssl\<rparr>))"
proof -
  define g where "g = Greeting ssl"
  have len: "length g = 10" and head: "take 5 g = string_bytes (if ssl then ''CUBRS'' else ''CUBRK'')"
    by (simp_all add: g_def Greeting_bytes)
  have "string_bytes ''CUBRK'' \<noteq> string_bytes ''CUBRS''" by code_simp
  with head have is_ssl: "take 5 g = string_bytes ''CUBRS'' \<longleftrightarrow> ssl" by auto
  have block: "session_run SessionClosed [] f' = ([], SessionClosed, [], f')"
    "session_run TLSHandshake [] f' = ([], TLSHandshake, [], f')" for f'
    by (subst session_run.simps, simp)+
  show ?thesis
    unfolding g_def [symmetric] fb_feed_def prod.case append_Nil
    using len is_ssl
    by (subst session_run.simps)
       (simp add: session_greeted_def Let_def block session_run_blocked [of ReadDBInfo 627])
qed

text \<open>The reply the broker writes carries the CAS id whatever version it advertises.\<close>

definition fake_session_id :: "bytes \<Rightarrow> bytes" where
  "fake_session_id bi = (if ProtocolVersion bi = 3 then put_u32 7 @ replicate 16 0 else replicate 20 0)"

lemma ParseConnectReply_fake:
  assumes "0 \<le> sint pid" and "length bi = 8"
  shows "ParseConnectReply (put_u32 pid @ bi @ put_u32 7 @ replicate 20 0) = Inr
    \<lparr>cr_CASPid = pid, cr_Broker = bi, cr_Version = ProtocolVersion bi,
     cr_CASID = (if ProtocolVersion bi \<ge> 4 then 7 else 0), cr_SessionID = fake_session_id bi\<rparr>"
  using assms
  by (auto simp: ParseConnectReply_def ReadStatus_eq Reader_Bytes_def Reader_take_eq fake_session_id_def
      ParseBrokerInfo_def AtLeast_def proto_versions Int32_eq Remaining_eq SessionIDSize_def Let_def)

lemma fb_feed_dbInfo:
  assumes "length db = 628"
  shows "fb_feed (ReadDBInfo, [], f) db =
    (WriteRequest (put_u32 (fb_CASPid f) @ fb_BrokerInfo f @ put_u32 7 @ replicate 20 0) [1, 0, 0, 0],
     ReadHeader, [], f)"
  unfolding fb_feed_def prod.case append_Nil using assms
  by (subst session_run.simps)
     (simp add: session_authenticated_def writeFrame_eq session_run_blocked [of ReadHeader 7])

lemma nc_Write_fb:
  assumes "c_open c" and "c_peer c = fb_peer idle st" and "fb_feed (fb_after st (c_sent c)) b = (out, st')"
  shows "nc_Write b c = (Inr (), c\<lparr>c_sent := c_sent c @ [b],
      c_br := \<lparr>s_in = s_in (c_br c) @ out, s_end = if fst st' = SessionClosed then EOF else idle\<rparr>\<rparr>)"
    and "fb_after st (c_sent c @ [b]) = st'"
  using assms by (simp_all add: nc_Write_def fb_peer_def fb_after_snoc Let_def)

lemma handshake_greet_fb:
  assumes "c_open c" and "c_peer c = fb_peer idle (ReadGreeting, [], f)" and "c_sent c = []" and "s_in (c_br c) = []"
  obtains e where "handshake_greet c =
    (Inr (if cfg_SSL (c_cfg c) \<and> fb_tlsConf f = None then - 10103 else 0),
     c\<lparr>c_sent := [Greeting (cfg_SSL (c_cfg c))], c_br := \<lparr>s_in = [], s_end = e\<rparr>\<rparr>)"
proof -
  let ?g = "Greeting (cfg_SSL (c_cfg c))"
  let ?code = "(if cfg_SSL (c_cfg c) \<and> fb_tlsConf f = None then - 10103 else 0) :: int32"
  obtain st' where "fb_feed (ReadGreeting, [], f) ?g = (put_u32 ?code, st')"
    by (cases "cfg_SSL (c_cfg c) \<and> fb_tlsConf f = None") (auto simp: fb_feed_greeting)
  then have "fb_feed (fb_after (ReadGreeting, [], f) (c_sent c)) ?g = (put_u32 ?code, st')"
    by (simp add: assms(3) fb_after_def)
  from nc_Write_fb(1) [OF assms(1,2) this] obtain e where
    "nc_Write ?g c = (Inr (), c\<lparr>c_sent := [?g], c_br := \<lparr>s_in = put_u32 ?code, s_end = e\<rparr>\<rparr>)"
    by (simp add: assms(3,4))
  then have "handshake_greet c = (Inr ?code, c\<lparr>c_sent := [?g], c_br := \<lparr>s_in = [], s_end = e\<rparr>\<rparr>)"
    by (simp add: handshake_greet_def bindC_def wrapC_def read_int32_def ReadFull_def)
  then show ?thesis by (rule that)
qed

definition auth_fields_fit :: "config \<Rightarrow> string \<Rightarrow> int \<Rightarrow> bool" where
  "auth_fields_fit cfg host port \<longleftrightarrow>
     length (cfg_Database cfg) < 32 \<and> length (cfg_User cfg) < 32 \<and> length (cfg_Password cfg) < 32 \<and>
     length (''cubrid://'' @ cfg_User cfg @ ''@'' @ host @ '':'' @ Itoa port @ ''/'' @ cfg_Database cfg) < 512"

definition broker_ok :: "fake_broker \<Rightarrow> bool" where
  "broker_ok f \<longleftrightarrow> 0 \<le> sint (fb_CASPid f) \<and> length (fb_BrokerInfo f) = 8 \<and> replies_fit f"

text \<open>The session parameters the handshake takes from the broker.\<close>

definition session_of :: "fake_broker \<Rightarrow> conn \<Rightarrow> bool" where
  "session_of f c \<longleftrightarrow> c_version c = ProtocolVersion (fb_BrokerInfo f) \<and> c_broker c = fb_BrokerInfo f \<and>
     c_casPid c = fb_CASPid f \<and> c_sessionID c = fake_session_id (fb_BrokerInfo f)"

lemma handshake_auth_fb:
  assumes "c_open c" and "c_peer c = fb_peer idle st" and "fb_after st (c_sent c) = (ReadDBInfo, [], f)"
    and "s_in (c_br c) = []" and "auth_fields_fit (c_cfg c) (c_host c) (c_port c)" and "broker_ok f"
  obtains c' where "handshake_auth c = (Inr (), c')" and "session_of f c'" and "c_peer c' = fb_peer idle st"
    and "fb_after st (c_sent c') = (ReadHeader, [], f)" and "s_in (c_br c') = []"
proof -
  let ?cfg = "c_cfg c"
  let ?url = "''cubrid://'' @ cfg_User ?cfg @ ''@'' @ c_host c @ '':'' @ Itoa (c_port c) @ ''/'' @ cfg_Database ?cfg"
  let ?pl = "put_u32 (fb_CASPid f) @ fb_BrokerInfo f @ put_u32 7 @ replicate 20 0"
  have small: "length ?pl \<le> maxPayloadSize" using assms(6) by (simp add: broker_ok_def maxPayloadSize_def)
  obtain db where db: "DBInfo (cfg_Database ?cfg) (cfg_User ?cfg) (cfg_Password ?cfg) ?url None = Inr db"
    and len: "length db = 628"
    using assms(5) DBInfo_layout [of "cfg_Database ?cfg" "cfg_User ?cfg" "cfg_Password ?cfg" ?url None]
    by (auto simp: auth_fields_fit_def length_pad_field)
  note w = nc_Write_fb [OF assms(1,2), of db, unfolded assms(3), OF fb_feed_dbInfo [OF len], unfolded assms(4)]
  let ?c1 = "c\<lparr>c_sent := c_sent c @ [db], c_br := \<lparr>s_in = [], s_end = idle\<rparr>\<rparr>"
  have rd: "ReadResponse \<lparr>s_in = WriteRequest ?pl [1, 0, 0, 0], s_end = idle\<rparr> =
      (Inr (?pl, [1, 0, 0, 0]), \<lparr>s_in = [], s_end = idle\<rparr>)"
    using ReadResponse_frame [OF _ small, of "[1, 0, 0, 0]" "[]" "\<lparr>s_in = [], s_end = idle\<rparr>"] by simp
  have "handshake_auth c = (Inr (), ?c1\<lparr>c_version := ProtocolVersion (fb_BrokerInfo f), c_broker := fb_BrokerInfo f,
      c_casPid := fb_CASPid f, c_sessionID := fake_session_id (fb_BrokerInfo f)\<rparr>)"
    using w(1) rd db ParseConnectReply_fake [of "fb_CASPid f" "fb_BrokerInfo f"] assms(6)
    by (simp add: handshake_auth_def bindC_def returnC_def wrapC_def read_response_def broker_ok_def Let_def)
  then show ?thesis
    by (rule that) (simp_all add: session_of_def assms(2) w(2))
qed

text \<open>
  With TLS the client's writes reach the session through the TLS connection: a handshake that
  succeeds hands the client a socket on which the session waits for the authentication block.
\<close>

definition tls_reaches :: "net \<Rightarrow> string \<Rightarrow> bool \<Rightarrow> error \<Rightarrow> fake_broker \<Rightarrow> bool" where
  "tls_reaches net host verify idle f \<longleftrightarrow> fb_tlsConf f \<noteq> None \<and>
     n_tls net host verify (fb_peer idle (ReadGreeting, [], f)) =
       Inr (fb_peer idle (ReadDBInfo, [], f\<lparr>fb_greeting := Greeting True\<rparr>))"

lemma handshake_fb:
  assumes "Valid c" and "c_open c" and "c_peer c = fb_peer idle (ReadGreeting, [], f)" and "c_sent c = []"
    and "s_in (c_br c) = []" and "auth_fields_fit (c_cfg c) (c_host c) (c_port c)" and "broker_ok f"
    and tls: "cfg_SSL (c_cfg c) \<longrightarrow> tls_reaches net (c_host c) (cfg_SSLVerify (c_cfg c)) idle f"
  obtains c' where "handshake net ctx c w = (Inr (), c', w)" and "session_of f c'"
    and "fb_connected (f\<lparr>fb_greeting := Greeting (cfg_SSL (c_cfg c))\<rparr>) c'"
proof -
  let ?ssl = "cfg_SSL (c_cfg c)" and ?c = "guard_begin ctx c"
  let ?f = "f\<lparr>fb_greeting := Greeting ?ssl\<rparr>"
  have c: "c_open ?c" "c_peer ?c = fb_peer idle (ReadGreeting, [], f)" "c_sent ?c = []" "s_in (c_br ?c) = []"
    using assms by (simp_all add: guard_begin_def)
  have ok: "\<not> (?ssl \<and> fb_tlsConf f = None)" using tls by (auto simp: tls_reaches_def)
  obtain e where greet: "handshake_greet ?c = (Inr 0, ?c\<lparr>c_sent := [Greeting ?ssl], c_br := \<lparr>s_in = [], s_end = e\<rparr>\<rparr>)"
    by (rule handshake_greet_fb [OF c]) (use ok in \<open>simp add: guard_begin_def split: if_splits\<close>)
  let ?c1 = "?c\<lparr>c_sent := [Greeting ?ssl], c_br := \<lparr>s_in = [], s_end = e\<rparr>\<rparr>"
  let ?st = "if ?ssl then (ReadDBInfo, [], ?f) else (ReadGreeting, [], f)"
  let ?c2 = "if ?ssl then ?c1\<lparr>c_peer := fb_peer idle ?st, c_sent := [], c_br := no_bytes\<rparr> else ?c1"
  have upgrade: "(if ?ssl then liftH (handshake_tls net) else returnH (Inr ())) ?c1 w = (Inr (), ?c2, w)"
    using tls c(2)
    by (simp add: liftH_def handshake_tls_def returnH_def tls_reaches_def guard_begin_def)
  have "fb_after ?st (c_sent ?c2) = (ReadDBInfo, [], ?f)"
    by (simp add: fb_after_def fb_feed_greeting)
  moreover have "c_open ?c2" "c_peer ?c2 = fb_peer idle ?st" "s_in (c_br ?c2) = []"
    "auth_fields_fit (c_cfg ?c2) (c_host ?c2) (c_port ?c2)" "broker_ok ?f"
    using assms c by (simp_all add: no_bytes_def guard_begin_def broker_ok_def replies_fit_def)
  ultimately obtain c3 where auth: "handshake_auth ?c2 = (Inr (), c3)" and ses: "session_of ?f c3"
    and peer: "c_peer c3 = fb_peer idle ?st" and st: "fb_after ?st (c_sent c3) = (ReadHeader, [], ?f)"
    and empty: "s_in (c_br c3) = []"
    by (elim handshake_auth_fb [where c = ?c2]) auto
  have V: "Valid c3" "c_open c3"
    using handshake_auth.keeps_target [OF auth] handshake_auth.keeps_socket [OF auth] assms(1) c(1)
    by (auto simp: same_target_def Valid_def guard_begin_def)
  have "handshake net ctx c w = (Inr (), guard_end c3, w)"
    using greet upgrade auth
    by (simp add: handshake_def bindH_def liftH_def [of handshake_greet] liftH_def [of handshake_auth]
        returnH_def guard_begin_def)
  moreover have "session_of f (guard_end c3)" using ses by (simp add: session_of_def guard_end_def)
  moreover have "fb_connected ?f (guard_end c3)"
    using V peer st empty by (intro fb_connectedI) (auto simp: Valid_def guard_end_def)
  ultimately show ?thesis by (rule that)
qed

lemma Connect_dialled:
  assumes "cfg_AltHosts cfg = []"
    and dial: "\<And>d. n_dial net (w_dials w @ [(JoinHostPort (cfg_Host cfg) (Itoa (cfg_Port cfg)), d)]) = Inr peer"
  obtains ctx' w1 where "w_open w1 = Suc (length (w_dials w)) # w_open w"
    and "Connect net ctx cfg w =
      (case handshake net ctx' (new_conn net cfg (cfg_Host cfg) (cfg_Port cfg) (Suc (length (w_dials w))) peer) w1 of
         (Inl e, c, w) \<Rightarrow> (Inl e, close_socket (c_nc c) w)
       | (Inr _, c, w) \<Rightarrow> (Inr c, w))"
proof -
  let ?addr = "JoinHostPort (cfg_Host cfg) (Itoa (cfg_Port cfg))" and ?n = "Suc (length (w_dials w))"
  define ctx' where "ctx' = (if cfg_ConnectTimeout cfg > 0
    then WithTimeout (n_clock net) (length (w_dials w)) ctx (cfg_ConnectTimeout cfg) else ctx)"
  let ?w = "w\<lparr>w_dials := w_dials w @ [(?addr, ctx_Deadline ctx')], w_open := ?n # w_open w\<rparr>"
  have "DialContext net ctx' ?addr w = (Inr (?n, peer), ?w)"
    by (simp add: DialContext_def Let_def dial)
  then show ?thesis
    by (intro that [of ?w ctx'])
       (simp_all add: Connect_def connectHost_def assms(1) flip: ctx'_def)
qed

lemma new_conn_fresh:
  "c_cfg (new_conn net cfg host port n peer) = cfg" "c_host (new_conn net cfg host port n peer) = host"
  "c_port (new_conn net cfg host port n peer) = port" "c_nc (new_conn net cfg host port n peer) = n"
  "Valid (new_conn net cfg host port n peer)" "c_open (new_conn net cfg host port n peer)"
  "c_peer (new_conn net cfg host port n peer) = peer" "c_sent (new_conn net cfg host port n peer) = []"
  "s_in (c_br (new_conn net cfg host port n peer)) = []"
  by (simp_all add: new_conn_def no_bytes_def Valid_def)

lemma Connect_fb:
  assumes "cfg_AltHosts cfg = []" and "auth_fields_fit cfg (cfg_Host cfg) (cfg_Port cfg)" and "broker_ok f"
    and dial: "\<And>d. n_dial net (w_dials w @ [(JoinHostPort (cfg_Host cfg) (Itoa (cfg_Port cfg)), d)]) =
      Inr (fb_peer idle (ReadGreeting, [], f))"
    and tls: "cfg_SSL cfg \<longrightarrow> tls_reaches net (cfg_Host cfg) (cfg_SSLVerify cfg) idle f"
  obtains c w' where "Connect net ctx cfg w = (Inr c, w')" and "session_of f c"
    and "fb_connected (f\<lparr>fb_greeting := Greeting (cfg_SSL cfg)\<rparr>) c"
proof -
  let ?peer = "fb_peer idle (ReadGreeting, [], f)"
  obtain ctx' w1 where con: "Connect net ctx cfg w =
      (case handshake net ctx' (new_conn net cfg (cfg_Host cfg) (cfg_Port cfg) (Suc (length (w_dials w))) ?peer) w1 of
         (Inl e, c, w) \<Rightarrow> (Inl e, close_socket (c_nc c) w)
       | (Inr _, c, w) \<Rightarrow> (Inr c, w))"
    by (rule Connect_dialled [OF assms(1) dial])
  note c = new_conn_fresh [of net cfg "cfg_Host cfg" "cfg_Port cfg" "Suc (length (w_dials w))" ?peer]
  show ?thesis
    by (rule handshake_fb [OF c(5-9), unfolded c(1-3), OF assms(2,3) tls, of ctx' w1])
       (rule that, simp_all add: con)
qed

text \<open>A client that asks for TLS is refused by a broker that has none, and its socket is closed.\<close>

lemma Connect_fb_no_tls:
  assumes "cfg_AltHosts cfg = []" and "cfg_SSL cfg" and "fb_tlsConf f = None" and "world_ok w"
    and dial: "\<And>d. n_dial net (w_dials w @ [(JoinHostPort (cfg_Host cfg) (Itoa (cfg_Port cfg)), d)]) =
      Inr (fb_peer idle (ReadGreeting, [], f))"
  obtains w' where "Connect net ctx cfg w = (Inl (rejection CASErrSSLTypeNotAllowed), w')" and "w_open w' = w_open w"
proof -
  let ?peer = "fb_peer idle (ReadGreeting, [], f)" and ?n = "Suc (length (w_dials w))"
  let ?c = "new_conn net cfg (cfg_Host cfg) (cfg_Port cfg) ?n ?peer"
  obtain ctx' w1 where w1: "w_open w1 = ?n # w_open w" and con: "Connect net ctx cfg w =
      (case handshake net ctx' ?c w1 of
         (Inl e, c, w) \<Rightarrow> (Inl e, close_socket (c_nc c) w)
       | (Inr _, c, w) \<Rightarrow> (Inr c, w))"
    by (rule Connect_dialled [OF assms(1) dial])
  let ?g = "guard_begin ctx' ?c"
  have c: "c_open ?g" "c_peer ?g = ?peer" "c_sent ?g = []" "s_in (c_br ?g) = []"
    and cfg: "c_cfg ?g = cfg" and nc: "c_nc ?g = ?n"
    by (simp_all add: guard_begin_def new_conn_fresh)
  obtain e where g: "handshake_greet ?g = (Inr CASErrSSLTypeNotAllowed,
      ?g\<lparr>c_sent := [Greeting True], c_br := \<lparr>s_in = [], s_end = e\<rparr>\<rparr>)"
    by (rule handshake_greet_fb [OF c]) (use assms(2,3) cfg in \<open>simp add: CASErrSSLTypeNotAllowed_def\<close>)
  have neg: "sint CASErrSSLTypeNotAllowed < 0" by (simp add: CASErrSSLTypeNotAllowed_def)
  obtain c' where "handshake net ctx' ?c w1 = (Inl (rejection CASErrSSLTypeNotAllowed), c', w1)" and "c_nc c' = ?n"
    using g neg nc by (simp add: handshake_def bindH_def liftH_def returnH_def guard_end_def)
  then have "Connect net ctx cfg w = (Inl (rejection CASErrSSLTypeNotAllowed), close_socket ?n w1)"
    by (simp add: con)
  moreover have "?n \<notin> set (w_open w)" using assms(4) by (auto simp: world_ok_def)
  ultimately show ?thesis by (intro that [of "close_socket ?n w1"]) (simp_all add: w1 close_socket_def removeAll_id)
qed

subsection \<open>Response payloads are read back\<close>

text \<open>A field of a response: how \<^verbatim>\<open>RespWriter\<close> appends it and how \<^verbatim>\<open>Reader\<close> takes it.\<close>

locale resp_field =
  fixes put :: "resp_writer \<Rightarrow> 'a \<Rightarrow> resp_writer" and enc :: "'a \<Rightarrow> bytes" and get :: "'a parser"
    and ok :: "'a \<Rightarrow> bool"
  assumes put_enc: "put w v = w @ enc v" and get_enc: "ok v \<Longrightarrow> parses get (enc v) v"
begin

text \<open>The last field written is the one read after what precedes it.\<close>

lemma read_back:
  assumes "parses p w x" and "ok v"
  shows "parses (\<lambda>r. bindE (p r) (\<lambda>(x, r). bindE (get r) (\<lambda>(v, r). Inr ((x, v), r)))) (put w v) (x, v)"
proof -
  have "parses (\<lambda>r. bindE (get r) (\<lambda>(v, r). Inr ((x, v), r))) (enc v @ []) (x, v)"
    by (rule parses_bind [OF get_enc [OF assms(2)]]) (rule parses_return)
  then have "parses (\<lambda>r. bindE (get r) (\<lambda>(v, r). Inr ((x, v), r))) (enc v) (x, v)" by simp
  from parses_bind [where q = "\<lambda>x r. bindE (get r) (\<lambda>(v, r). Inr ((x, v), r))", OF assms(1) this]
  show ?thesis by (simp add: put_enc)
qed

end

interpretation RW_B: resp_field RW_B "\<lambda>v. [v]" Reader_Byte "\<lambda>_. True"
  by unfold_locales (simp_all add: RW_B_def parses_Byte)

interpretation RW_I16: resp_field RW_I16 put_u16 Int16 "\<lambda>_. True"
  by unfold_locales (simp_all add: RW_I16_def parses_Int16)

interpretation RW_I32: resp_field RW_I32 put_u32 Int32 "\<lambda>_. True"
  by unfold_locales (simp_all add: RW_I32_def parses_Int32)

interpretation RW_I64: resp_field RW_I64 put_u64 Int64 "\<lambda>_. True"
  by unfold_locales (simp_all add: RW_I64_def parses_Int64)

interpretation RW_Str: resp_field RW_Str put_string Reader_String "\<lambda>s. length s < 2147483647"
  by unfold_locales (simp add: RW_Str_def put_string_def, rule parses_String)

interpretation RW_Raw: resp_field RW_Raw "\<lambda>b. b" "\<lambda>r. Reader_Bytes r (int n)" "\<lambda>b. length b = n" for n
  by unfold_locales (simp_all add: RW_Raw_def parses_Bytes)

subsection \<open>Advertised versions\<close>

lemma SetProtocolVersion_version:
  assumes "length (fb_BrokerInfo f) = 8"
  shows "ProtocolVersion (fb_BrokerInfo (SetProtocolVersion v f)) = v mod 64"
proof -
  let ?x = "word_of_int (v AND 0x3F) :: byte"
  have v: "v AND 0x3F = take_bit 6 v" by (simp add: take_bit_eq_mask mask_eq_exp_minus_1)
  have x: "?x = take_bit 6 (word_of_int v)"
    unfolding v by (rule bit_word_eqI) (auto simp: bit_simps)
  have "(0x40 OR ?x) AND 0x3F = take_bit 6 (0x40 OR ?x)" by (simp add: take_bit_eq_mask mask_eq_exp_minus_1)
  also have "\<dots> = ?x" unfolding x by (simp add: take_bit_or)
  finally have low: "(0x40 OR ?x) AND 0x3F = ?x" .
  have high: "(0x40 OR ?x) AND 0x40 = 0x40"
    by (rule bit_word_eqI) (auto simp: bit_simps)
  have "uint ?x = v mod 64"
    unfolding v by (simp add: take_bit_eq_mod uint_word_of_int)
  with low high show ?thesis
    using assms by (simp add: ProtocolVersion_def SetProtocolVersion_def protoIndicator_def protoVerMask_def Let_def)
qed

end
