(* ===== verification/Broker_Sessions.thy ===== *)
theory Broker_Sessions
  imports Fake_Broker_Facts "HOL-Library.Sublist"
begin

section \<open>Concurrent sessions of the scripted broker (fakebroker.go: serve, session)\<close>

text \<open>
  The broker with its accept loop: every accepted connection is a session in a goroutine of its own,
  and the test may queue responses or change the handshake meanwhile. What they share is guarded by
  the broker's mutex, which a session takes once between two reads; what it computed there it writes
  to its own socket afterwards. A step is one such section, one write, the arrival of bytes, or a
  call of the test, in any order. The run also keeps what was received, the answers in the order in
  which the mutex was taken, and the responses ever queued, to state what the broker does. The code
  ignores the error of a write, so \<open>bk_out\<close> is what a session has written as far as it is concerned,
  not what a peer that went away has received.
\<close>

subsection \<open>The step relation\<close>

record broker_conn =
  bk_at :: session
  bk_in :: bytes
  bk_eof :: bool
  bk_pending :: bytes
  bk_out :: bytes
  bk_received :: bytes

definition accepted :: broker_conn where
  "accepted = \<lparr>bk_at = ReadGreeting, bk_in = [], bk_eof = False, bk_pending = [], bk_out = [], bk_received = []\<rparr>"

type_synonym answer = "nat \<times> bytes \<times> bytes option"

record broker_run =
  ru_fb :: fake_broker
  ru_conns :: "broker_conn list"
  ru_listening :: bool
  ru_log :: "answer list"
  ru_queued :: "byte \<Rightarrow> bytes list"

definition serve_start :: "fake_broker \<Rightarrow> broker_run" where
  "serve_start f = \<lparr>ru_fb = f, ru_conns = [], ru_listening = True, ru_log = [], ru_queued = fb_queues f\<rparr>"

text \<open>The answer a session takes out of the script, if the bytes it read are a request.\<close>

definition answer_of :: "session \<Rightarrow> bytes \<Rightarrow> fake_broker \<Rightarrow> bytes option option" where
  "answer_of s b f =
     (case s of
        ReadPayload _ \<Rightarrow>
          if b = [] then None
          else Some (case fb_queues f (hd b) of [] \<Rightarrow> None | r # _ \<Rightarrow> Some r)
      | _ \<Rightarrow> None)"

definition logged :: "nat \<Rightarrow> session \<Rightarrow> bytes \<Rightarrow> fake_broker \<Rightarrow> answer list" where
  "logged i s b f = (case answer_of s b f of None \<Rightarrow> [] | Some a \<Rightarrow> [(i, b, a)])"

definition session_section :: "nat \<Rightarrow> nat \<Rightarrow> broker_run \<Rightarrow> broker_run" where
  "session_section i n r =
     (let k = ru_conns r ! i; b = take n (bk_in k) in
      case resume (bk_at k) b (ru_fb r) of
        (out, s, f) \<Rightarrow>
          r\<lparr>ru_fb := f,
            ru_conns := (ru_conns r)[i := k\<lparr>bk_at := s, bk_in := drop n (bk_in k), bk_pending := out\<rparr>],
            ru_log := ru_log r @ logged i (bk_at k) b (ru_fb r)\<rparr>)"

inductive session_step :: "broker_conn \<Rightarrow> broker_conn \<Rightarrow> bool" where
  arrives: "\<not> bk_eof k \<Longrightarrow> session_step k (k\<lparr>bk_in := bk_in k @ b, bk_received := bk_received k @ b\<rparr>)"
| hangs_up: "session_step k (k\<lparr>bk_eof := True\<rparr>)"
| writes: "session_step k (k\<lparr>bk_pending := [], bk_out := bk_out k @ bk_pending k\<rparr>)"
| tls_done: "bk_at k = TLSHandshake \<Longrightarrow> bk_pending k = [] \<Longrightarrow> session_step k (k\<lparr>bk_at := ReadDBInfo\<rparr>)"
| tls_failed: "bk_at k = TLSHandshake \<Longrightarrow> bk_pending k = [] \<Longrightarrow> session_step k (k\<lparr>bk_at := SessionClosed\<rparr>)"
| read_failed: "needs (bk_at k) = Some n \<Longrightarrow> length (bk_in k) < n \<Longrightarrow> bk_eof k \<Longrightarrow> bk_pending k = [] \<Longrightarrow>
    session_step k (k\<lparr>bk_at := SessionClosed\<rparr>)"

inductive broker_step :: "broker_run \<Rightarrow> broker_run \<Rightarrow> bool" where
  accept: "ru_listening r \<Longrightarrow> broker_step r (r\<lparr>ru_conns := ru_conns r @ [accepted]\<rparr>)"
| cleanup: "broker_step r (r\<lparr>ru_listening := False\<rparr>)"
| own: "i < length (ru_conns r) \<Longrightarrow> session_step (ru_conns r ! i) k \<Longrightarrow>
    broker_step r (r\<lparr>ru_conns := (ru_conns r)[i := k]\<rparr>)"
| locked: "i < length (ru_conns r) \<Longrightarrow> needs (bk_at (ru_conns r ! i)) = Some n \<Longrightarrow>
    n \<le> length (bk_in (ru_conns r ! i)) \<Longrightarrow> bk_pending (ru_conns r ! i) = [] \<Longrightarrow>
    broker_step r (session_section i n r)"
| queue: "broker_step r (r\<lparr>ru_fb := Queue fn b (ru_fb r), ru_queued := (ru_queued r)(fn := ru_queued r fn @ [b])\<rparr>)"
| set_version: "broker_step r (r\<lparr>ru_fb := SetProtocolVersion v (ru_fb r)\<rparr>)"
| enable_tls: "EnableTLS cert (ru_fb r) = Inr f \<Longrightarrow> broker_step r (r\<lparr>ru_fb := f\<rparr>)"

inductive broker_reach :: "fake_broker \<Rightarrow> broker_run \<Rightarrow> bool" for f where
  start: "broker_reach f (serve_start f)"
| step: "broker_reach f r \<Longrightarrow> broker_step r r' \<Longrightarrow> broker_reach f r'"

inductive_cases session_stepE: "session_step k k'"
inductive_cases broker_stepE: "broker_step r r'"

subsection \<open>The script is shared fairly\<close>

definition served :: "byte \<Rightarrow> answer list \<Rightarrow> bytes list" where
  "served fn log = concat (map (\<lambda>(i, p, a). if hd p = fn then (case a of None \<Rightarrow> [] | Some r \<Rightarrow> [r]) else []) log)"

definition script_ok :: "fake_broker \<Rightarrow> broker_run \<Rightarrow> bool" where
  "script_ok f r \<longleftrightarrow> Requests (ru_fb r) = Requests f @ map (fst \<circ> snd) (ru_log r) \<and>
     (\<forall>fn. served fn (ru_log r) @ fb_queues (ru_fb r) fn = ru_queued r fn)"

lemma resume_script:
  assumes "resume s b f = (out, s', f')"
  shows "fb_requests f' = fb_requests f @ map (fst \<circ> snd) (logged i s b f)"
    and "served fn (logged i s b f) @ fb_queues f' fn = fb_queues f fn"
  using assms
  by (cases s; auto simp: logged_def answer_of_def served_def session_greeted_def session_authenticated_def
      session_request_def fb_reply_def Let_def split: if_splits list.splits)+

lemma served_append: "served fn (a @ b) = served fn a @ served fn b"
  by (simp add: served_def)

lemma script_ok_step:
  assumes "script_ok f r" and "broker_step r r'"
  shows "script_ok f r'"
  using assms(2)
proof cases
  case (locked i n)
  let ?k = "ru_conns r ! i"
  obtain out s f' where res: "resume (bk_at ?k) (take n (bk_in ?k)) (ru_fb r) = (out, s, f')"
    by (cases "resume (bk_at ?k) (take n (bk_in ?k)) (ru_fb r)")
  note R = resume_script [OF res]
  have "served fn (ru_log r @ logged i (bk_at ?k) (take n (bk_in ?k)) (ru_fb r)) @ fb_queues f' fn = ru_queued r fn" for fn
    using R(2) [of fn i] assms(1) by (simp add: script_ok_def served_append)
  then show ?thesis
    using assms(1) R(1) [of i] by (simp add: script_ok_def locked(1) session_section_def res Requests_def Let_def)
next
  case (queue fn b)
  have "served fn' (ru_log r) @ fb_queues (ru_fb r) fn' = ru_queued r fn'" for fn' using assms(1) by (simp add: script_ok_def)
  then show ?thesis using assms(1) by (simp add: script_ok_def queue Queue_def Requests_def flip: append_assoc)
next
  case (enable_tls cert f')
  then show ?thesis using assms(1) by (auto simp: script_ok_def EnableTLS_def Requests_def bindE_Inr_iff)
qed (use assms(1) in \<open>simp_all add: script_ok_def SetProtocolVersion_def Requests_def\<close>)

subsection \<open>Every session gets its own answers\<close>

definition log_of :: "nat \<Rightarrow> answer list \<Rightarrow> (bytes \<times> bytes option) list" where
  "log_of i log = map snd (filter (\<lambda>e. fst e = i) log)"

fun response :: "bytes \<times> bytes option \<Rightarrow> bytes" where
  "response (p, None) = [0, 0, 0, 0]"
| "response (p, Some r) = r"

definition frame_of :: "bytes \<Rightarrow> bytes \<times> bytes option \<Rightarrow> bool" where
  "frame_of fr e \<longleftrightarrow> (\<exists>h. length h = 8 \<and> unat (get_u32 (take 4 h)) = length (fst e) \<and> fr = h @ fst e)"

text \<open>
  Bytes received and bytes written, against the answers taken for the session: \<open>hello\<close> is what it wrote
  before the first request, all of it once the login is answered; \<open>h\<close> is what it has read of the request
  it is at.
\<close>

definition handshake_out :: "bytes \<Rightarrow> bool" where
  "handshake_out hello \<longleftrightarrow> (\<exists>pid bi. hello = put_u32 0 @ writeFrame (put_u32 pid @ bi @ put_u32 7 @ replicate 20 0))"

definition hello_of :: "(bytes \<times> bytes option) list \<Rightarrow> bytes \<Rightarrow> bool" where
  "hello_of es hello \<longleftrightarrow> handshake_out hello \<or> es = [] \<and> hello \<in> {[], put_u32 0, put_u32 (- 10103)}"

definition session_io :: "(bytes \<times> bytes option) list \<Rightarrow> bytes \<Rightarrow> broker_conn \<Rightarrow> bool" where
  "session_io es h k \<longleftrightarrow>
     (\<exists>g db frames hello. length g = 10 \<and> length db = 628 \<and> list_all2 frame_of frames es \<and>
        bk_received k = g @ db @ concat frames @ h @ bk_in k \<and>
        handshake_out hello \<and> bk_out k @ bk_pending k = hello @ concat (map (writeFrame \<circ> response) es))"

definition session_closed :: "(bytes \<times> bytes option) list \<Rightarrow> broker_conn \<Rightarrow> bool" where
  "session_closed es k \<longleftrightarrow> (\<exists>hello. hello_of es hello \<and> bk_out k @ bk_pending k = hello @ concat (map (writeFrame \<circ> response) es))"

definition session_ok :: "(bytes \<times> bytes option) list \<Rightarrow> broker_conn \<Rightarrow> bool" where
  "session_ok es k \<longleftrightarrow>
     (case bk_at k of
        ReadGreeting \<Rightarrow> es = [] \<and> bk_received k = bk_in k \<and> bk_out k @ bk_pending k = []
      | TLSHandshake \<Rightarrow> es = [] \<and> (\<exists>g. length g = 10 \<and> bk_received k = g @ bk_in k) \<and> bk_out k @ bk_pending k = put_u32 0
      | ReadDBInfo \<Rightarrow> es = [] \<and> (\<exists>g. length g = 10 \<and> bk_received k = g @ bk_in k) \<and> bk_out k @ bk_pending k = put_u32 0
      | ReadHeader \<Rightarrow> session_io es [] k
      | ReadPayload n \<Rightarrow> (\<exists>h. length h = 8 \<and> unat (get_u32 (take 4 h)) = n \<and> session_io es h k)
      | SessionClosed \<Rightarrow> session_closed es k)"

lemma session_io_closed: "session_io es h k \<Longrightarrow> session_closed es k"
  unfolding session_io_def session_closed_def hello_of_def by blast

lemma session_ok_closed: "session_ok es k \<Longrightarrow> session_closed es k"
  using session_io_closed by (cases "bk_at k") (auto simp: session_ok_def session_closed_def [of "[]"] hello_of_def)

lemma session_io_cong:
  "session_io es h k \<Longrightarrow> bk_received k' = bk_received k @ b \<Longrightarrow> bk_in k' = bk_in k @ b \<Longrightarrow>
    bk_out k' @ bk_pending k' = bk_out k @ bk_pending k \<Longrightarrow> session_io es h k'"
  unfolding session_io_def by force

lemma session_ok_cong:
  assumes "session_ok es k" and "bk_at k' = bk_at k" and "bk_received k' = bk_received k @ b" and "bk_in k' = bk_in k @ b"
    and "bk_out k' @ bk_pending k' = bk_out k @ bk_pending k"
  shows "session_ok es k'"
  using assms session_io_cong [OF _ assms(3-5)]
  by (cases "bk_at k") (auto simp: session_ok_def session_closed_def)

lemma session_closedI: "session_ok es k \<Longrightarrow> session_ok es (k\<lparr>bk_at := SessionClosed\<rparr>)"
  using session_ok_closed by (simp add: session_ok_def [of _ "k\<lparr>bk_at := SessionClosed\<rparr>"] session_closed_def)

lemma session_ok_step:
  assumes "session_ok es k" and "session_step k k'"
  shows "session_ok es k'"
  using assms(2)
proof cases
  case (arrives b)
  then show ?thesis using session_ok_cong [OF assms(1), of k' b] by simp
next
  case hangs_up
  then show ?thesis using session_ok_cong [OF assms(1), of k' "[]"] by simp
next
  case writes
  then show ?thesis using session_ok_cong [OF assms(1), of k' "[]"] by simp
next
  case tls_done
  then show ?thesis using assms(1) by (simp add: session_ok_def)
qed (use session_closedI [OF assms(1)] in simp_all)

text \<open>One locked section, by the read that precedes it.\<close>

lemma session_io_request:
  assumes "session_io es h k" and "length h = 8" and "unat (get_u32 (take 4 h)) = length p" and "bk_in k = p @ rest"
    and "bk_pending k = []"
  shows "session_io (es @ [(p, a)]) [] (k\<lparr>bk_at := s, bk_in := rest, bk_pending := writeFrame (response (p, a))\<rparr>)"
proof -
  obtain g db frames hello where io: "length g = 10" "length db = 628" "list_all2 frame_of frames es"
    "bk_received k = g @ db @ concat frames @ h @ bk_in k" "handshake_out hello"
    "bk_out k @ bk_pending k = hello @ concat (map (writeFrame \<circ> response) es)"
    using assms(1) by (auto simp: session_io_def)
  have "frame_of (h @ p) (p, a)" using assms(2,3) by (auto simp: frame_of_def)
  with io(3) have "list_all2 frame_of (frames @ [h @ p]) (es @ [(p, a)])" by (intro list_all2_appendI) simp_all
  then show ?thesis
    unfolding session_io_def using io(1,2,4-6) assms(4,5)
    by (intro exI [of _ g] exI [of _ db] exI [of _ "frames @ [h @ p]"] exI [of _ hello]) simp
qed

lemma session_ok_request:
  assumes ok: "session_ok es k" and at: "bk_at k = ReadPayload n" and len: "n \<le> length (bk_in k)" and pend: "bk_pending k = []"
    and res: "session_request (take n (bk_in k)) f = (out, s, f')"
  shows "session_ok (es @ map snd (logged i (ReadPayload n) (take n (bk_in k)) f))
    (k\<lparr>bk_at := s, bk_in := drop n (bk_in k), bk_pending := out\<rparr>)"
proof -
  let ?p = "take n (bk_in k)"
  let ?a = "case fb_queues f (hd ?p) of [] \<Rightarrow> None | r # _ \<Rightarrow> Some r"
  obtain h where h: "length h = 8" "unat (get_u32 (take 4 h)) = n" "session_io es h k"
    using ok at by (auto simp: session_ok_def)
  show ?thesis
  proof (cases "?p = []")
    case True
    then show ?thesis
      using res session_io_closed [OF h(3)] pend by (simp add: session_request_def logged_def answer_of_def session_ok_def session_closed_def)
  next
    case False
    have out: "out = writeFrame (response (?p, ?a))" and s: "s = SessionClosed \<or> s = ReadHeader"
      using res False by (auto simp: session_request_def fb_reply_def Let_def split: list.splits if_splits)
    have lg: "map snd (logged i (ReadPayload n) ?p f) = [(?p, ?a)]" using False by (simp add: logged_def answer_of_def)
    have "session_io (es @ [(?p, ?a)]) [] (k\<lparr>bk_at := s, bk_in := drop n (bk_in k), bk_pending := out\<rparr>)"
      unfolding out by (rule session_io_request [OF h(3,1)]) (use h(2) len pend in simp_all)
    with s session_io_closed show ?thesis unfolding lg by (auto simp: session_ok_def)
  qed
qed

lemma session_ok_section:
  assumes ok: "session_ok es k" and need: "needs (bk_at k) = Some n" and len: "n \<le> length (bk_in k)" and pend: "bk_pending k = []"
    and res: "resume (bk_at k) (take n (bk_in k)) f = (out, s, f')"
  shows "session_ok (es @ map snd (logged i (bk_at k) (take n (bk_in k)) f))
    (k\<lparr>bk_at := s, bk_in := drop n (bk_in k), bk_pending := out\<rparr>)"
proof (cases "bk_at k")
  case ReadGreeting
  have split: "bk_received k = take 10 (bk_in k) @ drop 10 (bk_in k)" "length (take 10 (bk_in k)) = 10" "n = 10"
    using ok need len ReadGreeting by (simp_all add: session_ok_def)
  then have "\<exists>g. length g = 10 \<and> bk_received k = g @ drop n (bk_in k)" by blast
  with ok pend res ReadGreeting show ?thesis
    by (auto simp: logged_def answer_of_def session_greeted_def session_ok_def session_closed_def hello_of_def Let_def split: if_splits)
next
  case ReadDBInfo
  obtain g where g: "length g = 10" "bk_received k = g @ bk_in k" "bk_out k = put_u32 0" "es = []"
    using ok pend ReadDBInfo by (auto simp: session_ok_def)
  have n: "n = 628" using need ReadDBInfo by simp
  have out: "out = writeFrame (put_u32 (fb_CASPid f) @ fb_BrokerInfo f @ put_u32 7 @ replicate 20 0)"
    using res ReadDBInfo by (auto simp: session_authenticated_def)
  have "handshake_out (put_u32 0 @ out)" unfolding out handshake_out_def by blast
  moreover have "length (take n (bk_in k)) = 628" "bk_received k = g @ take n (bk_in k) @ concat [] @ [] @ drop n (bk_in k)"
    using len n g(2) by simp_all
  ultimately have "session_io [] [] (k\<lparr>bk_at := ReadHeader, bk_in := drop n (bk_in k), bk_pending := out\<rparr>)"
    unfolding session_io_def using g(1,3)
    by (intro exI [of _ g] exI [of _ "take n (bk_in k)"] exI [of _ "[]"] exI [of _ "put_u32 0 @ out"]) simp
  then show ?thesis using g(4) res ReadDBInfo
    by (simp add: logged_def answer_of_def session_authenticated_def session_ok_def)
next
  case ReadHeader
  have n: "n = 8" using need ReadHeader by simp
  have "session_io es (take 8 (bk_in k)) (k\<lparr>bk_at := s, bk_in := drop n (bk_in k), bk_pending := out\<rparr>)"
    using ok pend res ReadHeader n by (auto simp: session_ok_def session_io_def)
  moreover have "length (take 8 (bk_in k)) = 8" using len n by simp
  ultimately show ?thesis using res ReadHeader n
    by (auto simp: logged_def answer_of_def session_ok_def intro!: exI [of _ "take 8 (bk_in k)"])
next
  case (ReadPayload m)
  then have "m = n" using need by simp
  with ReadPayload session_ok_request [OF ok] len pend res show ?thesis by simp
qed (use need in simp_all)

definition sessions_ok :: "broker_run \<Rightarrow> bool" where
  "sessions_ok r \<longleftrightarrow> (\<forall>i < length (ru_conns r). session_ok (log_of i (ru_log r)) (ru_conns r ! i)) \<and>
     (\<forall>e \<in> set (ru_log r). fst e < length (ru_conns r))"

lemma log_of_append: "log_of i (a @ b) = log_of i a @ log_of i b"
  by (simp add: log_of_def)

lemma log_of_logged: "log_of j (logged i s b f) = (if j = i then map snd (logged i s b f) else [])"
  by (simp add: log_of_def logged_def split: option.split)

lemma log_of_new: "sessions_ok r \<Longrightarrow> log_of (length (ru_conns r)) (ru_log r) = []"
  by (auto simp: sessions_ok_def log_of_def filter_empty_conv)

lemma sessions_ok_step:
  assumes "sessions_ok r" and "broker_step r r'"
  shows "sessions_ok r'"
  using assms(2)
proof cases
  case accept
  have "session_ok [] accepted" by (simp add: session_ok_def accepted_def)
  with assms(1) log_of_new [OF assms(1)] show ?thesis
    by (auto simp: sessions_ok_def accept nth_append less_Suc_eq)
next
  case (own i k)
  then show ?thesis using assms(1) session_ok_step by (auto simp: sessions_ok_def nth_list_update)
next
  case (locked i n)
  let ?k = "ru_conns r ! i"
  let ?b = "take n (bk_in ?k)"
  obtain out s f' where res: "resume (bk_at ?k) ?b (ru_fb r) = (out, s, f')" by (cases "resume (bk_at ?k) ?b (ru_fb r)")
  have "session_ok (log_of i (ru_log r)) ?k" using assms(1) locked(2) by (simp add: sessions_ok_def)
  from session_ok_section [OF this locked(3-5) res, of i]
  have new: "session_ok (log_of i (ru_log r @ logged i (bk_at ?k) ?b (ru_fb r)))
      (?k\<lparr>bk_at := s, bk_in := drop n (bk_in ?k), bk_pending := out\<rparr>)"
    by (simp add: log_of_append log_of_logged)
  have others: "log_of j (ru_log r @ logged i (bk_at ?k) ?b (ru_fb r)) = log_of j (ru_log r)" if "j \<noteq> i" for j
    using that by (simp add: log_of_append log_of_logged)
  have "fst e = i" if "e \<in> set (logged i (bk_at ?k) ?b (ru_fb r))" for e
    using that by (auto simp: logged_def split: option.splits)
  with new others assms(1) locked(2) show ?thesis
    by (auto simp: sessions_ok_def locked(1) session_section_def res Let_def nth_list_update)
qed (use assms(1) in \<open>simp_all add: sessions_ok_def\<close>)

lemma broker_reach_ok: "broker_reach f r \<Longrightarrow> script_ok f r \<and> sessions_ok r"
proof (induction rule: broker_reach.induct)
  case start
  show ?case by (simp add: script_ok_def sessions_ok_def serve_start_def served_def)
next
  case (step r r')
  then show ?case using script_ok_step sessions_ok_step by blast
qed

subsection \<open>A script fixed beforehand\<close>

text \<open>When the test queues nothing after the start, the answers are those of the script by position, across all sessions.\<close>

definition requests_of :: "answer list \<Rightarrow> bytes list" where
  "requests_of log = map (fst \<circ> snd) log"

definition count_fn :: "byte \<Rightarrow> bytes list \<Rightarrow> nat" where
  "count_fn fn ps = length (filter (\<lambda>p. hd p = fn) ps)"

definition follows :: "fake_broker \<Rightarrow> broker_run \<Rightarrow> bool" where
  "follows f r \<longleftrightarrow>
     (\<forall>j < length (ru_log r). response (snd (ru_log r ! j)) = scripted (fb_queues f) (requests_of (ru_log r)) j) \<and>
     (\<forall>fn. fb_queues (ru_fb r) fn = drop (count_fn fn (requests_of (ru_log r))) (fb_queues f fn))"

lemma scripted_snoc:
  "j < length ps \<Longrightarrow> scripted q (ps @ [p]) j = scripted q ps j"
  "scripted q (ps @ [p]) (length ps) = (case drop (count_fn (hd p) ps) (q (hd p)) of [] \<Rightarrow> [0, 0, 0, 0] | r # _ \<Rightarrow> r)"
  by (auto simp: scripted_def nth_append Let_def count_fn_def split: list.split simp flip: Cons_nth_drop_Suc)

lemma follows_answer:
  assumes "follows f r" and "fb_queues f' = (fb_queues (ru_fb r))(hd b := tl (fb_queues (ru_fb r) (hd b)))"
    and "a = (case fb_queues (ru_fb r) (hd b) of [] \<Rightarrow> None | x # _ \<Rightarrow> Some x)"
  shows "follows f (r\<lparr>ru_fb := f', ru_conns := cs, ru_log := ru_log r @ [(i, b, a)]\<rparr>)"
proof -
  let ?ps = "requests_of (ru_log r)"
  have q: "fb_queues (ru_fb r) fn = drop (count_fn fn ?ps) (fb_queues f fn)" for fn
    using assms(1) by (simp add: follows_def)
  have len: "length ?ps = length (ru_log r)" by (simp add: requests_of_def)
  have ps: "requests_of (ru_log r @ [(i, b, a)]) = ?ps @ [b]" by (simp add: requests_of_def)
  have "response (snd ((ru_log r @ [(i, b, a)]) ! j)) = scripted (fb_queues f) (?ps @ [b]) j" if "j < Suc (length (ru_log r))" for j
  proof (cases "j = length (ru_log r)")
    case True
    then show ?thesis
      using scripted_snoc(2) [of "fb_queues f" ?ps b] by (simp add: assms(3) q len split: list.split)
  next
    case False
    with that have "j < length ?ps" by (simp add: len)
    then show ?thesis using assms(1) scripted_snoc(1) [of j ?ps] by (simp add: nth_append follows_def len)
  qed
  moreover have "fb_queues f' fn = drop (count_fn fn (?ps @ [b])) (fb_queues f fn)" for fn
    by (simp add: assms(2) q count_fn_def tl_drop drop_Suc)
  ultimately show ?thesis by (simp add: follows_def ps)
qed

lemma follows_section:
  assumes "follows f r"
  shows "follows f (session_section i n r)"
proof -
  let ?k = "ru_conns r ! i"
  let ?b = "take n (bk_in ?k)"
  obtain out s f' where res: "resume (bk_at ?k) ?b (ru_fb r) = (out, s, f')" by (cases "resume (bk_at ?k) ?b (ru_fb r)")
  show ?thesis
  proof (cases "answer_of (bk_at ?k) ?b (ru_fb r)")
    case None
    then have "fb_queues f' = fb_queues (ru_fb r)"
      using res by (cases "bk_at ?k") (auto simp: answer_of_def session_greeted_def session_authenticated_def session_request_def
          Let_def split: if_splits)
    with None assms show ?thesis by (simp add: follows_def session_section_def res logged_def Let_def)
  next
    case (Some a)
    then have "fb_queues f' = (fb_queues (ru_fb r))(hd ?b := tl (fb_queues (ru_fb r) (hd ?b)))"
      and "a = (case fb_queues (ru_fb r) (hd ?b) of [] \<Rightarrow> None | x # _ \<Rightarrow> Some x)"
      using res by (auto simp: answer_of_def session_request_def fb_reply_def Let_def fun_eq_iff
          split: session.splits if_splits list.splits)
    from follows_answer [OF assms this, where i = i] Some show ?thesis
      by (simp add: session_section_def res logged_def Let_def)
  qed
qed

lemma follows_step:
  assumes "\<And>fn. prefix (fb_queues f fn) (ru_queued r fn)" and "ru_queued r = fb_queues f \<Longrightarrow> follows f r" and "broker_step r r'"
  shows "prefix (fb_queues f fn) (ru_queued r' fn)" and "ru_queued r' = fb_queues f \<Longrightarrow> follows f r'"
proof -
  show "prefix (fb_queues f fn) (ru_queued r' fn)"
    using assms(3,1) by cases (auto simp: session_section_def Let_def split: prod.split intro: prefix_order.trans)
  show "follows f r'" if "ru_queued r' = fb_queues f"
    using assms(3)
  proof cases
    case (locked i n)
    have "ru_queued r' = ru_queued r" by (simp add: locked(1) session_section_def Let_def split: prod.split)
    with that assms(2) show ?thesis by (simp add: locked(1) follows_section)
  next
    case (queue fn b)
    have "ru_queued r' fn = fb_queues f fn" using that by simp
    then have "fb_queues f fn = ru_queued r fn @ [b]" by (simp add: queue)
    then have "length (fb_queues f fn) = Suc (length (ru_queued r fn))" by simp
    with prefix_length_le [OF assms(1) [of fn]] show ?thesis by simp
  next
    case (enable_tls cert f')
    with that assms(2) show ?thesis by (auto simp: follows_def EnableTLS_def bindE_Inr_iff)
  qed (use that assms(2) in \<open>simp_all add: follows_def SetProtocolVersion_def\<close>)
qed

lemma broker_reach_follows:
  "broker_reach f r \<Longrightarrow> (\<forall>fn. prefix (fb_queues f fn) (ru_queued r fn)) \<and> (ru_queued r = fb_queues f \<longrightarrow> follows f r)"
proof (induction rule: broker_reach.induct)
  case start
  show ?case by (simp add: serve_start_def follows_def requests_of_def count_fn_def)
next
  case (step r r')
  then show ?case using follows_step [of f r r'] by blast
qed

text \<open>The bytes a session waits for arrive, are handled, and what it says to them is written.\<close>

lemma broker_reach_exchange:
  assumes "broker_reach f r" and "i < length (ru_conns r)" and "ru_conns r ! i = k"
    and "needs (bk_at k) = Some (length b)" and "bk_in k = []" and "bk_pending k = []" and "\<not> bk_eof k"
    and "resume (bk_at k) b (ru_fb r) = (out, s, f')"
  shows "broker_reach f (r\<lparr>ru_fb := f',
    ru_conns := (ru_conns r)[i := k\<lparr>bk_at := s, bk_out := bk_out k @ out, bk_received := bk_received k @ b\<rparr>],
    ru_log := ru_log r @ logged i (bk_at k) b (ru_fb r)\<rparr>)"
proof -
  let ?k1 = "k\<lparr>bk_in := b, bk_received := bk_received k @ b\<rparr>"
  let ?k2 = "?k1\<lparr>bk_at := s, bk_in := [], bk_pending := out\<rparr>"
  let ?r1 = "r\<lparr>ru_conns := (ru_conns r)[i := ?k1]\<rparr>"
  let ?r2 = "r\<lparr>ru_fb := f', ru_conns := (ru_conns r)[i := ?k2], ru_log := ru_log r @ logged i (bk_at k) b (ru_fb r)\<rparr>"
  have "session_step (ru_conns r ! i) ?k1" using session_step.arrives [of k b] assms by simp
  then have 1: "broker_reach f ?r1" using assms(1,2) by (blast intro: broker_reach.step broker_step.own)
  have "session_section i (length b) ?r1 = ?r2" using assms by (simp add: session_section_def Let_def)
  then have 2: "broker_reach f ?r2"
    using broker_reach.step [OF 1 broker_step.locked [of i ?r1 "length b"]] assms by simp
  have "session_step ?k2 (?k2\<lparr>bk_pending := [], bk_out := bk_out ?k2 @ bk_pending ?k2\<rparr>)" by (rule session_step.writes)
  then have "broker_step ?r2 (?r2\<lparr>ru_conns := (ru_conns ?r2)[i := ?k2\<lparr>bk_pending := [], bk_out := bk_out ?k2 @ bk_pending ?k2\<rparr>]\<rparr>)"
    using assms(2) by (intro broker_step.own) simp_all
  from broker_reach.step [OF 2 this] show ?thesis using assms(5,6) by (cases k; cases r) simp
qed

end
