(* ===== verification/Record_Proxy.thy ===== *)
theory Record_Proxy
  imports Go_Strings "HOL-Library.Sublist"
begin

section \<open>The recording proxy (cmd/record-proxy/main.go)\<close>

text \<open>
  The program parses its flags, listens, and proxies every accepted connection in a goroutine of its
  own. A proxied connection runs two \<^verbatim>\<open>io.Copy\<close> goroutines, one per direction, each through a \<^verbatim>\<open>tap\<close>
  that dumps a chunk to standard output under a mutex before it forwards it; it is torn down as soon
  as one of them is done. All goroutines of all connections interleave as an inductive step relation,
  in which the section under the mutex, one dump, is a single step.
  \<^verbatim>\<open>hex.Dump\<close> is written out, and a dump is shown to give its bytes back.
\<close>

subsection \<open>The dump\<close>

definition hexDigit :: "nat \<Rightarrow> char" where
  "hexDigit n = ''0123456789abcdef'' ! n"

definition hexByte :: "byte \<Rightarrow> string" where
  "hexByte b = [hexDigit (unat b div 16), hexDigit (unat b mod 16)]"

definition toChar :: "byte \<Rightarrow> char" where
  "toChar b = (if unat b < 32 \<or> unat b > 126 then CHR ''.'' else char_of (unat b))"

text \<open>An extra space after the eighth byte of a line; a space and a bar after the sixteenth.\<close>

definition dump_sep :: "nat \<Rightarrow> string" where
  "dump_sep i = (if i = 7 then '' '' else if i = 15 then '' |'' else [])"

fun dump_pad :: "nat \<Rightarrow> nat \<Rightarrow> string" where
  "dump_pad i 0 = []"
| "dump_pad i (Suc n) = ''   '' @ dump_sep i @ dump_pad (Suc i) n"

fun dump_cells :: "nat \<Rightarrow> bytes \<Rightarrow> string" where
  "dump_cells i [] = dump_pad i (16 - i)"
| "dump_cells i (b # bs) = hexByte b @ '' '' @ dump_sep i @ dump_cells (Suc i) bs"

definition dump_line :: "nat \<Rightarrow> bytes \<Rightarrow> string" where
  "dump_line off bs =
     concat (map hexByte (put_u32 (of_nat off))) @ ''  '' @ dump_cells 0 bs @ map toChar bs @ ''|'' @ [CHR 0x0A]"

function hexDump :: "nat \<Rightarrow> bytes \<Rightarrow> string" where
  "hexDump off bs = (if bs = [] then [] else dump_line off (take 16 bs) @ hexDump (off + 16) (drop 16 bs))"
  by pat_completeness auto
termination by (relation "measure (\<lambda>(off, bs). length bs)") auto

declare hexDump.simps [simp del]

subsection \<open>Reading a dump back\<close>

definition unhex :: "char \<Rightarrow> nat" where
  "unhex c = (if of_char c < (58 :: nat) then of_char c - 48 else of_char c - 87)"

definition unhexByte :: "string \<Rightarrow> byte" where
  "unhexByte s = of_nat (unhex (s ! 0) * 16 + unhex (s ! 1))"

fun read_cells :: "nat \<Rightarrow> nat \<Rightarrow> string \<Rightarrow> bytes" where
  "read_cells i 0 s = []"
| "read_cells i (Suc n) s = unhexByte (take 2 s) # read_cells (Suc i) n (drop (3 + length (dump_sep i)) s)"

function undump :: "nat \<Rightarrow> string \<Rightarrow> bytes" where
  "undump n s =
     (if n = 0 then []
      else read_cells 0 (min n 16) (drop 10 s) @ undump (n - 16) (drop (63 + min n 16) s))"
  by pat_completeness auto
termination by (relation "measure fst") auto

declare undump.simps [simp del]

lemma unhex_hexDigit: "n < 16 \<Longrightarrow> unhex (hexDigit n) = n"
proof -
  have "\<forall>n \<in> set [0..<16]. unhex (hexDigit n) = n" by code_simp
  then show "n < 16 \<Longrightarrow> unhex (hexDigit n) = n" by simp
qed

lemma unhexByte_hexByte: "unhexByte (hexByte b) = b"
proof -
  have b: "unat b < 256" using unsigned_less [of b] by simp
  then have "unat b div 16 < 16" "unat b mod 16 < 16" by simp_all
  then have "unhexByte (hexByte b) = of_nat (unat b div 16 * 16 + unat b mod 16)"
    by (simp add: unhexByte_def hexByte_def unhex_hexDigit)
  then show ?thesis by simp
qed

lemma read_cells_dump: "read_cells i (length bs) (dump_cells i bs @ t) = bs"
proof (induction bs arbitrary: i)
  case (Cons b bs)
  have "take 2 (hexByte b @ u) = hexByte b" and "drop (3 + n) (hexByte b @ '' '' @ u) = drop n u" for u n
    by (simp_all add: hexByte_def numeral_3_eq_3 numeral_2_eq_2)
  with Cons show ?case by (simp add: unhexByte_hexByte)
qed simp

lemma length_hexBytes: "length (concat (map hexByte bs)) = 2 * length bs"
  by (induction bs) (simp_all add: hexByte_def)

lemma length_dump_pad: "i + n = 16 \<Longrightarrow> length (dump_pad i n) = 3 * n + (if i \<le> 7 then 1 else 0) + (if i \<le> 15 then 2 else 0)"
  by (induction n arbitrary: i) (auto simp: dump_sep_def)

lemma length_dump_cells:
  "i + length bs \<le> 16 \<Longrightarrow> length (dump_cells i bs) = 3 * (16 - i) + (if i \<le> 7 then 1 else 0) + (if i \<le> 15 then 2 else 0)"
  by (induction bs arbitrary: i) (auto simp: length_dump_pad hexByte_def dump_sep_def)

lemma undump_hexDump: "undump (length bs) (hexDump off bs @ t) = bs"
proof (induction off bs arbitrary: t rule: hexDump.induct)
  case (1 off bs)
  show ?case
  proof (cases "bs = []")
    case True
    then show ?thesis by (simp add: undump.simps)
  next
    case False
    let ?l = "take 16 bs"
    let ?o = "concat (map hexByte (put_u32 (of_nat off)))"
    have o: "length ?o = 8" by (simp add: length_hexBytes)
    have len: "length (dump_line off ?l) = 63 + min (length bs) 16"
      by (simp add: dump_line_def o length_dump_cells)
    have cells: "read_cells 0 (min (length bs) 16) (drop 10 (dump_line off ?l @ u)) = ?l" for u
      using read_cells_dump [of 0 ?l "map toChar ?l @ ''|'' @ [CHR 0x0A] @ u"]
      by (simp add: dump_line_def o)
    have dump: "hexDump off bs = dump_line off ?l @ hexDump (off + 16) (drop 16 bs)"
      using False by (simp add: hexDump.simps [of off bs])
    have "undump (length bs) (hexDump off bs @ t) =
        ?l @ undump (length bs - 16) (hexDump (off + 16) (drop 16 bs) @ t)"
      using False len cells by (subst undump.simps) (simp add: dump)
    with 1 [OF False, of t] show ?thesis by simp
  qed
qed

subsection \<open>The tap and the two copies\<close>

definition tap_line :: "string \<Rightarrow> bytes \<Rightarrow> string" where
  "tap_line dir p = dir @ '' '' @ Itoa (int (length p)) @ '' bytes'' @ [CHR 0x0A] @ hexDump 0 p @ [CHR 0x0A]"

text \<open>
  Where a copy is: waiting in \<^verbatim>\<open>Read\<close>, about to dump a chunk, about to forward it, or returned.
  \<open>cp_input\<close> is what has arrived from the source and is unread, \<open>cp_received\<close> everything that has
  arrived, \<open>cp_output\<close> everything forwarded.
\<close>

datatype copy_at = Reading | Dumping bytes | Forwarding bytes | Done

record copier =
  cp_at :: copy_at
  cp_input :: bytes
  cp_eof :: bool
  cp_received :: bytes
  cp_output :: bytes

datatype direction = Up | Down

fun tap_dir :: "direction \<Rightarrow> string" where
  "tap_dir Up = ''>>''"
| "tap_dir Down = ''<<''"

record proxy =
  px_copier :: "direction \<Rightarrow> copier"
  px_closed :: bool

definition new_copier :: copier where
  "new_copier = \<lparr>cp_at = Reading, cp_input = [], cp_eof = False, cp_received = [], cp_output = []\<rparr>"

definition new_proxy :: proxy where
  "new_proxy = \<lparr>px_copier = (\<lambda>_. new_copier), px_closed = False\<rparr>"

definition copy_buffer :: nat where
  "copy_buffer = 32 * 1024"

text \<open>The steps of one copy. A write may fail part way, and a read fails once the sockets are closed.\<close>

inductive copy_step :: "bool \<Rightarrow> copier \<Rightarrow> copier \<Rightarrow> bool" for closed where
  arrive: "\<not> cp_eof k \<Longrightarrow>
    copy_step closed k (k\<lparr>cp_input := cp_input k @ b, cp_received := cp_received k @ b\<rparr>)"
| hangup: "copy_step closed k (k\<lparr>cp_eof := True\<rparr>)"
| read: "cp_at k = Reading \<Longrightarrow> \<not> closed \<Longrightarrow> 0 < n \<Longrightarrow> n \<le> copy_buffer \<Longrightarrow> n \<le> length (cp_input k) \<Longrightarrow>
    copy_step closed k (k\<lparr>cp_at := Dumping (take n (cp_input k)), cp_input := drop n (cp_input k)\<rparr>)"
| forward: "cp_at k = Forwarding b \<Longrightarrow> \<not> closed \<Longrightarrow>
    copy_step closed k (k\<lparr>cp_at := Reading, cp_output := cp_output k @ b\<rparr>)"
| short_write: "cp_at k = Forwarding b \<Longrightarrow>
    copy_step closed k (k\<lparr>cp_at := Done, cp_output := cp_output k @ take n b\<rparr>)"
| read_eof: "cp_at k = Reading \<Longrightarrow> cp_eof k \<Longrightarrow> cp_input k = [] \<Longrightarrow> copy_step closed k (k\<lparr>cp_at := Done\<rparr>)"
| read_fails: "cp_at k = Reading \<Longrightarrow> copy_step closed k (k\<lparr>cp_at := Done\<rparr>)"

inductive_cases copy_stepE: "copy_step closed k k'"

text \<open>A step of a connection, with what it dumps.\<close>

inductive proxy_step :: "proxy \<Rightarrow> (direction \<times> bytes) list \<Rightarrow> proxy \<Rightarrow> bool" where
  copy: "copy_step (px_closed p) (px_copier p d) k \<Longrightarrow> proxy_step p [] (p\<lparr>px_copier := (px_copier p)(d := k)\<rparr>)"
| dump: "cp_at (px_copier p d) = Dumping b \<Longrightarrow>
    proxy_step p [(d, b)] (p\<lparr>px_copier := (px_copier p)(d := (px_copier p d)\<lparr>cp_at := Forwarding b\<rparr>)\<rparr>)"
| teardown: "cp_at (px_copier p d) = Done \<Longrightarrow> proxy_step p [] (p\<lparr>px_closed := True\<rparr>)"

inductive_cases proxy_stepE: "proxy_step p out p'"

subsection \<open>The program\<close>

text \<open>
  \<^verbatim>\<open>flag.Parse\<close> for the two string flags: a value follows after \<^verbatim>\<open>=\<close> or as the next argument, parsing
  stops at the first argument that is not a flag. A bad flag exits with status 2, a request for help
  with 0.
\<close>

fun split_eq :: "string \<Rightarrow> string \<times> string option" where
  "split_eq [] = ([], None)"
| "split_eq (c # cs) = (if c = CHR ''='' then ([], Some cs) else (case split_eq cs of (n, v) \<Rightarrow> (c # n, v)))"

datatype flag_result = FlagsDone | FlagExit nat | FlagSet string "string option"

definition flag_name :: "string \<Rightarrow> flag_result" where
  "flag_name s =
     (if length s < 2 \<or> hd s \<noteq> CHR ''-'' \<or> s = ''--'' then FlagsDone
      else let name = drop (if s ! 1 = CHR ''-'' then 2 else 1) s in
        if name = [] \<or> hd name = CHR ''-'' \<or> hd name = CHR ''='' then FlagExit 2
        else case split_eq name of
          (n, v) \<Rightarrow>
            if n = ''listen'' \<or> n = ''target'' then FlagSet n v
            else if n = ''help'' \<or> n = ''h'' then FlagExit 0 else FlagExit 2)"

record flags =
  fl_listen :: string
  fl_target :: string

definition set_flag :: "string \<Rightarrow> string \<Rightarrow> flags \<Rightarrow> flags" where
  "set_flag n v fl = (if n = ''listen'' then fl\<lparr>fl_listen := v\<rparr> else fl\<lparr>fl_target := v\<rparr>)"

fun parse_flags :: "string list \<Rightarrow> flags \<Rightarrow> nat + flags" where
  "parse_flags [] fl = Inr fl"
| "parse_flags (s # rest) fl =
     (case flag_name s of
        FlagsDone \<Rightarrow> Inr fl
      | FlagExit code \<Rightarrow> Inl code
      | FlagSet n (Some v) \<Rightarrow> parse_flags rest (set_flag n v fl)
      | FlagSet n None \<Rightarrow> (case rest of [] \<Rightarrow> Inl 2 | v # rest' \<Rightarrow> parse_flags rest' (set_flag n v fl)))"

text \<open>
  A connection while its target is being dialled, proxied, or dropped after a failed dial. Fatal
  errors end the process with status 1, whatever its goroutines are doing.
\<close>

datatype served_conn = Dialling | Proxying proxy | Dropped

record recorder =
  rc_target :: string
  rc_conns :: "served_conn list"
  rc_stdout :: "string list"
  rc_stderr :: "error list"
  rc_exit :: "nat option"

definition main_start :: "string list \<Rightarrow> (string \<Rightarrow> error + unit) \<Rightarrow> nat + recorder" where
  "main_start args net_Listen =
     (case parse_flags args \<lparr>fl_listen = '':7777'', fl_target = []\<rparr> of
        Inl code \<Rightarrow> Inl code
      | Inr fl \<Rightarrow>
          if fl_target fl = [] then Inl 1
          else case net_Listen (fl_listen fl) of
            Inl e \<Rightarrow> Inl 1
          | Inr _ \<Rightarrow> Inr \<lparr>rc_target = fl_target fl, rc_conns = [], rc_stdout = [],
              rc_stderr = [Errorf ''proxying %s -> %s'' [EStr (fl_listen fl), EStr (fl_target fl)]], rc_exit = None\<rparr>)"

definition tap_lines :: "(direction \<times> bytes) list \<Rightarrow> string list" where
  "tap_lines out = map (\<lambda>(d, b). tap_line (tap_dir d) b) out"

inductive recorder_step :: "recorder \<Rightarrow> recorder \<Rightarrow> bool" where
  accept: "rc_exit r = None \<Longrightarrow> recorder_step r (r\<lparr>rc_conns := rc_conns r @ [Dialling]\<rparr>)"
| accept_fails: "rc_exit r = None \<Longrightarrow> recorder_step r (r\<lparr>rc_stderr := rc_stderr r @ [e], rc_exit := Some 1\<rparr>)"
| dialled: "rc_exit r = None \<Longrightarrow> i < length (rc_conns r) \<Longrightarrow> rc_conns r ! i = Dialling \<Longrightarrow>
    recorder_step r (r\<lparr>rc_conns := (rc_conns r)[i := Proxying new_proxy]\<rparr>)"
| dial_fails: "rc_exit r = None \<Longrightarrow> i < length (rc_conns r) \<Longrightarrow> rc_conns r ! i = Dialling \<Longrightarrow>
    recorder_step r (r\<lparr>rc_conns := (rc_conns r)[i := Dropped], rc_stderr := rc_stderr r @ [e]\<rparr>)"
| proxies: "rc_exit r = None \<Longrightarrow> i < length (rc_conns r) \<Longrightarrow> rc_conns r ! i = Proxying p \<Longrightarrow> proxy_step p out p' \<Longrightarrow>
    recorder_step r (r\<lparr>rc_conns := (rc_conns r)[i := Proxying p'], rc_stdout := rc_stdout r @ tap_lines out\<rparr>)"

inductive recorder_reach :: "string list \<Rightarrow> (string \<Rightarrow> error + unit) \<Rightarrow> recorder \<Rightarrow> bool" for args net_Listen where
  start: "main_start args net_Listen = Inr r \<Longrightarrow> recorder_reach args net_Listen r"
| step: "recorder_reach args net_Listen r \<Longrightarrow> recorder_step r r' \<Longrightarrow> recorder_reach args net_Listen r'"

subsection \<open>The proxy is transparent\<close>

fun in_flight :: "copy_at \<Rightarrow> bytes" where
  "in_flight (Dumping b) = b"
| "in_flight (Forwarding b) = b"
| "in_flight _ = []"

text \<open>
  \<open>dumped\<close> is what the capture holds of a direction. A copy that runs has forwarded everything that
  has arrived but the chunk in flight and the unread input, and dumped everything forwarded; one
  that has returned has forwarded a prefix of what it dumped, which is a prefix of what arrived.
\<close>

definition dumped :: "nat \<Rightarrow> direction \<Rightarrow> (nat \<times> direction \<times> bytes) list \<Rightarrow> bytes" where
  "dumped i d log = concat (map (snd \<circ> snd) (filter (\<lambda>e. fst e = i \<and> fst (snd e) = d) log))"

definition copier_ok :: "bytes \<Rightarrow> copier \<Rightarrow> bool" where
  "copier_ok dump k \<longleftrightarrow>
     (case cp_at k of
        Done \<Rightarrow> prefix (cp_output k) dump \<and> prefix dump (cp_received k)
      | Forwarding b \<Rightarrow> dump = cp_output k @ b \<and> cp_received k = dump @ cp_input k
      | s \<Rightarrow> dump = cp_output k \<and> cp_received k = dump @ in_flight s @ cp_input k)"

definition proxy_ok :: "(direction \<Rightarrow> bytes) \<Rightarrow> proxy \<Rightarrow> bool" where
  "proxy_ok dump p \<longleftrightarrow> (\<forall>d. copier_ok (dump d) (px_copier p d))"

definition conn_ok :: "nat \<Rightarrow> (nat \<times> direction \<times> bytes) list \<Rightarrow> served_conn \<Rightarrow> bool" where
  "conn_ok i log k \<longleftrightarrow> (case k of Proxying p \<Rightarrow> proxy_ok (\<lambda>d. dumped i d log) p | _ \<Rightarrow> \<forall>d. dumped i d log = [])"

definition recorder_ok :: "(nat \<times> direction \<times> bytes) list \<Rightarrow> recorder \<Rightarrow> bool" where
  "recorder_ok log r \<longleftrightarrow> rc_stdout r = tap_lines (map snd log) \<and> (\<forall>e \<in> set log. fst e < length (rc_conns r)) \<and>
     (\<forall>i < length (rc_conns r). conn_ok i log (rc_conns r ! i))"

lemma copy_step_ok:
  assumes "copy_step closed k k'" and "copier_ok dump k"
  shows "copier_ok dump k'"
  using assms
proof (cases rule: copy_step.cases)
  case (arrive b)
  then show ?thesis using assms(2) by (auto simp: copier_ok_def split: copy_at.splits)
next
  case (short_write b n)
  then show ?thesis using assms(2) by (auto simp: copier_ok_def prefix_def) (metis append_take_drop_id append_assoc)
qed (use assms(2) in \<open>auto simp: copier_ok_def prefix_def split: copy_at.splits\<close>)

lemma dumped_append: "dumped i d (a @ b) = dumped i d a @ dumped i d b"
  by (simp add: dumped_def)

lemma dumped_tagged: "dumped j d (map (Pair i) out) = (if j = i then concat (map snd (filter (\<lambda>e. fst e = d) out)) else [])"
  by (auto simp: dumped_def filter_map comp_def)

lemma dumped_none: "\<forall>e \<in> set log. fst e \<noteq> i \<Longrightarrow> dumped i d log = []"
  by (auto simp: dumped_def filter_empty_conv)

lemma proxy_step_ok:
  assumes "proxy_step p out p'" and "proxy_ok dump p"
  shows "proxy_ok (\<lambda>d. dump d @ concat (map snd (filter (\<lambda>e. fst e = d) out))) p'"
  using assms(1)
proof (cases rule: proxy_step.cases)
  case (copy d k)
  then show ?thesis using assms(2) copy_step_ok by (auto simp: proxy_ok_def)
next
  case (dump d b)
  have "copier_ok (dump d) (px_copier p d)" using assms(2) by (simp add: proxy_ok_def)
  then have "copier_ok (dump d @ b) ((px_copier p d)\<lparr>cp_at := Forwarding b\<rparr>)"
    using dump(3) by (simp add: copier_ok_def)
  then show ?thesis using assms(2) dump(1,2) by (simp add: proxy_ok_def)
next
  case (teardown d)
  then show ?thesis using assms(2) by (simp add: proxy_ok_def)
qed

lemma new_proxy_ok: "proxy_ok (\<lambda>_. []) new_proxy"
  by (simp add: proxy_ok_def new_proxy_def copier_ok_def new_copier_def)

lemma tap_lines_append: "tap_lines (a @ b) = tap_lines a @ tap_lines b"
  by (simp add: tap_lines_def)

lemma recorder_step_ok:
  assumes "recorder_step r r'" and "recorder_ok log r"
  shows "\<exists>log'. recorder_ok log' r'"
  using assms(1)
proof (cases rule: recorder_step.cases)
  case accept
  have "dumped (length (rc_conns r)) d log = []" for d
    using assms(2) by (intro dumped_none) (auto simp: recorder_ok_def)
  then have "recorder_ok log r'"
    using assms(2) by (auto simp: recorder_ok_def conn_ok_def [of _ _ Dialling] accept nth_append less_Suc_eq)
  then show ?thesis ..
next
  case (accept_fails e)
  then have "recorder_ok log r'" using assms(2) by (simp add: recorder_ok_def)
  then show ?thesis ..
next
  case (dialled i)
  then have "\<forall>d. dumped i d log = []" using assms(2) by (auto simp: recorder_ok_def conn_ok_def)
  then have "conn_ok i log (Proxying new_proxy)" using new_proxy_ok by (simp add: conn_ok_def)
  then have "recorder_ok log r'" using assms(2) dialled(3) by (simp add: recorder_ok_def dialled(1) nth_list_update)
  then show ?thesis ..
next
  case (dial_fails i e)
  then have "\<forall>d. dumped i d log = []" using assms(2) by (auto simp: recorder_ok_def conn_ok_def)
  then have "conn_ok i log Dropped" by (simp add: conn_ok_def)
  then have "recorder_ok log r'" using assms(2) dial_fails(3) by (simp add: recorder_ok_def dial_fails(1) nth_list_update)
  then show ?thesis ..
next
  case (proxies i p out p')
  let ?log = "log @ map (Pair i) out"
  have "proxy_ok (\<lambda>d. dumped i d log) p" using assms(2) proxies(3,4) by (auto simp: recorder_ok_def conn_ok_def)
  from proxy_step_ok [OF proxies(5) this] have new: "proxy_ok (\<lambda>d. dumped i d ?log) p'"
    by (simp add: dumped_append dumped_tagged)
  have old: "dumped j d ?log = dumped j d log" if "j \<noteq> i" for j d
    using that by (simp add: dumped_append dumped_tagged)
  have "conn_ok j ?log ((rc_conns r)[i := Proxying p'] ! j)" if "j < length (rc_conns r)" for j
  proof (cases "j = i")
    case True
    with that new show ?thesis by (simp add: conn_ok_def)
  next
    case False
    with that assms(2) have "conn_ok j log (rc_conns r ! j)" by (simp add: recorder_ok_def)
    with False old show ?thesis by (simp add: conn_ok_def split: served_conn.splits)
  qed
  moreover have "tap_lines (map snd ?log) = rc_stdout r @ tap_lines out"
    using assms(2) by (simp add: recorder_ok_def tap_lines_append comp_def)
  moreover have "\<forall>e \<in> set ?log. fst e < length (rc_conns r)" using assms(2) proxies(3) by (auto simp: recorder_ok_def)
  ultimately have "recorder_ok ?log r'" by (simp add: recorder_ok_def proxies(1))
  then show ?thesis ..
qed

lemma recorder_reach_ok: "recorder_reach args net_Listen r \<Longrightarrow> \<exists>log. recorder_ok log r"
proof (induction rule: recorder_reach.induct)
  case (start r)
  then have "recorder_ok [] r"
    by (auto simp: main_start_def recorder_ok_def tap_lines_def split: sum.splits if_splits)
  then show ?case ..
next
  case (step r r')
  then show ?case using recorder_step_ok by blast
qed

lemma copier_ok_prefix:
  "copier_ok dump k \<Longrightarrow> prefix (cp_output k) dump \<and> prefix dump (cp_received k)"
  by (auto simp: copier_ok_def prefix_def split: copy_at.splits)

lemma copier_ok_running:
  "copier_ok dump k \<Longrightarrow> cp_at k \<noteq> Done \<Longrightarrow> cp_output k @ in_flight (cp_at k) @ cp_input k = cp_received k"
  by (auto simp: copier_ok_def split: copy_at.splits)

text \<open>
  The connection is closed as soon as the first of the two copies returns, so what the other one has
  not forwarded by then is lost: after the client has sent its last request and shut down its sending
  side, an answer that arrives late is never delivered.
\<close>

definition cut_off :: proxy where
  "cut_off = \<lparr>px_copier = (\<lambda>d. case d of
       Up \<Rightarrow> new_copier\<lparr>cp_at := Done, cp_eof := True\<rparr>
     | Down \<Rightarrow> new_copier\<lparr>cp_input := [2], cp_received := [2]\<rparr>), px_closed = True\<rparr>"

definition proxy_runs :: "proxy \<Rightarrow> proxy \<Rightarrow> bool" where
  "proxy_runs = (\<lambda>p p'. \<exists>out. proxy_step p out p')\<^sup>*\<^sup>*"

lemma proxy_runs_step: "proxy_runs p0 p \<Longrightarrow> proxy_step p out p' \<Longrightarrow> proxy_runs p0 p'"
  unfolding proxy_runs_def by (blast intro: rtranclp.rtrancl_into_rtrancl)

lemma closed_forwards_nothing:
  assumes "proxy_step p out p'" and "px_closed p" and "cp_at (px_copier p d) \<in> {Reading, Done}"
  shows "px_closed p' \<and> cp_at (px_copier p' d) \<in> {Reading, Done} \<and> cp_output (px_copier p' d) = cp_output (px_copier p d)"
  using assms by (auto elim!: proxy_stepE copy_stepE split: if_splits)

lemma cut_off_reached: "proxy_runs new_proxy cut_off"
proof -
  let ?up = "new_copier\<lparr>cp_eof := True\<rparr>"
  let ?p1 = "new_proxy\<lparr>px_copier := (px_copier new_proxy)(Up := ?up)\<rparr>"
  let ?p2 = "?p1\<lparr>px_copier := (px_copier ?p1)(Up := ?up\<lparr>cp_at := Done\<rparr>)\<rparr>"
  let ?p3 = "?p2\<lparr>px_copier := (px_copier ?p2)(Down := new_copier\<lparr>cp_input := [2], cp_received := [2]\<rparr>)\<rparr>"
  have 1: "proxy_step new_proxy [] ?p1" by (rule proxy_step.copy) (simp add: copy_step.hangup new_proxy_def)
  have "copy_step (px_closed ?p1) ?up (?up\<lparr>cp_at := Done\<rparr>)"
    by (rule copy_step.read_eof) (simp_all add: new_copier_def)
  then have 2: "proxy_step ?p1 [] ?p2" by (intro proxy_step.copy) simp
  have "copy_step (px_closed ?p2) new_copier (new_copier\<lparr>cp_input := cp_input new_copier @ [2],
      cp_received := cp_received new_copier @ [2]\<rparr>)"
    by (rule copy_step.arrive) (simp add: new_copier_def)
  then have 3: "proxy_step ?p2 [] ?p3" by (intro proxy_step.copy) (simp add: new_copier_def new_proxy_def)
  have 4: "proxy_step ?p3 [] (?p3\<lparr>px_closed := True\<rparr>)" by (rule proxy_step.teardown [of _ Up]) simp
  have "proxy_runs new_proxy new_proxy" by (simp add: proxy_runs_def)
  from proxy_runs_step [OF proxy_runs_step [OF proxy_runs_step [OF proxy_runs_step [OF this 1] 2] 3] 4]
  have "proxy_runs new_proxy (?p3\<lparr>px_closed := True\<rparr>)" .
  moreover have "?p3\<lparr>px_closed := True\<rparr> = cut_off"
    by (auto simp: cut_off_def new_proxy_def fun_eq_iff split: direction.split)
  ultimately show ?thesis by simp
qed

lemma half_close_cuts_answer:
  "proxy_runs new_proxy cut_off \<and> cp_received (px_copier cut_off Down) = [2] \<and>
   (\<forall>p. proxy_runs cut_off p \<longrightarrow> cp_output (px_copier p Down) = [])"
proof -
  have "px_closed p \<and> cp_at (px_copier p Down) \<in> {Reading, Done} \<and> cp_output (px_copier p Down) = []"
    if "proxy_runs cut_off p" for p
    using that unfolding proxy_runs_def
    by (induction rule: rtranclp_induct) (auto simp: cut_off_def new_copier_def dest!: closed_forwards_nothing)
  with cut_off_reached show ?thesis by (simp add: cut_off_def)
qed

end
