(* ===== verification/Tooling_Properties.thy ===== *)
theory Tooling_Properties
  imports Broker_Sessions Record_Proxy Demo
begin

section \<open>Properties of the scripted broker and of the recording proxy\<close>

text \<open>
  The client against the broker its tests run on: the handshake succeeds, every response is the one
  scripted for it, and a TLS client is refused where there is no TLS; concurrent sessions share the
  script without mixing. The recording proxy forwards and captures what arrives, and nothing else.
\<close>

subsection \<open>A session with the scripted broker\<close>

text \<open>
  C11. The client and the scripted broker agree on the whole session, in plain text and over TLS:
  \<^verbatim>\<open>Connect\<close> succeeds with the version, process id and session id the broker sends; the response to
  the \<open>k\<close>-th request of a function code is the \<open>k\<close>-th payload queued for that code, and the generic OK
  status once the queue is empty; the broker has recorded exactly the payloads sent, in order, and
  the greeting.
\<close>

theorem fake_broker_session:
  assumes "cfg_AltHosts cfg = []" and "auth_fields_fit cfg (cfg_Host cfg) (cfg_Port cfg)" and "broker_ok f"
    and "\<And>d. n_dial net (w_dials w @ [(JoinHostPort (cfg_Host cfg) (Itoa (cfg_Port cfg)), d)]) =
      Inr (fb_peer idle (ReadGreeting, [], f))"
    and "cfg_SSL cfg \<longrightarrow> tls_reaches net (cfg_Host cfg) (cfg_SSLVerify cfg) idle f"
    and "list_all request_ok ps"
  shows "\<exists>c w' c' f'. Connect net ctx cfg w = (Inr c, w') \<and> session_of f c \<and>
    roundTrips ctx' ps c = (map (\<lambda>i. Inr (NewReader (scripted (fb_queues f) ps i))) [0..<length ps], c') \<and>
    fb_connected f' c' \<and> Requests f' = Requests f @ ps \<and> FB_Greeting f' = Greeting (cfg_SSL cfg)"
proof -
  let ?f = "f\<lparr>fb_greeting := Greeting (cfg_SSL cfg)\<rparr>"
  obtain c w' where con: "Connect net ctx cfg w = (Inr c, w')" "session_of f c" and c: "fb_connected ?f c"
    by (rule Connect_fb [OF assms(1-5)])
  have "replies_fit ?f" using assms(3) by (simp add: broker_ok_def replies_fit_def)
  from fb_roundTrips [OF c this assms(6)] obtain c' where
    r: "roundTrips ctx' ps c = (map (Inr \<circ> NewReader) (fst (fb_script ?f ps)), c')"
    and f': "fb_connected (snd (fb_script ?f ps)) c'" by blast
  from fb_script_eq [of ?f ps] have "fst (fb_script ?f ps) = map (scripted (fb_queues f) ps) [0..<length ps]"
    and q: "Requests (snd (fb_script ?f ps)) = Requests f @ ps" by (simp_all add: Requests_def)
  with r have "roundTrips ctx' ps c = (map (\<lambda>i. Inr (NewReader (scripted (fb_queues f) ps i))) [0..<length ps], c')"
    by (simp add: comp_def)
  moreover have "FB_Greeting (snd (fb_script ?f ps)) = Greeting (cfg_SSL cfg)"
    by (simp add: FB_Greeting_def fb_script_greeting)
  ultimately show ?thesis using con f' q by blast
qed

definition demo_fb :: fake_broker where
  "demo_fb = Queue 8 [7, 7] (Queue 32 [0, 0, 0, 1] (SetProtocolVersion 11
     \<lparr>fb_addr = ''127.0.0.1:0'', fb_queues = (\<lambda>_. []), fb_requests = [], fb_greeting = [], fb_tlsConf = None,
      fb_BrokerInfo = [0, 1, 1, 0, 0x4C, 0, 0, 0], fb_CASPid = 4242\<rparr>))"

definition demo_fb_net :: net where
  "demo_fb_net = \<lparr>n_dial = (\<lambda>_. Inr (fb_peer (NetError ''i/o timeout'') (ReadGreeting, [], demo_fb))),
     n_tls = (\<lambda>_ _ _. Inl (NetError ''no TLS'')), n_clock = (\<lambda>_. 0), n_frame_dir = []\<rparr>"

lemma demo_fb_started:
  "FB_Start (Inr ''127.0.0.1:0'') = Inr f0 \<Longrightarrow> demo_fb = Queue 8 [7, 7] (Queue 32 [0, 0, 0, 1] (SetProtocolVersion 11 f0))"
  by (simp add: FB_Start_def demo_fb_def)

lemma demo_fb_ok: "broker_ok demo_fb"
proof -
  have "fb_queues demo_fb fn = (if fn = 8 then [[7, 7]] else if fn = 32 then [[0, 0, 0, 1]] else [])" for fn
    by (simp add: demo_fb_def Queue_def SetProtocolVersion_def)
  then have "replies_fit demo_fb" by (simp add: replies_fit_def maxPayloadSize_def)
  then show ?thesis by (simp add: broker_ok_def demo_fb_def Queue_def SetProtocolVersion_def)
qed

lemma demo_fields_fit: "auth_fields_fit demo_cfg ''db1'' 33000"
  by (simp add: auth_fields_fit_def demo_cfg_def Itoa_def nat_decimal.simps)

theorem fake_broker_session_witness:
  "\<exists>c w' c' f'. Connect demo_fb_net contextBackground demo_cfg \<lparr>w_dials = [], w_open = []\<rparr> = (Inr c, w') \<and>
    roundTrips contextBackground [[32, 5], [8], [32]] c =
      ([Inr (NewReader [0, 0, 0, 1]), Inr (NewReader [7, 7]), Inr (NewReader [0, 0, 0, 0])], c') \<and>
    Requests f' = [[32, 5], [8], [32]]"
proof -
  let ?ps = "[[32, 5], [8], [32]] :: bytes list"
  have q: "map (scripted (fb_queues demo_fb) ?ps) [0..<3] = [[0, 0, 0, 1], [7, 7], [0, 0, 0, 0]]"
    by (simp add: scripted_def demo_fb_def Queue_def SetProtocolVersion_def upt_rec)
  have "Requests demo_fb = []" by (simp add: demo_fb_def Queue_def SetProtocolVersion_def Requests_def)
  with fake_broker_session [of demo_cfg demo_fb demo_fb_net "\<lparr>w_dials = [], w_open = []\<rparr>" "NetError ''i/o timeout''"
      ?ps contextBackground contextBackground] demo_fb_ok demo_fields_fit q
  show ?thesis by (simp add: demo_cfg_def demo_fb_net_def request_ok_def upt_rec) blast
qed

text \<open>
  A client that asks for TLS and a broker without it fail cleanly: \<^verbatim>\<open>Connect\<close> returns the server
  error for the refused SSL mode, with the explanation, and leaves no socket open.
\<close>

lemma ssl_client_refused:
  assumes "cfg_AltHosts cfg = []" and "cfg_SSL cfg" and "fb_tlsConf f = None" and "world_ok w"
    and "\<And>d. n_dial net (w_dials w @ [(JoinHostPort (cfg_Host cfg) (Itoa (cfg_Port cfg)), d)]) =
      Inr (fb_peer idle (ReadGreeting, [], f))"
  shows "\<exists>w'. Connect net ctx cfg w = (Inl (ServerError (- 10103) ''broker rejected the connection's SSL mode (ssl=true against an SSL=OFF broker, or plaintext against SSL=ON)''), w') \<and>
    w_open w' = w_open w"
  by (rule Connect_fb_no_tls [OF assms, of ctx]) (simp add: rejection_def CASErrSSLTypeNotAllowed_def)

subsection \<open>Concurrent sessions\<close>

text \<open>
  C32. Sessions of the scripted broker do not mix, however their steps and the test's calls interleave:
  the requests recorded are those of all sessions in the order in which they were answered; the
  responses taken from the queue of a function code and those left in it are the responses ever
  queued for it, in order, so that none is lost or given twice; when nothing is queued after the
  start, the \<open>j\<close>-th request overall gets the response the script has for it; and what a session has
  written is its own handshake, complete as soon as one request is answered, followed by the answers
  to its own requests, in the order in which it received them.
\<close>

theorem concurrent_sessions:
  assumes "broker_reach f r" and "i < length (ru_conns r)"
  defines "k \<equiv> ru_conns r ! i" and "es \<equiv> log_of i (ru_log r)"
  shows "Requests (ru_fb r) = Requests f @ requests_of (ru_log r) \<and>
    (\<forall>fn. served fn (ru_log r) @ fb_queues (ru_fb r) fn = ru_queued r fn) \<and>
    (ru_queued r = fb_queues f \<longrightarrow> (\<forall>j < length (ru_log r).
       response (snd (ru_log r ! j)) = scripted (fb_queues f) (requests_of (ru_log r)) j)) \<and>
    (\<exists>hello. hello_of es hello \<and> bk_out k @ bk_pending k = hello @ concat (map (writeFrame \<circ> response) es)) \<and>
    (bk_at k = ReadHeader \<longrightarrow> (\<exists>handshake frames. length handshake = 638 \<and> list_all2 frame_of frames es \<and>
       bk_received k = handshake @ concat frames @ bk_in k))"
proof -
  have s: "script_ok f r" and "sessions_ok r" using broker_reach_ok [OF assms(1)] by simp_all
  then have ok: "session_ok es k" using assms(2) by (simp add: sessions_ok_def k_def es_def)
  have "\<exists>handshake frames. length handshake = 638 \<and> list_all2 frame_of frames es \<and>
       bk_received k = handshake @ concat frames @ bk_in k" if at: "bk_at k = ReadHeader"
  proof -
    obtain g db frames where "length g = 10" "length db = 628" "list_all2 frame_of frames es"
      "bk_received k = g @ db @ concat frames @ [] @ bk_in k"
      using ok at by (auto simp: session_ok_def session_io_def)
    then show ?thesis by (intro exI [of _ "g @ db"] exI [of _ frames]) simp
  qed
  moreover have "\<exists>hello. hello_of es hello \<and> bk_out k @ bk_pending k = hello @ concat (map (writeFrame \<circ> response) es)"
    using session_ok_closed [OF ok] by (simp add: session_closed_def)
  ultimately show ?thesis
    using s broker_reach_follows [OF assms(1)] by (simp add: script_ok_def follows_def requests_of_def)
qed

text \<open>
  Two sessions log in and send the same request: the one that is handled first gets the scripted
  response, the other the default.
\<close>

definition login_bytes :: bytes where
  "login_bytes = replicate 628 0"

definition logged_in :: broker_conn where
  "logged_in = \<lparr>bk_at = ReadHeader, bk_in = [], bk_eof = False, bk_pending = [],
     bk_out = put_u32 0 @ writeFrame (put_u32 4242 @ [0, 1, 1, 0, 0x4B, 0, 0, 0] @ put_u32 7 @ replicate 20 0),
     bk_received = Greeting False @ login_bytes\<rparr>"

definition answered :: "bytes \<Rightarrow> broker_conn" where
  "answered resp = logged_in\<lparr>bk_out := bk_out logged_in @ writeFrame resp,
     bk_received := bk_received logged_in @ put_u32 1 @ [0, 0, 0, 0] @ [32]\<rparr>"

definition two_sessions :: "fake_broker \<Rightarrow> broker_conn list \<Rightarrow> answer list \<Rightarrow> broker_run" where
  "two_sessions f cs log = \<lparr>ru_fb = f, ru_conns = cs, ru_listening = True, ru_log = log, ru_queued = fb_queues demo_fb\<rparr>"

lemma demo_fb_fields:
  "fb_queues demo_fb = (\<lambda>fn. if fn = 8 then [[7, 7]] else if fn = 32 then [[0, 0, 0, 1]] else [])"
  "fb_requests demo_fb = []" "fb_CASPid demo_fb = 4242" "fb_BrokerInfo demo_fb = [0, 1, 1, 0, 0x4B, 0, 0, 0]"
  by (auto simp: demo_fb_def Queue_def SetProtocolVersion_def)

lemma two_sessions_login:
  assumes "broker_reach demo_fb (two_sessions f cs [])" and "i < length cs" and "cs ! i = accepted"
    and "fb_CASPid f = 4242" "fb_BrokerInfo f = [0, 1, 1, 0, 0x4B, 0, 0, 0]"
  shows "broker_reach demo_fb (two_sessions (f\<lparr>fb_greeting := Greeting False\<rparr>) (cs[i := logged_in]) [])"
proof -
  let ?k = "accepted\<lparr>bk_at := ReadDBInfo, bk_out := put_u32 0, bk_received := Greeting False\<rparr>"
  have tls: "string_bytes ''CUBRK'' \<noteq> string_bytes ''CUBRS''" by code_simp
  have "broker_reach demo_fb (two_sessions (f\<lparr>fb_greeting := Greeting False\<rparr>) (cs[i := ?k]) [])"
    using broker_reach_exchange [OF assms(1), of i accepted "Greeting False"] assms(2,3) tls
    by (simp add: two_sessions_def accepted_def session_greeted_def logged_def answer_of_def Greeting_bytes Let_def)
  from broker_reach_exchange [OF this, of i ?k login_bytes] assms(2,4,5) show ?thesis
    by (simp add: two_sessions_def accepted_def session_authenticated_def logged_def answer_of_def logged_in_def login_bytes_def)
qed

lemma two_sessions_request:
  assumes "broker_reach demo_fb (two_sessions f cs log)" and "i < length cs" and "cs ! i = logged_in"
    and "fb_reply [32] f = (resp, f')"
  shows "broker_reach demo_fb (two_sessions f' (cs[i := answered resp]) (log @ logged i (ReadPayload 1) [32] f))"
proof -
  let ?h = "put_u32 1 @ [0, 0, 0, 0]"
  let ?k = "logged_in\<lparr>bk_at := ReadPayload 1, bk_received := bk_received logged_in @ ?h\<rparr>"
  have "broker_reach demo_fb (two_sessions f (cs[i := ?k]) log)"
    using broker_reach_exchange [OF assms(1), of i logged_in ?h] assms(2,3)
    by (simp add: two_sessions_def logged_in_def logged_def answer_of_def)
  from broker_reach_exchange [OF this, of i ?k "[32]"] assms(2,4) show ?thesis
    by (simp add: two_sessions_def logged_in_def answered_def session_request_def)
qed

lemma two_sessions_reach:
  "\<exists>f. broker_reach demo_fb (two_sessions f [answered [0, 0, 0, 0], answered [0, 0, 0, 1]]
    [(1, [32], Some [0, 0, 0, 1]), (0, [32], None)])"
proof -
  have "broker_reach demo_fb (two_sessions demo_fb [accepted, accepted] [])"
    using broker_reach.step [OF broker_reach.step [OF broker_reach.start broker_step.accept] broker_step.accept]
    by (simp add: serve_start_def two_sessions_def)
  from two_sessions_login [OF two_sessions_login [OF this, of 0], of 1]
  have "broker_reach demo_fb (two_sessions (demo_fb\<lparr>fb_greeting := Greeting False\<rparr>) [logged_in, logged_in] [])"
    by (simp add: demo_fb_fields)
  from two_sessions_request [OF this, of 1]
  have "\<exists>f. broker_reach demo_fb (two_sessions f [logged_in, answered [0, 0, 0, 1]] [(1, [32], Some [0, 0, 0, 1])]) \<and> fb_queues f 32 = []"
    by (auto simp: fb_reply_def demo_fb_fields logged_def answer_of_def Let_def)
  then obtain f where "broker_reach demo_fb (two_sessions f [logged_in, answered [0, 0, 0, 1]] [(1, [32], Some [0, 0, 0, 1])])"
    and "fb_queues f 32 = []" by blast
  from two_sessions_request [OF this(1), of 0] this(2) show ?thesis
    by (auto simp: fb_reply_def logged_def answer_of_def Let_def)
qed

theorem concurrent_sessions_witness:
  "\<exists>f. Requests f = [[32], [32]] \<and> (\<exists>frames. list_all2 frame_of frames [([32], Some [0, 0, 0, 1])] \<and>
    (\<exists>handshake. length handshake = 638 \<and> bk_received (answered [0, 0, 0, 1]) = handshake @ concat frames))"
proof -
  obtain f where "broker_reach demo_fb (two_sessions f [answered [0, 0, 0, 0], answered [0, 0, 0, 1]]
    [(1, [32], Some [0, 0, 0, 1]), (0, [32], None)])"
    using two_sessions_reach by blast
  from concurrent_sessions [OF this, of 1] show ?thesis
    by (intro exI [of _ f]) (auto simp: two_sessions_def requests_of_def Requests_def log_of_def demo_fb_fields answered_def logged_in_def)
qed

subsection \<open>The recording proxy\<close>

text \<open>
  C31. The recorder is transparent and its capture is complete: once started, however the copies of
  all connections interleave, on every proxied connection and in each direction the bytes forwarded
  are a prefix of the bytes dumped for it, which are a prefix of the bytes that arrived, and nothing
  is lost while the copy runs: forwarded, in flight and unread bytes make up what arrived. Standard
  output is exactly one dump per chunk, in the order in which the chunks were taken, and a dump gives
  the chunk back. (That a dump is not torn by another is what the mutex is for; here it is one step.)
\<close>

theorem proxy_transparent:
  assumes "recorder_reach args net_Listen r"
  shows "\<exists>log. rc_stdout r = map (\<lambda>(i, d, b). tap_line (tap_dir d) b) log \<and>
    (\<forall>i p d. i < length (rc_conns r) \<longrightarrow> rc_conns r ! i = Proxying p \<longrightarrow>
       prefix (cp_output (px_copier p d)) (dumped i d log) \<and> prefix (dumped i d log) (cp_received (px_copier p d)) \<and>
       (cp_at (px_copier p d) \<noteq> Done \<longrightarrow>
        cp_output (px_copier p d) @ in_flight (cp_at (px_copier p d)) @ cp_input (px_copier p d) =
        cp_received (px_copier p d))) \<and>
    (\<forall>(i, d, b) \<in> set log. i < length (rc_conns r) \<and> undump (length b) (hexDump 0 b) = b)"
proof -
  obtain log where ok: "recorder_ok log r" using recorder_reach_ok [OF assms] ..
  have "copier_ok (dumped i d log) (px_copier p d)" if "i < length (rc_conns r)" "rc_conns r ! i = Proxying p" for i p d
    using ok that by (force simp: recorder_ok_def conn_ok_def proxy_ok_def)
  moreover have "undump (length b) (hexDump 0 b) = b" for b using undump_hexDump [of b 0 "[]"] by simp
  moreover have "rc_stdout r = map (\<lambda>(i, d, b). tap_line (tap_dir d) b) log"
    using ok by (simp add: recorder_ok_def tap_lines_def comp_def split_beta)
  moreover have "\<forall>e \<in> set log. fst e < length (rc_conns r)" using ok by (simp add: recorder_ok_def)
  ultimately show ?thesis using copier_ok_prefix copier_ok_running by (intro exI [of _ log]) (auto, blast+)
qed

text \<open>A request of two bytes on its way through the proxy.\<close>

definition relayed :: recorder where
  "relayed = \<lparr>rc_target = ''db:33000'',
     rc_conns = [Proxying \<lparr>px_copier = (\<lambda>_. new_copier)(Up := new_copier\<lparr>cp_received := [1, 2], cp_output := [1, 2]\<rparr>),
       px_closed = False\<rparr>],
     rc_stdout = [tap_line ''>>'' [1, 2]],
     rc_stderr = [Errorf ''proxying %s -> %s'' [EStr '':7777'', EStr ''db:33000'']], rc_exit = None\<rparr>"

lemma recorder_proxies:
  assumes "recorder_reach args li \<lparr>rc_target = t, rc_conns = [Proxying p], rc_stdout = so, rc_stderr = se, rc_exit = None\<rparr>"
    and "proxy_step p out p'"
  shows "recorder_reach args li \<lparr>rc_target = t, rc_conns = [Proxying p'], rc_stdout = so @ tap_lines out, rc_stderr = se, rc_exit = None\<rparr>"
  using recorder_reach.step [OF assms(1) recorder_step.proxies [of _ 0, OF _ _ _ assms(2)]] by simp

lemma relayed_reach: "recorder_reach [''-target'', ''db:33000''] (\<lambda>_. Inr ()) relayed"
proof -
  let ?k = "\<lambda>a i out. \<lparr>cp_at = a, cp_input = i, cp_eof = False, cp_received = [1, 2], cp_output = out\<rparr>"
  let ?p = "\<lambda>k. \<lparr>px_copier = (\<lambda>_. new_copier)(Up := k), px_closed = False\<rparr>"
  let ?r = "\<lambda>cs. \<lparr>rc_target = ''db:33000'', rc_conns = cs, rc_stdout = [],
     rc_stderr = [Errorf ''proxying %s -> %s'' [EStr '':7777'', EStr ''db:33000'']], rc_exit = None\<rparr>"
  have "recorder_reach [''-target'', ''db:33000''] (\<lambda>_. Inr ()) (?r [])"
    by (rule recorder_reach.start) (simp add: main_start_def flag_name_def set_flag_def)
  from recorder_reach.step [OF this recorder_step.accept]
  have "recorder_reach [''-target'', ''db:33000''] (\<lambda>_. Inr ()) (?r [Dialling])" by simp
  from recorder_reach.step [OF this recorder_step.dialled [of _ 0]]
  have 0: "recorder_reach [''-target'', ''db:33000''] (\<lambda>_. Inr ()) (?r [Proxying (?p new_copier)])"
    by (simp add: new_proxy_def fun_upd_def)
  have "copy_step False new_copier (?k Reading [1, 2] [])"
    using copy_step.arrive [of new_copier False "[1, 2]"] by (simp add: new_copier_def)
  then have 1: "proxy_step (?p new_copier) [] (?p (?k Reading [1, 2] []))"
    using proxy_step.copy [of "?p new_copier" Up] by simp
  have "copy_step False (?k Reading [1, 2] []) (?k (Dumping [1, 2]) [] [])"
    using copy_step.read [of "?k Reading [1, 2] []" False 2] by (simp add: copy_buffer_def)
  then have 2: "proxy_step (?p (?k Reading [1, 2] [])) [] (?p (?k (Dumping [1, 2]) [] []))"
    using proxy_step.copy [of "?p (?k Reading [1, 2] [])" Up] by simp
  have 3: "proxy_step (?p (?k (Dumping [1, 2]) [] [])) [(Up, [1, 2])] (?p (?k (Forwarding [1, 2]) [] []))"
    using proxy_step.dump [of "?p (?k (Dumping [1, 2]) [] [])" Up "[1, 2]"] by simp
  have "copy_step False (?k (Forwarding [1, 2]) [] []) (?k Reading [] [1, 2])"
    using copy_step.forward [of "?k (Forwarding [1, 2]) [] []" "[1, 2]" False] by simp
  then have 4: "proxy_step (?p (?k (Forwarding [1, 2]) [] [])) [] (?p (?k Reading [] [1, 2]))"
    using proxy_step.copy [of "?p (?k (Forwarding [1, 2]) [] [])" Up] by simp
  show ?thesis
    using recorder_proxies [OF recorder_proxies [OF recorder_proxies [OF recorder_proxies [OF 0 1] 2] 3] 4]
    by (simp add: relayed_def new_copier_def tap_lines_def)
qed

theorem proxy_transparent_witness:
  "\<exists>log. rc_stdout relayed = map (\<lambda>(i, d, b). tap_line (tap_dir d) b) log \<and>
    prefix [1, 2] (dumped 0 Up log) \<and> prefix (dumped 0 Up log) [1, 2]"
proof -
  define p where "p = \<lparr>px_copier = (\<lambda>_. new_copier)(Up := new_copier\<lparr>cp_received := [1, 2], cp_output := [1, 2]\<rparr>), px_closed = False\<rparr>"
  have at: "0 < length (rc_conns relayed)" "rc_conns relayed ! 0 = Proxying p" by (simp_all add: relayed_def p_def)
  have p: "cp_output (px_copier p Up) = [1, 2]" "cp_received (px_copier p Up) = [1, 2]" by (simp_all add: p_def)
  from proxy_transparent [OF relayed_reach] obtain log
    where so: "rc_stdout relayed = map (\<lambda>(i, d, b). tap_line (tap_dir d) b) log"
      and all: "\<forall>i q d. i < length (rc_conns relayed) \<longrightarrow> rc_conns relayed ! i = Proxying q \<longrightarrow>
        prefix (cp_output (px_copier q d)) (dumped i d log) \<and> prefix (dumped i d log) (cp_received (px_copier q d))"
    by (elim exE conjE) blast
  from all at have "prefix (cp_output (px_copier p Up)) (dumped 0 Up log) \<and> prefix (dumped 0 Up log) (cp_received (px_copier p Up))"
    by blast
  with so show ?thesis unfolding p by blast
qed

end
