(* ===== verification/Unusable.thy ===== *)
theory Unusable
  imports Schema_Facts Batch Lob_Facts
begin

section \<open>Operations on an unusable connection\<close>

text \<open>
  A connection that is poisoned or closed refuses every round trip at once and stays as it is
  (\<open>roundTrip.fails_fast\<close>). Here that fact is carried through the operations that are not plain
  requests: those that check their arguments first, that keep a statement, an iterator or a locator
  of their own, or that loop. Each lemma names the checks that come before the first request.
\<close>

lemmas refused = roundTrip.fails_fast batchRoundTrip.fails_fast Conn_Exec.fails_fast SchemaInfo.fails_fast

subsection \<open>Session settings and savepoints\<close>

lemma SetIsolationLevel_unusable:
  assumes "\<not> Valid c"
  shows "snd (SetIsolationLevel ctx lv c) = c"
    and "(if AtLeast (c_version c) ProtoV7 then 4 else 1) \<le> sint lv \<Longrightarrow> sint lv \<le> 6 \<Longrightarrow>
      SetIsolationLevel ctx lv c = (Inl ErrBadConn, c)"
  using assms
  by (auto simp: SetIsolationLevel_def bindC_def IsolationReadCommitted_def IsolationSerializable_def refused Let_def split: if_splits)

lemma Savepoint_unusable:
  assumes "\<not> Valid c"
  shows "snd (Savepoint tz ctx name c) = c" and "snd (RollbackToSavepoint tz ctx name c) = c"
    and "checkSavepointName name = Inr () \<Longrightarrow> Savepoint tz ctx name c = (Inl ErrBadConn, c)"
    and "checkSavepointName name = Inr () \<Longrightarrow> RollbackToSavepoint tz ctx name c = (Inl ErrBadConn, c)"
  using assms
  by (auto simp: Savepoint_def RollbackToSavepoint_def bindC_def returnC_def refused split: sum.split)

subsection \<open>Statements and batches\<close>

lemma execute_unusable:
  assumes "\<not> Valid c"
  shows "\<exists>e s'. execute tz ctx args s c = (Inl e, s', c)"
    and "\<not> st_closed s \<Longrightarrow> length args = st_paramCount s \<Longrightarrow>
      executeRequest (s\<lparr>st_outRow := None\<rparr>) args (c_autoCommit c) (c_version c) = Inr w \<Longrightarrow>
      execute tz ctx args s c = (Inl ErrBadConn, s\<lparr>st_outRow := None\<rparr>, c)"
  using assms by (auto simp: execute_def Let_def refused split: sum.split)

lemma Stmt_Exec_unusable:
  assumes "\<not> Valid c"
  shows "\<exists>e s'. Stmt_Exec tz ctx args s c = (Inl e, s', c)" and "\<exists>e s'. Stmt_Query tz ctx args s c = (Inl e, s', c)"
    and "\<not> st_closed s \<Longrightarrow> length args = st_paramCount s \<Longrightarrow>
      executeRequest (s\<lparr>st_outRow := None\<rparr>) args (c_autoCommit c) (c_version c) = Inr w \<Longrightarrow>
      Stmt_Exec tz ctx args s c = (Inl ErrBadConn, s\<lparr>st_outRow := None\<rparr>, c)"
    and "\<not> st_closed s \<Longrightarrow> length args = st_paramCount s \<Longrightarrow>
      executeRequest (s\<lparr>st_outRow := None\<rparr>) args (c_autoCommit c) (c_version c) = Inr w \<Longrightarrow>
      Stmt_Query tz ctx args s c = (Inl ErrBadConn, s\<lparr>st_outRow := None\<rparr>, c)"
  using execute_unusable [OF assms, where args = args and s = s and tz = tz and ctx = ctx] by (auto simp: Stmt_Exec_def Stmt_Query_def)

lemma Stmt_Close_unusable:
  assumes "\<not> Valid c"
  shows "Stmt_Close ctx s c = (if st_closed s then Inr () else Inl ErrBadConn, s\<lparr>st_closed := True\<rparr>, c)"
  using assms by (auto simp: Stmt_Close_def bindC_def refused Let_def)

lemma ExecBatch_unusable:
  assumes "\<not> Valid c"
  shows "snd (ExecBatch ctx rows s c) = c"
    and "\<not> st_closed s \<Longrightarrow> rows \<noteq> [] \<Longrightarrow> st_paramCount s = 0 \<longrightarrow> length rows = 1 \<Longrightarrow>
      list_all (\<lambda>row. length row = st_paramCount s) rows \<Longrightarrow>
      encodeBatchRows 0 (ExecuteBatchPrepRequest NewWriter (st_handle s) (c_autoCommit c) (c_version c)) rows = Inr w \<Longrightarrow>
      ExecBatch ctx rows s c = (Inl ErrBadConn, c)"
proof -
  show "snd (ExecBatch ctx rows s c) = c"
    using assms by (auto simp: ExecBatch_def Let_def refused split: sum.split)
  assume "\<not> st_closed s" "rows \<noteq> []" "st_paramCount s = 0 \<longrightarrow> length rows = 1"
    "encodeBatchRows 0 (ExecuteBatchPrepRequest NewWriter (st_handle s) (c_autoCommit c) (c_version c)) rows = Inr w"
    and "list_all (\<lambda>row. length row = st_paramCount s) rows"
  moreover from this(5) have "checkRows 0 (st_paramCount s) rows = Inr ()" by (simp add: checkRows_iff list_all_iff)
  ultimately show "ExecBatch ctx rows s c = (Inl ErrBadConn, c)"
    using assms by (auto simp: ExecBatch_def Let_def refused)
qed

lemma ExecBatchSQL_unusable:
  assumes "\<not> Valid c"
  shows "ExecBatchSQL ctx sqls c = (if sqls = [] then Inr [] else Inl ErrBadConn, c)"
  using assms by (auto simp: ExecBatchSQL_def Let_def refused)

subsection \<open>Rows\<close>

lemma Next_unusable:
  assumes "\<not> Valid c"
  shows "snd (snd (Next tz r c)) = c"
    and "\<not> rs_closed r \<Longrightarrow> length (rs_tuples r) \<le> rs_pos r \<Longrightarrow> \<not> rs_fetchedAll r \<Longrightarrow> Next tz r c = (Inl ErrBadConn, r, c)"
  using assms by (auto simp: Next_def fetchNext_def refused)

lemma Rows_Close_unusable:
  assumes "\<not> Valid c"
  shows "snd (snd (Rows_Close r c)) = c"
    and "\<not> rs_closed r \<Longrightarrow> rs_ownsStmt r \<Longrightarrow> \<not> st_closed (rs_stmt r) \<Longrightarrow>
      Rows_Close r c = (Inl ErrBadConn, r\<lparr>rs_closed := True, rs_stmt := (rs_stmt r)\<lparr>st_closed := True\<rparr>\<rparr>, c)"
  by (simp_all add: Rows_Close_def Stmt_Close_unusable [OF assms] Let_def)

subsection \<open>LOBs\<close>

lemma ReadAt_unusable:
  assumes "\<not> Valid c"
  shows "snd (ReadAt ctx l len off c) = c"
    and "0 \<le> sint off \<Longrightarrow> 0 < len \<Longrightarrow> ReadAt ctx l len off c = (([], Some ErrBadConn), c)"
  using assms by (auto simp: ReadAt_def ReadAt_loop.simps [of ctx l off len "[]" c] Let_def refused)

lemma Append_unusable:
  assumes "\<not> Valid c"
  shows "snd (Append ctx p l c) = (l, c)"
    and "lob_writable l \<Longrightarrow> p \<noteq> [] \<Longrightarrow> Append ctx p l c = ((0, Some ErrBadConn), l, c)"
  using assms by (auto simp: Append_def Append_loop.simps [of ctx p 0 l c] Let_def refused)

lemma ReadAll_unusable:
  assumes "\<not> Valid c"
  shows "ReadAll ctx l c = (if 0 < sint (lh_Size (lob_handle l)) then Inl ErrBadConn else Inr [], c)"
proof (cases "0 < sint (lh_Size (lob_handle l))")
  case True
  then have "ReadAt ctx l (nat (min (sint (lh_Size (lob_handle l))) LobMaxChunk)) 0 c = (([], Some ErrBadConn), c)"
    by (intro ReadAt_unusable(2) [OF assms]) (simp_all add: LobMaxChunk_def)
  with True show ?thesis by (simp add: ReadAll_def ReadAll_loop.simps [of ctx l "[]" 0 c])
qed (simp add: ReadAll_def ReadAll_loop.simps [of ctx l "[]" 0 c])

subsection \<open>Schema helpers\<close>

lemma schema_unusable:
  assumes "\<not> Valid c"
  shows "Tables tz ctx c = Some (Inl ErrBadConn, c)" and "Columns tz ctx table c = Some (Inl ErrBadConn, c)"
    and "PrimaryKey tz ctx table c = Some (Inl ErrBadConn, c)" and "Indexes tz ctx table c = Some (Inl ErrBadConn, c)"
    and "ImportedKeys tz ctx table c = Some (Inl ErrBadConn, c)" and "ExportedKeys tz ctx table c = Some (Inl ErrBadConn, c)"
  using assms
  by (simp_all add: Tables_def Columns_def PrimaryKey_def Indexes_def ImportedKeys_def ExportedKeys_def foreignKeys_def
      schema_query_def refused)

end
