(* ===== verification/Spec2Isabelle.thy ===== *)
theory Spec2Isabelle
  imports Protocol_Properties Driver_Properties Tooling_Properties Unusable
begin

text \<open>
  Verification of gocubrid, a Go driver for the CUBRID database that speaks the broker's CAS protocol
  itself. The program has four layers, and the development follows them.

  \<^item> The protocol package (\<^verbatim>\<open>src/cubrid/internal/protocol\<close>) lays requests out as bytes and parses
    responses. It keeps no state beyond the buffer of a \<^verbatim>\<open>Writer\<close> and the position of a \<^verbatim>\<open>Reader\<close>.
  \<^item> The native client (\<^verbatim>\<open>src/cubrid\<close>) owns a socket per \<^verbatim>\<open>Conn\<close>. Everything it does to the server is
    \<^verbatim>\<open>roundTrip\<close>: one framed request, one framed response, or a poisoned connection. Statements, rows,
    LOBs, batches, transactions and the schema helpers are built on it.
  \<^item> The root package (\<^verbatim>\<open>src/*.go\<close>) adapts the client to database/sql.
  \<^item> Two tools stand beside them: the scripted broker of the tests (\<^verbatim>\<open>src/internal/prototest\<close>) and the
    recording proxy (\<^verbatim>\<open>src/cmd/record-proxy\<close>).

  \<^bold>\<open>The language.\<close> \<open>Go_Prelude\<close> has fixed-width integers as words, byte slices and strings as lists,
  the values a Go \<^verbatim>\<open>any\<close> holds here (\<open>value\<close>), and errors as values of \<open>error\<close> with the wrapping of
  \<^verbatim>\<open>fmt.Errorf("...%w")\<close> and \<^verbatim>\<open>errors.Join\<close>, so that \<^verbatim>\<open>errors.Is\<close> is a function. A fallible computation is
  \<open>error + 'a\<close>, sequenced by \<open>bindE\<close>. Index and slice expressions go through \<open>go_index\<close> and
  \<open>go_slice\<close>, whose failure is the error \<open>Panic\<close>: absence of panics is a theorem, not an assumption.
  \<open>Go_Strings\<close> and \<open>Go_Time\<close> hold the parts of strconv, strings, net and time that are used.

  \<^bold>\<open>Protocol.\<close> \<open>Wire_Binary\<close> (binary.go), \<open>Wire_Frame\<close> (frame.go), \<open>Wire_Status\<close> (errors.go),
  \<open>Wire_Handshake\<close> (version.go, handshake.go), \<open>Codec\<close> (types.go, codec.go), \<open>Wire_Requests\<close>
  (funccodes.go, dbparam.go, schema.go), \<open>Wire_Lob\<close> (lob.go) and \<open>Wire_Batch\<close> (batch.go). Definitions
  carry the names of the functions they translate, prefixed by the receiver where a name occurs
  twice. \<open>Wire_Parser\<close> is the parsing library: the locale \<open>wire_parser\<close> is the contract of every parser
  (no panic, no read past the payload), \<open>counted_parser\<close> that of a loop body with a least size, which
  is what the guards on wire counts rely on; both are interpreted for every parser of the program.
  \<open>parses p bs x\<close> says that \<open>p\<close> reads exactly \<open>bs\<close> and yields \<open>x\<close>. The locale \<open>arg_writer\<close> is the contract
  of the \<^verbatim>\<open>Arg*\<close> methods, and \<open>split_args\<close> the receiver's view of a request. \<open>Codec_Facts\<close> and
  \<open>Param_Facts\<close> show that decoding is total and bounded and inverts encoding; \<open>read_arg\<close> is the receiver's
  side of a request argument, where length zero is NULL.

  \<^bold>\<open>Client.\<close> \<open>Config\<close> (config.go); \<open>Conn\<close> (the state of a connection, \<^verbatim>\<open>roundTrip\<close>, \<^verbatim>\<open>Ping\<close>, \<^verbatim>\<open>Close\<close>);
  \<open>Connect\<close> (\<^verbatim>\<open>Connect\<close>, \<^verbatim>\<open>connectHost\<close>, \<^verbatim>\<open>handshake\<close>) with \<open>Connect_Facts\<close>; \<open>Guard\<close> (\<^verbatim>\<open>guard\<close> and its
  cancellation callback as an interleaving step relation); \<open>Stmt\<close>, \<open>Rows\<close>, \<open>Exec\<close> (stmt.go, rows.go,
  tx.go) with \<open>Rows_Facts\<close>, \<open>Exec_Facts\<close> and \<open>Bind_Facts\<close>, which gives the exact type and bytes of every
  bound value, scalar, collection, locator or number, and what a receiver reads from them
  (\<open>sent_as\<close>); \<open>Batch\<close> (batch.go); \<open>Lob\<close> (lob.go) with \<open>Lob_Facts\<close>;
  \<open>Schema\<close> (schema.go) with \<open>Schema_Facts\<close>. A connection is the record \<open>conn\<close>; the far end of its socket
  is a function of everything written so far (\<open>peer\<close>), which delivers bytes followed by an error, or
  makes the write fail. The locale \<open>conn_op\<close> is the contract of every operation on a connection (it is
  a sequence of primitive steps, keeps the session, never revives a poisoned connection);
  \<open>conn_request\<close> extends it with failing fast. They are interpreted for every exported operation;
  \<open>Unusable\<close> says what the operations that are not plain requests do on an unusable connection.
  \<open>socket_op\<close> and \<open>attempt_op\<close> are the contracts of the phases of a connection attempt (socket
  accounting). \<open>Broker\<close> abstracts a server as a state machine from request to response; \<open>serves\<close>
  relates a connection to it, and one \<^verbatim>\<open>roundTrip\<close> is one step of it. The locale
  \<open>result_server\<close> is what row iteration relies on: a server that answers FETCH from a fixed list of
  rows, in portions of its choice. Against it, iteration refines a list of rows and draining a result
  refines a fold; a LOB refines a byte string in the same way.

  \<^bold>\<open>Adapter and tools.\<close> \<open>Adapter\<close> with \<open>Adapter_Facts\<close> models driver.go, connector.go, conn.go, stmt.go,
  rows.go, tx.go, value.go and cubrid/numeric.go; \<open>Row_Values\<close> follows the values of a row from the
  decoder to database/sql. \<open>Fake_Broker\<close> with \<open>Fake_Broker_Facts\<close> models
  fakebroker.go: a session is a coroutine over the bytes of its socket, and the client's connection
  to it is run from the greeting on; \<open>resp_field\<close> is the contract between \<^verbatim>\<open>RespWriter\<close> and \<^verbatim>\<open>Reader\<close>.
  \<open>Broker_Sessions\<close> runs its accept loop: any number of sessions that interleave with each other and
  with the calls of the test. \<open>Record_Proxy\<close> models the proxy from its flags to the two copying
  goroutines of every connection, all of which interleave.

  \<^bold>\<open>Servers.\<close> What the adapter promises its user is stated against abstract servers. \<open>Database\<close> is one
  that prepares statements, keeps handles and answers a query with the rows it has for the values
  bound; it is an instance of \<open>result_server\<close>, and \<open>Query_Facts\<close> runs every call of a query against it.
  \<open>Transactions\<close> is one that keeps a committed and a working state. \<open>Failover\<close> describes a broker that
  lets a client in. They specify the far end and model no code of the repository.

  \<^bold>\<open>Properties.\<close> \<open>Protocol_Properties\<close>, \<open>Client_Properties\<close>, \<open>Driver_Properties\<close> and
  \<open>Tooling_Properties\<close> state what each layer promises; this theory has those that span components.
  \<open>Demo\<close> holds the concrete servers and connections on which they are exercised.

  \<^bold>\<open>Loops and bounds.\<close> Loops over counted input are structural. The collection decoder, the LOB
  loops, the broker's session and the dump are recursive functions with measures (bytes left to
  decode, bytes left to move, bytes received). \<^verbatim>\<open>forEachSchemaRow\<close> runs as long as the server sends
  rows, so it is a partial function whose value \<open>None\<close> means that it does not return; C6 shows that it
  returns. There is no fuel. Integers read from the wire keep their width: lengths and counts are
  32-bit words, and \<open>sint\<close> appears where Go converts to \<^verbatim>\<open>int\<close>, which is 64 bits wide. The bounds
  \<open>2 ^ 31\<close> and \<open>2 ^ 32\<close> in hypotheses are those beyond which a length field wraps.

  \<^bold>\<open>Parameters.\<close> The time zone database (\<open>tz\<close>), \<^verbatim>\<open>url.Parse\<close>, \<^verbatim>\<open>time.ParseDuration\<close>, float formatting
  and parsing, the network (\<open>net\<close>: dialling, the TLS handshake, the clock, the frame directory),
  contexts (\<open>ctx\<close>: deadline and error over time), and in the tools the listener and the certificate.

  \<^bold>\<open>Not modelled.\<close> Logging under \<^verbatim>\<open>CUBRID_WIRE_DEBUG\<close>, which leaves no state; the interior of TLS;
  the text of formatted messages, of which format and arguments are kept; the generation of the
  scripted broker's certificate; package registration and the compile-time interface assertions. A
  time is its wall clock and zone; instants are not computed, so a wall clock in a daylight saving gap
  stays as it is, and an offset that happens to be that of the local zone is a fixed zone (Go's
  \<^verbatim>\<open>time.Parse\<close> then answers Local, with the same offset). A deadline on the socket is recorded, and its
  effect on a read or write is the peer's to choose.

  \<^bold>\<open>What it showed.\<close> A connection lost between two fetches is reported as the end of the rows (C5); a
  cancellation callback that is already running can hit the next operation (C30); a COMMIT the server
  refuses is not rolled back by \<^verbatim>\<open>ResetSession\<close> (C25); the legacy error format loses four bytes of its
  message (C40); a row that cannot be decoded is skipped by the next fetch (C33); an empty, non-nil
  []byte is bound as NULL (C17); the recording proxy drops answers after a half-close
  (\<open>half_close_cuts_answer\<close> in \<open>Record_Proxy\<close>).
\<close>

section \<open>Connections\<close>

text \<open>
  C1. A transport failure poisons the connection for good: after a request that failed on a usable
  connection, whatever operations follow, the connection is unusable, not one more byte is written
  to the socket, and every further round trip returns \<^verbatim>\<open>ErrBadConn\<close> at once. What an operation makes
  of that, and what it still answers without a round trip, is C9.
\<close>

theorem poisoned_forever:
  assumes "Valid c" and "roundTrip ctx p c = (Inl e, c1)" and "conn_steps c1 c2"
  shows "\<not> Valid c2 \<and> c_sent c2 = c_sent c1 \<and> roundTrip ctx' q c2 = (Inl ErrBadConn, c2)"
proof -
  have bad: "\<not> Valid c1" using roundTrip_failure [OF assms(1,2)] by (simp add: Valid_def)
  have ev: "evolves c1 c2" by (rule evolves_steps [OF assms(3)])
  with bad have "\<not> Valid c2" using Valid_antimono by blast
  moreover have "c_sent c2 = c_sent c1" using ev bad by (auto simp: evolves_def)
  moreover have "roundTrip ctx' q c2 = (Inl ErrBadConn, c2)" by (rule roundTrip.fails_fast) fact
  ultimately show ?thesis by blast
qed

lemma broken_roundTrip:
  "\<exists>c1. roundTrip contextBackground p (demo_conn broken_peer) =
    (Inl (Wrapf ''cubrid: write: %w'' [] (NetError ''broken pipe'')), c1)"
  by (simp add: roundTrip_def roundTrip_io_def nc_Write_def guard_begin_def broken_peer_def ctx_or_def
      contextBackground_def Let_def)

theorem poisoned_forever_witness:
  "\<exists>c1 c2. conn_steps c1 c2 \<and> (\<exists>e. roundTrip contextBackground [32] (demo_conn broken_peer) = (Inl e, c1)) \<and>
    roundTrip contextBackground [8] c2 = (Inl ErrBadConn, c2)"
proof -
  obtain c1 e where e: "roundTrip contextBackground [32] (demo_conn broken_peer) = (Inl e, c1)"
    using broken_roundTrip by blast
  have s: "conn_steps c1 (snd (Ping contextBackground c1))" by (rule Ping.steps)
  from poisoned_forever [OF _ e s, of contextBackground "[8]"] e s show ?thesis by auto
qed



section \<open>The client and a server\<close>

text \<open>
  C2. Requests and responses never get out of step: on a connection to a server, a sequence of
  requests is a run of the server on exactly these payloads, in order, each with the autocommit flag
  of the connection, and the \<open>i\<close>-th response read is the server's answer to the \<open>i\<close>-th request.
\<close>

theorem requests_run_server:
  assumes "serves srv \<sigma> c"
  shows "\<exists>c'. roundTrips ctx ps c = (map (Inr \<circ> NewReader) (srv_outs srv \<sigma> (map (\<lambda>p. (p, requestCasInfo c)) ps)), c') \<and>
    serves srv (srv_run srv \<sigma> (map (\<lambda>p. (p, requestCasInfo c)) ps)) c'"
  using assms
proof (induction ps arbitrary: \<sigma> c)
  case (Cons p ps)
  let ?q = "(p, requestCasInfo c)"
  obtain c1 where r: "roundTrip ctx p c = (Inr (NewReader (fst (srv \<sigma> ?q))), c1)"
    and s: "serves srv (snd (srv \<sigma> ?q)) c1" and ac: "c_autoCommit c1 = c_autoCommit c"
    by (rule serves_roundTrip [OF Cons.prems, of ctx p])
  have "requestCasInfo c1 = requestCasInfo c" using ac by (simp add: requestCasInfo_def)
  with Cons.IH [OF s] r show ?case by auto
qed simp

theorem requests_run_server_witness:
  "\<exists>c'. roundTrips contextBackground [[32], [8, 9]] (demo_conn (srv_peer echo_srv 0)) =
      ([Inr (NewReader [32]), Inr (NewReader [8, 9])], c') \<and> serves echo_srv 2 c'"
  using requests_run_server [OF echo_serves [of 0], of contextBackground "[[32], [8, 9]]"]
  by (simp add: echo_srv_def numeral_2_eq_2)

text \<open>
  C6. Draining a result visits every row once, in order: \<^verbatim>\<open>forEachSchemaRow\<close> always returns against
  such a server, and what it returns is the callback folded over the pending rows, up to the first
  error of the callback if there is one.
\<close>

theorem drain_is_fold:
  assumes "reading srv \<sigma> cap tz bodies vals r c"
  shows "\<exists>c'. forEachSchemaRow tz fn acc r c = Some (foldE fn acc (pending vals r), c')"
proof -
  from forEachLoop_served [OF assms, of fn acc] obtain r' c'
    where "forEachLoop tz fn acc r c = Some (foldE fn acc (pending vals r), r', c')" by blast
  then show ?thesis by (simp add: forEachSchemaRow_def split: prod.split)
qed

theorem drain_is_fold_witness:
  "\<exists>c'. forEachSchemaRow (\<lambda>_. None) (\<lambda>acc row. Inr (acc @ [row])) [] (int_rows 4) (int_cursor_conn [10, 20, 30, 40]) =
    Some (Inr [[VInt32 10], [VInt32 20], [VInt32 30], [VInt32 40]], c')"
proof -
  let ?ns = "[10, 20, 30, 40 :: int32]"
  have len: "length ?ns = 4" by simp
  from drain_is_fold [OF int_reading [of ?ns "\<lambda>_. None"], of "\<lambda>acc row. Inr (acc @ [row])" "[]"]
  show ?thesis using int_pending [of ?ns] unfolding len by (simp add: int_rows_of_def)
qed

text \<open>
  C3. A query through database/sql returns exactly its rows and leaves nothing behind. On a
  connection to a database that knows the statement, \<^verbatim>\<open>Query\<close> with arguments succeeds and names the
  statement's columns; calls of \<^verbatim>\<open>Next\<close> then return every row the database has for the values bound, in
  order and widened to driver values, whatever portion of them the server inlines or sends per fetch,
  and \<^verbatim>\<open>io.EOF\<close> from then on; after \<^verbatim>\<open>Close\<close> the server has the handles open that it had before, and
  the connection serves it as before.
\<close>

theorem query_returns_all_rows:
  assumes srv: "serves (db_srv k cap tz (c_version c) db) \<sigma> c" and cap: "\<forall>n > 0. 0 < cap n" and ok: "db_ok \<sigma>"
    and q: "db sql = Some q" "query_ok sql q"
    and args: "bindArgs nvs = Inr args" "list_all arg_ok args" "length args = q_params q"
    and rows: "list_all2 (decodes_to tz False (q_cols q)) (q_rows q (map decoded_as args)) vals" "length vals < 2147483647"
    and lob: "list_all (list_all lob_free) vals"
    and fetch: "0 < cfg_FetchSize (c_cfg c)" "cfg_FetchSize (c_cfg c) < 2147483648"
  shows "\<exists>r c1 r2 c2 r3 c3. sql_Query tz ctx sql nvs c = (Inr r, c1) \<and> sql_rows_Columns r = map col_Name (q_cols q) \<and>
    sql_Nexts tz (length vals + m) r c1 = (map (Inr \<circ> map widened) vals @ replicate m (Inl EOF), r2, c2) \<and>
    sql_rows_Close r2 c2 = (Inr (), r3, c3) \<and>
    serves (db_srv k cap tz (c_version c) db) (\<sigma>\<lparr>db_next := Suc (db_next \<sigma>)\<rparr>) c3"
proof -
  define s where "s = prepared cmdTypeSelect sql (of_nat (db_next \<sigma>)) (q_params q) (q_cols q)"
  let ?\<sigma> = "opened (of_nat (db_next \<sigma>)) sql (map decoded_as args) (handed_out sql \<sigma>)"
  let ?reading = "reading (db_srv k cap tz (c_version c) db) ?\<sigma> cap tz (q_rows q (map decoded_as args)) vals"
  obtain nr c1 where q1: "sql_Query tz ctx sql nvs c = (Inr \<lparr>sr_ctx = ctx, sr_nr = nr, sr_cols = q_cols q, sr_ownedStmt = Some s\<rparr>, c1)"
    and fr: "fresh_iterator s vals nr" and rd: "?reading nr c1"
    unfolding s_def by (rule sql_Query_db [OF srv cap ok q args rows fetch])
  let ?r = "\<lparr>sr_ctx = ctx, sr_nr = nr, sr_cols = q_cols q, sr_ownedStmt = Some s\<rparr>"
  have p: "pending vals (sr_nr ?r) = vals" using fr by (simp add: fresh_iterator_def)
  from sql_Nexts_pending [of _ _ _ _ _ vals ?r c1 _ m] rd lob p obtain nr2 c2
    where n: "sql_Nexts tz (length vals + m) ?r c1 = (map (Inr \<circ> map widened) vals @ replicate m (Inl EOF), ?r\<lparr>sr_nr := nr2\<rparr>, c2)"
      and rd2: "?reading nr2 c2" and same: "same_iterator nr nr2" by fastforce
  have s2: "serves (db_srv k cap tz (c_version c) db) ?\<sigma> c2" using rd2 by (simp add: reading_def)
  have "\<not> rs_ownsStmt nr2" "\<not> rs_closed nr2"
    using same fr by (simp_all add: same_iterator_def fresh_iterator_def cursor_ok_def)
  then obtain r3 c3 where "sql_rows_Close (?r\<lparr>sr_nr := nr2\<rparr>) c2 = (Inr (), r3, c3)"
    "serves (db_srv k cap tz (c_version c) db) (\<sigma>\<lparr>db_next := Suc (db_next \<sigma>)\<rparr>) c3"
    using sql_rows_Close_db [OF s2 ok refl, of "?r\<lparr>sr_nr := nr2\<rparr>" s] by (auto simp: s_def prepared_def)
  with q1 n show ?thesis by (fastforce simp: sql_rows_Columns_def)
qed

theorem query_returns_all_rows_witness:
  "\<exists>r c1 r2 c2 r3 c3.
    sql_Query (\<lambda>_. None) contextBackground ''select n from t where n = ?'' (valuesToNamed [VInt32 7])
      (demo_conn (srv_peer (int_srv [5, 7, 7, 9, 7, 7]) db_init)) = (Inr r, c1) \<and>
    sql_Nexts (\<lambda>_. None) 6 r c1 =
      ([Inr [VInt64 7], Inr [VInt64 7], Inr [VInt64 7], Inr [VInt64 7], Inl EOF, Inl EOF], r2, c2) \<and>
    sql_rows_Close r2 c2 = (Inr (), r3, c3)"
proof -
  let ?ns = "[5, 7, 7, 9, 7, 7 :: int32]" and ?sql = "''select n from t where n = ?''"
  define c where "c = demo_conn (srv_peer (int_srv ?ns) db_init)"
  define q where "q = \<lparr>q_cols = [int_col], q_params = 1, q_rows = (\<lambda>vs. map int_body (filter (\<lambda>n. VInt32 n \<in> set vs) ?ns))\<rparr>"
  have v: "c_version c = 12" "c_cfg c = demo_cfg" by (simp_all add: c_def)
  have srv: "serves (int_srv ?ns) db_init c" unfolding c_def by (rule int_db_serves) simp
  have 1: "int_db ?ns ?sql = Some q" by (simp add: int_db_def q_def)
  have 2: "query_ok ?sql q" by (simp add: query_ok_def q_def column_ok_def int_col_def zero_column_def)
  have 3: "bindArgs (valuesToNamed [VInt32 7]) = Inr [VInt32 7]" by (simp add: bindArgs_def valuesToNamed_def)
  have 4: "list_all arg_ok [VInt32 7]" by (simp add: arg_ok_def scalar_def)
  have 5: "list_all2 (decodes_to (\<lambda>_. None) False (q_cols q)) (q_rows q (map decoded_as [VInt32 7])) (replicate 4 [VInt32 7])"
    by (simp add: q_def numeral_eq_Suc int_body_decodes)
  have 6: "list_all (list_all lob_free) (replicate 4 [VInt32 7])" by (simp add: list_all_iff)
  have ok: "db_ok db_init" by (simp add: db_ok_def db_init_def)
  have out: "map (Inr \<circ> map widened) (replicate 4 [VInt32 7]) @ replicate 2 (Inl EOF) =
      [Inr [VInt64 7], Inr [VInt64 7], Inr [VInt64 7], Inr [VInt64 7], Inl EOF, Inl EOF]"
    by (simp add: numeral_eq_Suc)
  have len: "length (replicate 4 [VInt32 7]) + 2 = 6" by simp
  have "\<exists>r c1 r2 c2 r3 c3. sql_Query (\<lambda>_. None) contextBackground ?sql (valuesToNamed [VInt32 7]) c = (Inr r, c1) \<and>
      sql_rows_Columns r = map col_Name (q_cols q) \<and>
      sql_Nexts (\<lambda>_. None) (length (replicate 4 [VInt32 7]) + 2) r c1 =
        (map (Inr \<circ> map widened) (replicate 4 [VInt32 7]) @ replicate 2 (Inl EOF), r2, c2) \<and>
      sql_rows_Close r2 c2 = (Inr (), r3, c3) \<and>
      serves (db_srv 0 cap3 (\<lambda>_. None) (c_version c) (int_db ?ns)) (db_init\<lparr>db_next := Suc (db_next db_init)\<rparr>) c3"
    by (rule query_returns_all_rows [OF srv [folded v(1)] _ ok 1 2 3 4 _ 5 _ 6])
      (simp_all add: cap3_def v demo_cfg_def q_def)
  then show ?thesis unfolding c_def [symmetric] out len by blast
qed

text \<open>
  C5. A connection lost between two batches reads as the end of the result. When the peer closes the
  connection instead of answering FETCH, the iterator's error wraps \<^verbatim>\<open>io.EOF\<close>, so
  \<^verbatim>\<open>database/sql\<close> is told that the rows ended (\<^verbatim>\<open>rows.Next\<close> returns \<^verbatim>\<open>io.EOF\<close>) and the schema
  helpers return the rows seen so far as a complete success, although the connection is poisoned.
\<close>

theorem lost_connection_reads_as_end:
  assumes "Valid c" and "c_open c" and "s_in (c_br c) = []"
    and "\<And>b. c_peer c (c_sent c @ [b]) = Delivered [] EOF"
    and "\<not> rs_closed (sr_nr r)" and "length (rs_tuples (sr_nr r)) \<le> rs_pos (sr_nr r)" and "\<not> rs_fetchedAll (sr_nr r)"
  shows "(\<exists>c'. sql_rows_Next tz r c = (Inl EOF, r, c') \<and> \<not> Valid c') \<and>
    (\<exists>c'. forEachSchemaRow tz fn acc (sr_nr r) c = Some (Inr acc, c') \<and> \<not> Valid c')"
proof
  obtain c1 where n: "Next tz (sr_nr r) c = (Inl (Wrapf ''cubrid: read: %w'' [] EOF), sr_nr r, c1)" and b1: "c_bad c1"
    using Next_hangup [OF assms] by blast
  then show "\<exists>c'. sql_rows_Next tz r c = (Inl EOF, r, c') \<and> \<not> Valid c'"
    by (simp add: sql_rows_Next_def Valid_def)
  obtain c2 where l: "forEachLoop tz fn acc (sr_nr r) c = Some (Inr acc, sr_nr r, c2)" and b2: "c_bad c2"
    using forEachLoop_hangup [OF assms, of tz fn acc] by blast
  obtain x r3 c3 where cl: "Rows_Close (sr_nr r) c2 = (x, r3, c3)" by (cases "Rows_Close (sr_nr r) c2") auto
  have "\<not> Valid c3"
    using Rows_Close.stays_invalid [of c2 "sr_nr r"] b2 cl by (simp add: Valid_def)
  with l cl show "\<exists>c'. forEachSchemaRow tz fn acc (sr_nr r) c = Some (Inr acc, c') \<and> \<not> Valid c'"
    by (simp add: forEachSchemaRow_def)
qed

theorem lost_connection_reads_as_end_witness:
  "(\<exists>r c'. sql_rows_Next (\<lambda>_. None) r (demo_conn hangup_peer) = (Inl EOF, r, c') \<and> \<not> Valid c' \<and>
      pending (int_rows_of [10, 20]) (sr_nr r) \<noteq> []) \<and>
   (\<exists>c'. forEachSchemaRow (\<lambda>_. None) (\<lambda>acc row. Inr (acc @ [row])) [] (int_rows 2) (demo_conn hangup_peer) = Some (Inr [], c'))"
proof -
  let ?r = "\<lparr>sr_ctx = contextBackground, sr_nr = int_rows 2, sr_cols = [], sr_ownedStmt = None\<rparr>"
  have p: "pending (int_rows_of [10, 20]) (int_rows 2) \<noteq> []"
    by (simp add: pending_def int_rows_def int_rows_of_def)
  have "(\<exists>c'. sql_rows_Next (\<lambda>_. None) ?r (demo_conn hangup_peer) = (Inl EOF, ?r, c') \<and> \<not> Valid c') \<and>
    (\<exists>c'. forEachSchemaRow (\<lambda>_. None) (\<lambda>acc row. Inr (acc @ [row])) [] (sr_nr ?r) (demo_conn hangup_peer) = Some (Inr [], c') \<and> \<not> Valid c')"
    by (rule lost_connection_reads_as_end) (simp_all add: hangup_peer_def int_rows_def)
  with p show ?thesis by fastforce
qed

lemma ReadLobReply_panic_free: "reader_ok r \<Longrightarrow> panic_free (ReadLobReply chunk r)"
  unfolding ReadLobReply_def
  by (auto intro!: panic_free_bind panic_free_parser ReadStatus.wire_parser_axioms Reader_Bytes.wire_parser_axioms
      dest: ReadStatus.keeps_ok)

lemma WriteLobReply_panic_free: "reader_ok r \<Longrightarrow> panic_free (WriteLobReply chunk r)"
  unfolding WriteLobReply_def
  by (auto intro!: panic_free_bind panic_free_parser ReadStatus.wire_parser_axioms)

text \<open>
  C8. No response makes the client panic: every parser of server bytes returns a value or an error
  for every input, however the bytes are cut, whatever counts, lengths and types they announce.
\<close>

theorem no_response_panics:
  "panic_free (DecodeValue tz t b) \<and> panic_free (DecodeSelfDescribedValue tz b) \<and> panic_free (ParseLobHandle b) \<and>
   panic_free (ParseConnectReply b) \<and> panic_free (ReadStatus (NewReader b)) \<and>
   panic_free (ParseBatchResponse ver st (NewReader b)) \<and> panic_free (parsePrepare sql (NewReader b)) \<and>
   panic_free (parseExecute ver (NewReader b)) \<and> panic_free (parseSchemaInfo (NewReader b)) \<and>
   panic_free (fst (consumeFetch tz ver (NewReader b) r)) \<and>
   panic_free (ReadLobReply chunk (NewReader b)) \<and> panic_free (WriteLobReply chunk (NewReader b))"
proof -
  have "panic_free (ParseConnectReply b)"
    unfolding ParseConnectReply_def Let_def
    by (auto simp: ReadStatus_eq Reader_Bytes_def Reader_take_eq ParseBrokerInfo_def Int32_eq Let_def
        intro!: panic_free_bind split: if_splits)
  moreover have "panic_free (ParseLobHandle b)" using ParseLobHandle_panic_free by (auto simp: panic_free_def)
  moreover have "panic_free (ReadStatus (NewReader b))" "panic_free (ParseBatchResponse ver st (NewReader b))"
    "panic_free (parsePrepare sql (NewReader b))" "panic_free (parseExecute ver (NewReader b))"
    "panic_free (parseSchemaInfo (NewReader b))" "panic_free (ReadLobReply chunk (NewReader b))"
    "panic_free (WriteLobReply chunk (NewReader b))"
    by (intro panic_free_parser reader_ok_NewReader ReadStatus.wire_parser_axioms ParseBatchResponse.wire_parser_axioms
        parsePrepare.wire_parser_axioms parseExecute.wire_parser_axioms parseSchemaInfo.wire_parser_axioms
        ReadLobReply_panic_free WriteLobReply_panic_free)+
  ultimately show ?thesis
    by (simp add: DecodeValue_def decode_panic_free DecodeSelfDescribedValue_panic_free consumeFetch_safe)
qed

section \<open>Cancellation\<close>

text \<open>
  C29. As long as no cancellation callback is still in flight when its operation ends, a socket
  deadline is forced into the past only for the operation that is running and whose own context was
  cancelled.
\<close>

theorem cancellation_hits_own_operation:
  assumes "guard_reach_quiet g" and "g_deadline g = Past"
  shows "g_running g \<and> g_cancelled g (g_ops g - 1)"
  using quiet_inv_reach [OF assms(1)] assms(2) by (auto simp: quiet_inv_def guard_inv_def)

theorem cancellation_hits_own_operation_witness:
  "g_cancelled (fire_op 0 (cancel_op 0 (begin_op None guard_init))) 0"
proof -
  let ?g1 = "begin_op None guard_init"
  let ?g2 = "cancel_op 0 ?g1"
  have 1: "guard_reach_quiet ?g1"
    by (rule guard_reach_quiet.step [OF guard_reach_quiet.start guard_step.begins]) (simp_all add: guard_init_def begin_op_def)
  have 2: "guard_reach_quiet ?g2"
    by (rule guard_reach_quiet.step [OF 1 guard_step.cancels]) (simp add: cancel_op_def begin_op_def)
  have "g_cb ?g2 0 = Some Started" by (simp add: cancel_op_def begin_op_def guard_init_def)
  then have 3: "guard_reach_quiet (fire_op 0 ?g2)"
    by (rule guard_reach_quiet.step [OF 2 guard_step.fires]) (simp add: fire_op_def cancel_op_def begin_op_def)
  from cancellation_hits_own_operation [OF 3] show ?thesis
    by (simp add: fire_op_def cancel_op_def begin_op_def guard_init_def)
qed

text \<open>
  C30. The cleanup of \<^verbatim>\<open>guard\<close> does not wait for a callback that has started, and this is observable:
  a state is reachable in which the second operation runs under a deadline in the past although its
  own context was never cancelled, because the callback of the first operation ran late.
\<close>

theorem stale_callback_reachable:
  "guard_reach raced \<and> g_running raced \<and> g_deadline raced = Past \<and> g_ops raced = 2 \<and> \<not> g_cancelled raced 1"
  using raced_reachable
  by (simp add: raced_def fire_op_def begin_op_def end_op_def cancel_op_def guard_init_def Let_def)

end
